(* ===== verification/Prelude.thy ===== *)
theory Prelude
  imports Main "HOL-Library.Word" "HOL-Library.AList" "HOL-Library.Sublist"
begin

text \<open>
  Shared vocabulary of the development: the machine integers of the Rust sources, the text
  functions of Rust's \<^verbatim>\<open>str\<close> that the program calls, the error-and-state combinator
  behind the operator \<^verbatim>\<open>?\<close>, and association lists as keyed stores.

  Text is a \<open>string\<close>, a list of \<open>char\<close>; a \<open>char\<close> stands for the Unicode scalar value
  with its number, so the model covers texts over U+0000 to U+00FF.
\<close>

named_theorems text_simps \<open>evaluation of the text functions on concatenations\<close>
named_theorems store_simps \<open>lookup after an update of an association list\<close>

subsection \<open>Machine integers\<close>

type_synonym u8 = "8 word"
type_synonym u16 = "16 word"
type_synonym u32 = "32 word"
type_synonym u64 = "64 word"

text \<open>The signed 64-bit integers that the database stores, read with \<open>sint\<close>.\<close>

type_synonym i64 = "64 word"

lemma unat_ucast_u16_u32 [simp]: "unat (ucast (w :: u16) :: u32) = unat w"
proof -
  have "unat w < 2 ^ LENGTH(16)" by (rule unsigned_less)
  then show ?thesis by (simp add: unsigned_ucast_eq take_bit_nat_eq_self)
qed

text \<open>Errors of the operating system are the texts they print.\<close>

type_synonym io_error = string

lemma ucast_u32_i64 [simp]: "(ucast (ucast (w :: u32) :: i64) :: u32) = w"
  by transfer simp

lemma ucast_u16_i64 [simp]: "(ucast (ucast (w :: u16) :: i64) :: u16) = w"
  by transfer simp

lemma unat_of_nat_le:
  fixes b :: "'a :: len word"
  shows "n \<le> unat b \<Longrightarrow> unat (of_nat n :: 'a word) = n"
proof -
  assume "n \<le> unat b"
  also have "unat b < 2 ^ LENGTH('a)" by (rule unsigned_less)
  finally show ?thesis by (simp add: unat_of_nat)
qed

text \<open>The inclusive range \<^verbatim>\<open>a..=b\<close> of 16-bit integers.\<close>

definition range_u16 :: "u16 \<Rightarrow> u16 \<Rightarrow> u16 list" where
  "range_u16 a b = map of_nat [unat a ..< Suc (unat b)]"

lemma unat_range_u16: "unat ` set (range_u16 a b) = {unat a .. unat b}"
  using unat_of_nat_le [of _ b] by (force simp: range_u16_def image_image)

lemma range_u16_sorted: "sorted_wrt (\<lambda>x y. unat x < unat y) (range_u16 a b)"
proof -
  have "sorted_wrt (\<lambda>m n. unat (of_nat m :: u16) < unat (of_nat n :: u16)) [unat a..<Suc (unat b)]"
    by (intro sorted_wrt_mono_rel [OF _ sorted_wrt_upt]) (auto simp: unat_of_nat_le [of _ b])
  then show ?thesis by (simp add: range_u16_def sorted_wrt_map)
qed

lemma range_u16_Cons: "unat a \<le> unat b \<Longrightarrow> range_u16 a b = a # map of_nat [Suc (unat a) ..< Suc (unat b)]"
  by (simp add: range_u16_def upt_conv_Cons del: upt_Suc)

lemma card_range_u16: "card (set (range_u16 a b)) = Suc (unat b) - unat a"
proof -
  have "inj_on unat (set (range_u16 a b))" by (rule inj_onI) (rule unsigned_word_eqI)
  then have "card (set (range_u16 a b)) = card (unat ` set (range_u16 a b))" by (simp add: card_image)
  then show ?thesis by (simp add: unat_range_u16)
qed

lemma insert_remove_two: "x \<notin> S \<Longrightarrow> y \<notin> S \<Longrightarrow> insert x (insert y S) - {y} - {x} = S"
  by auto

subsection \<open>State and errors: the operator \<^verbatim>\<open>?\<close>\<close>

text \<open>
  A fallible operation with effects on a state \<open>'s\<close> is a function
  \<open>'s \<Rightarrow> ('e + 'a) \<times> 's\<close>. \<open>tryE m f\<close> is \<^verbatim>\<open>let x = m?; f(x)\<close>: an error of \<open>m\<close> is
  returned at once, with the state as \<open>m\<close> left it.
\<close>

definition tryE ::
  "('s \<Rightarrow> ('e + 'a) \<times> 's) \<Rightarrow> ('a \<Rightarrow> 's \<Rightarrow> ('e + 'b) \<times> 's) \<Rightarrow> 's \<Rightarrow> ('e + 'b) \<times> 's" where
  "tryE m f s = (case m s of (Inl e, s') \<Rightarrow> (Inl e, s') | (Inr x, s') \<Rightarrow> f x s')"

definition okE :: "'a \<Rightarrow> 's \<Rightarrow> ('e + 'a) \<times> 's" where
  "okE x s = (Inr x, s)"

definition errE :: "'e \<Rightarrow> 's \<Rightarrow> ('e + 'a) \<times> 's" where
  "errE e s = (Inl e, s)"

text \<open>\<^verbatim>\<open>map_err\<close>, and the implicit conversion of errors by \<^verbatim>\<open>?\<close> (\<^verbatim>\<open>From\<close>).\<close>

definition map_errE :: "('e \<Rightarrow> 'f) \<Rightarrow> ('s \<Rightarrow> ('e + 'a) \<times> 's) \<Rightarrow> 's \<Rightarrow> ('f + 'a) \<times> 's" where
  "map_errE g m s = (case m s of (Inl e, s') \<Rightarrow> (Inl (g e), s') | (Inr x, s') \<Rightarrow> (Inr x, s'))"

lemma tryE_Inr [simp]: "m s = (Inr x, s') \<Longrightarrow> tryE m f s = f x s'"
  by (simp add: tryE_def)

lemma tryE_Inl [simp]: "m s = (Inl e, s') \<Longrightarrow> tryE m f s = (Inl e, s')"
  by (simp add: tryE_def)

lemma map_errE_Inr [simp]: "m s = (Inr x, s') \<Longrightarrow> map_errE g m s = (Inr x, s')"
  by (simp add: map_errE_def)

lemma map_errE_Inl [simp]: "m s = (Inl e, s') \<Longrightarrow> map_errE g m s = (Inl (g e), s')"
  by (simp add: map_errE_def)

lemma tryE_eq_Inr_iff:
  "tryE m f s = (Inr y, t) \<longleftrightarrow> (\<exists>x s'. m s = (Inr x, s') \<and> f x s' = (Inr y, t))"
  by (auto simp: tryE_def split: prod.splits sum.splits)

lemma tryE_eq_Inl_iff:
  "tryE m f s = (Inl e, t) \<longleftrightarrow>
     m s = (Inl e, t) \<or> (\<exists>x s'. m s = (Inr x, s') \<and> f x s' = (Inl e, t))"
  by (auto simp: tryE_def split: prod.splits sum.splits)

subsection \<open>Text\<close>

abbreviation NL :: char where
  "NL \<equiv> CHR 0x0A"

abbreviation CR :: char where
  "CR \<equiv> CHR 0x0D"

text \<open>\<^verbatim>\<open>char::is_whitespace\<close> up to U+00FF.\<close>

definition is_ws :: "char \<Rightarrow> bool" where
  "is_ws c \<longleftrightarrow> c \<in> {CHR 0x09, CHR 0x0A, CHR 0x0B, CHR 0x0C, CHR 0x0D, CHR 0x20, CHR 0x85, CHR 0xA0}"

text \<open>\<^verbatim>\<open>str::trim\<close>.\<close>

definition trim :: "string \<Rightarrow> string" where
  "trim s = rev (dropWhile is_ws (rev (dropWhile is_ws s)))"

text \<open>\<^verbatim>\<open>str::contains\<close>; \<^verbatim>\<open>str::starts_with\<close> is the library's \<open>prefix\<close>.\<close>

fun contains :: "string \<Rightarrow> string \<Rightarrow> bool" where
  "contains pat [] \<longleftrightarrow> pat = []"
| "contains pat (c # cs) \<longleftrightarrow> prefix pat (c # cs) \<or> contains pat cs"

text \<open>
  \<^verbatim>\<open>str::lines\<close>: lines end at a newline or at the end of the text; a carriage return just
  before the newline belongs to the line ending.
\<close>

definition strip_cr :: "string \<Rightarrow> string" where
  "strip_cr l = (if l \<noteq> [] \<and> last l = CR then butlast l else l)"

function str_lines :: "string \<Rightarrow> string list" where
  "str_lines s =
     (if s = [] then []
      else case dropWhile (\<lambda>c. c \<noteq> NL) s of
             [] \<Rightarrow> [s]
           | _ # r \<Rightarrow> strip_cr (takeWhile (\<lambda>c. c \<noteq> NL) s) # str_lines r)"
  by pat_completeness auto
termination
proof (relation "measure length", simp_all)
  fix s :: string and x r
  assume "dropWhile (\<lambda>c. c \<noteq> NL) s = x # r"
  then have "length (x # r) \<le> length s"
    by (metis length_dropWhile_le)
  then show "length r < length s" by simp
qed

declare str_lines.simps [simp del]

text \<open>\<^verbatim>\<open>[String]::join("\n")\<close>.\<close>

fun join_nl :: "string list \<Rightarrow> string" where
  "join_nl [] = []"
| "join_nl [l] = l"
| "join_nl (l # m # ls) = l @ NL # join_nl (m # ls)"

text \<open>Lines: the laws that evaluate \<open>str_lines\<close> on a text built from lines.\<close>

lemma str_lines_Nil [simp, text_simps]: "str_lines [] = []"
  by (simp add: str_lines.simps)

lemma str_lines_last [text_simps]: "NL \<notin> set l \<Longrightarrow> l \<noteq> [] \<Longrightarrow> str_lines l = [l]"
proof -
  assume "NL \<notin> set l" "l \<noteq> []"
  then have "dropWhile (\<lambda>c. c \<noteq> NL) l = []" by (auto simp: dropWhile_eq_Nil_conv)
  with \<open>l \<noteq> []\<close> show ?thesis by (simp add: str_lines.simps del: dropWhile_eq_Nil_conv)
qed

lemma str_lines_line [text_simps]: "NL \<notin> set l \<Longrightarrow> str_lines (l @ NL # r) = strip_cr l # str_lines r"
proof -
  assume l: "NL \<notin> set l"
  then have "dropWhile (\<lambda>c. c \<noteq> NL) (l @ NL # r) = NL # r"
    and "takeWhile (\<lambda>c. c \<noteq> NL) (l @ NL # r) = l"
    by (induction l) auto
  then show ?thesis by (subst str_lines.simps) simp
qed

lemma str_lines_NL [simp, text_simps]: "str_lines (NL # r) = [] # str_lines r"
  using str_lines_line [of "[]" r] by (simp add: strip_cr_def)

lemma strip_cr_id [simp]: "CR \<notin> set l \<Longrightarrow> strip_cr l = l"
  by (auto simp: strip_cr_def dest: last_in_set)

lemma set_strip_cr: "set (strip_cr l) \<subseteq> set l"
  by (auto simp: strip_cr_def dest: in_set_butlastD)

lemma split_first_NL:
  fixes s :: string
  obtains (none) "NL \<notin> set s" | (line) l r where "s = l @ NL # r" "NL \<notin> set l" "length r < length s"
proof (cases "NL \<in> set s")
  case True
  then obtain l r where "s = l @ NL # r" "NL \<notin> set l" by (metis split_list_first)
  then show ?thesis using line by simp
qed (rule none)

text \<open>Induction along the lines of a text.\<close>

lemma lines_induct [case_names Empty Last Line]:
  assumes "P []" and "\<And>l. NL \<notin> set l \<Longrightarrow> l \<noteq> [] \<Longrightarrow> P l"
    and "\<And>l r. NL \<notin> set l \<Longrightarrow> P r \<Longrightarrow> P (l @ NL # r)"
  shows "P (s :: string)"
proof (induction s rule: length_induct)
  case (1 s)
  show ?case
  proof (cases s rule: split_first_NL)
    case none
    then show ?thesis using assms(1,2) by (cases "s = []") auto
  next
    case (line l r)
    with 1 have "P r" by simp
    with line assms(3) show ?thesis by simp
  qed
qed

lemma set_str_lines: "l \<in> set (str_lines s) \<Longrightarrow> set l \<subseteq> set s - {NL}"
proof (induction s rule: lines_induct)
  case (Line k r)
  then show ?case using set_strip_cr [of k] by (auto simp: str_lines_line)
qed (auto simp: str_lines_last)

lemma str_lines_no_NL: "l \<in> set (str_lines s) \<Longrightarrow> NL \<notin> set l"
  using set_str_lines by blast

lemma str_lines_no_CR: "CR \<notin> set s \<Longrightarrow> l \<in> set (str_lines s) \<Longrightarrow> CR \<notin> set l"
  using set_str_lines by blast

text \<open>\<open>unlines\<close> terminates every line; it is how the joined texts are analysed.\<close>

definition unlines :: "string list \<Rightarrow> string" where
  "unlines ls = concat (map (\<lambda>l. l @ [NL]) ls)"

lemma unlines_simps [simp]:
  "unlines [] = []" "unlines (l # ls) = l @ NL # unlines ls" "unlines (ls @ ms) = unlines ls @ unlines ms"
  by (simp_all add: unlines_def)

definition plain_line :: "string \<Rightarrow> bool" where
  "plain_line l \<longleftrightarrow> NL \<notin> set l \<and> CR \<notin> set l"

lemma str_lines_unlines [text_simps]:
  "list_all plain_line ls \<Longrightarrow> str_lines (unlines ls @ r) = ls @ str_lines r"
  by (induction ls) (auto simp: str_lines_line plain_line_def)

lemma join_nl_snoc [text_simps]: "join_nl (ls @ [l]) = unlines ls @ l"
  by (induction ls rule: join_nl.induct) simp_all

lemma str_lines_plain: "CR \<notin> set s \<Longrightarrow> list_all plain_line (str_lines s)"
  using str_lines_no_NL str_lines_no_CR by (auto simp: list_all_iff plain_line_def)

text \<open>A joined text has the lines that were joined, but an empty last line is lost.\<close>

lemma str_lines_join_nl:
  assumes "list_all plain_line ls"
  shows "str_lines (join_nl ls) = (if ls \<noteq> [] \<and> last ls = [] then butlast ls else ls)"
proof (cases ls rule: rev_cases)
  case (snoc ks l)
  with assms have "list_all plain_line ks" and l: "NL \<notin> set l" by (auto simp: plain_line_def)
  then have "str_lines (join_nl ls) = ks @ str_lines l"
    by (simp add: snoc join_nl_snoc str_lines_unlines)
  with l snoc show ?thesis by (cases "l = []") (auto simp: str_lines_last)
qed simp

text \<open>Trimming.\<close>

lemma trim_id: "(s \<noteq> [] \<Longrightarrow> \<not> is_ws (hd s) \<and> \<not> is_ws (last s)) \<Longrightarrow> trim s = s"
proof (cases "s = []")
  case False
  assume "s \<noteq> [] \<Longrightarrow> \<not> is_ws (hd s) \<and> \<not> is_ws (last s)"
  with False have "dropWhile is_ws s = s" and "dropWhile is_ws (rev s) = rev s"
    by (auto simp: dropWhile_eq_self_iff hd_rev)
  then show ?thesis by (simp add: trim_def)
qed (simp add: trim_def)

lemma trim_indent [text_simps]: "list_all is_ws w \<Longrightarrow> trim (w @ s) = trim s"
  by (simp add: trim_def list_all_iff)

text \<open>A text that starts and ends with a visible part keeps it when trimmed.\<close>

lemma dropWhile_before: "w \<noteq> [] \<Longrightarrow> \<not> P (hd w) \<Longrightarrow> dropWhile P (v @ w) = dropWhile P v @ w"
  by (induction v) (auto simp: dropWhile_eq_self_iff)

lemma trim_visible:
  assumes "p \<noteq> []" "\<not> is_ws (hd p)" "\<not> is_ws (last p)"
  shows "trim (p @ v) = p @ rev (dropWhile is_ws (rev v))"
proof -
  have "dropWhile is_ws (p @ v) = p @ v" using assms(1,2) by (cases p) auto
  moreover have "dropWhile is_ws (rev v @ rev p) = dropWhile is_ws (rev v) @ rev p"
    using assms(1,3) by (simp add: dropWhile_before hd_rev)
  ultimately show ?thesis by (simp add: trim_def)
qed

lemma prefix_delim [text_simps]:
  "c \<notin> set a \<Longrightarrow> c \<notin> set b \<Longrightarrow> prefix (a @ [c]) (b @ c # r) \<longleftrightarrow> a = b"
proof (induction a arbitrary: b)
  case Nil
  then show ?case by (cases b) auto
next
  case (Cons x a)
  then show ?case by (cases b) auto
qed

lemma contains_iff: "contains pat s \<longleftrightarrow> (\<exists>u v. s = u @ pat @ v)"
proof (induction s)
  case (Cons c cs)
  note IH = Cons.IH
  show ?case
  proof
    assume "contains pat (c # cs)"
    then consider "prefix pat (c # cs)" | "contains pat cs" by auto
    then show "\<exists>u v. c # cs = u @ pat @ v"
    proof cases
      case 1
      then show ?thesis by (metis append_Nil prefix_def)
    next
      case 2
      then obtain u v where "cs = u @ pat @ v" using Cons.IH by blast
      then have "c # cs = (c # u) @ pat @ v" by simp
      then show ?thesis by blast
    qed
  next
    assume "\<exists>u v. c # cs = u @ pat @ v"
    then obtain u v where uv: "c # cs = u @ pat @ v" by blast
    show "contains pat (c # cs)"
    proof (cases u)
      case Nil
      with uv have "prefix pat (c # cs)" by (auto simp: prefix_def)
      then show ?thesis by simp
    next
      case (Cons d us)
      with uv have "cs = us @ pat @ v" by simp
      then show ?thesis using IH by auto
    qed
  qed
qed simp

subsection \<open>Decimal numbers\<close>

text \<open>\<^verbatim>\<open>to_string\<close> and \<^verbatim>\<open>{}\<close> of an unsigned integer.\<close>

definition digit_char :: "nat \<Rightarrow> char" where
  "digit_char n = ''0123456789'' ! n"

fun show_nat :: "nat \<Rightarrow> string" where
  "show_nat n = (if n < 10 then [digit_char n] else show_nat (n div 10) @ [digit_char (n mod 10)])"

declare show_nat.simps [simp del]

definition is_digit :: "char \<Rightarrow> bool" where
  "is_digit c \<longleftrightarrow> 48 \<le> (of_char c :: nat) \<and> (of_char c :: nat) \<le> 57"

definition digit_val :: "char \<Rightarrow> nat" where
  "digit_val c = of_char c - 48"

definition read_digits :: "string \<Rightarrow> nat" where
  "read_digits s = foldl (\<lambda>n c. 10 * n + digit_val c) 0 s"

lemma of_char_digit_char: "n < 10 \<Longrightarrow> (of_char (digit_char n) :: nat) = 48 + n"
proof -
  assume "n < 10"
  then have "n \<in> {0, 1, 2, 3, 4, 5, 6, 7, 8, 9}" by auto
  then show ?thesis by (auto simp: digit_char_def)
qed

lemma is_digit_digit_char [simp]: "n < 10 \<Longrightarrow> is_digit (digit_char n)"
  by (simp add: is_digit_def of_char_digit_char)

lemma digit_val_digit_char [simp]: "n < 10 \<Longrightarrow> digit_val (digit_char n) = n"
  by (simp add: digit_val_def of_char_digit_char)

lemma show_nat_digits: "list_all is_digit (show_nat n)"
proof (induction n rule: show_nat.induct)
  case (1 n)
  then show ?case by (subst show_nat.simps) simp
qed

lemma show_nat_nonempty [simp]: "show_nat n \<noteq> []"
  by (subst show_nat.simps) simp

lemma read_show_nat [simp]: "read_digits (show_nat n) = n"
proof (induction n rule: show_nat.induct)
  case (1 n)
  then show ?case by (subst show_nat.simps) (auto simp: read_digits_def)
qed

lemma show_nat_inj [simp]: "show_nat m = show_nat n \<longleftrightarrow> m = n"
  by (metis read_show_nat)

text \<open>\<^verbatim>\<open>str::parse::<u32>()\<close>: an optional plus sign, digits, no overflow.\<close>

definition parse_u32 :: "string \<Rightarrow> u32 option" where
  "parse_u32 s =
     (let ds = (case s of c # cs \<Rightarrow> if c = CHR ''+'' then cs else s | [] \<Rightarrow> [])
      in if ds \<noteq> [] \<and> list_all is_digit ds \<and> read_digits ds < 2 ^ 32
         then Some (of_nat (read_digits ds)) else None)"

lemma not_digit_plus: "\<not> is_digit (CHR ''+'')"
  by (simp add: is_digit_def)

lemma parse_show_u32 [simp]: "parse_u32 (show_nat (unat w)) = Some w"
proof -
  have "\<not> (\<exists>cs. show_nat (unat w) = CHR ''+'' # cs)"
    using show_nat_digits [of "unat w"] not_digit_plus by auto
  then have "(case show_nat (unat w) of c # cs \<Rightarrow> if c = CHR ''+'' then cs else show_nat (unat w) | [] \<Rightarrow> [])
      = show_nat (unat w)"
    by (auto split: list.splits)
  moreover have "unat w < 2 ^ 32" using unsigned_less [where ?'a = nat, of w] by simp
  ultimately show ?thesis using show_nat_digits [of "unat w"] by (simp add: parse_u32_def Let_def)
qed

end
