(* ===== verification/Stores.thy ===== *)
theory Stores
  imports Prelude "HOL-Library.Multiset"
begin

text \<open>
  The two containers every component of the program keeps its state in, as interfaces:
  a keyed store (a \<^verbatim>\<open>HashMap\<close>, or a database table with a primary key) and a work queue
  (a \<^verbatim>\<open>VecDeque\<close>). The components interpret them on their own operations.

  A hash map is an association list without duplicate keys, in the (unspecified) order in
  which \<^verbatim>\<open>values()\<close> enumerates it; theorems hold for every such list, hence for every order.
\<close>

subsection \<open>Keyed stores\<close>

locale keyed_store =
  fixes find_key :: "'s \<Rightarrow> 'k \<Rightarrow> 'v option"
    and put_key :: "'k \<Rightarrow> 'v \<Rightarrow> 's \<Rightarrow> 's"
    and drop_key :: "'k \<Rightarrow> 's \<Rightarrow> 's"
    and valid :: "'s \<Rightarrow> bool"
  assumes find_put: "valid s \<Longrightarrow> find_key (put_key k v s) j = (if j = k then Some v else find_key s j)"
    and find_drop: "valid s \<Longrightarrow> find_key (drop_key k s) j = (if j = k then None else find_key s j)"
    and valid_put: "valid s \<Longrightarrow> valid (put_key k v s)"
    and valid_drop: "valid s \<Longrightarrow> valid (drop_key k s)"
begin

lemma put_put: "valid s \<Longrightarrow> find_key (put_key k v (put_key k w s)) = find_key (put_key k v s)"
  by (rule ext) (simp add: find_put valid_put)

lemma put_commute:
  "valid s \<Longrightarrow> j \<noteq> k \<Longrightarrow> find_key (put_key j v (put_key k w s)) = find_key (put_key k w (put_key j v s))"
  by (rule ext) (simp add: find_put valid_put)

lemma drop_put: "valid s \<Longrightarrow> find_key s k = None \<Longrightarrow> find_key (drop_key k (put_key k v s)) = find_key s"
  by (rule ext) (simp add: find_put find_drop valid_put)

lemma valid_fold_drop: "valid s \<Longrightarrow> valid (fold drop_key ks s)"
  by (induction ks arbitrary: s) (simp_all add: valid_drop)

lemma find_fold_drop:
  "valid s \<Longrightarrow> find_key (fold drop_key ks s) j = (if j \<in> set ks then None else find_key s j)"
  by (induction ks arbitrary: s) (simp_all add: find_drop valid_drop)

end

text \<open>\<^verbatim>\<open>HashMap\<close>: \<^verbatim>\<open>get\<close>, \<^verbatim>\<open>insert\<close>, \<^verbatim>\<open>remove\<close>, \<^verbatim>\<open>values\<close>.\<close>

type_synonym ('k, 'v) hash_map = "('k \<times> 'v) list"

definition hm_valid :: "('k, 'v) hash_map \<Rightarrow> bool" where
  "hm_valid m \<longleftrightarrow> distinct (map fst m)"

definition hm_get :: "('k, 'v) hash_map \<Rightarrow> 'k \<Rightarrow> 'v option" where
  "hm_get m k = map_of m k"

definition hm_insert :: "'k \<Rightarrow> 'v \<Rightarrow> ('k, 'v) hash_map \<Rightarrow> ('k, 'v) hash_map" where
  "hm_insert k v m = AList.update k v m"

definition hm_remove :: "'k \<Rightarrow> ('k, 'v) hash_map \<Rightarrow> ('k, 'v) hash_map" where
  "hm_remove k m = AList.delete k m"

definition hm_values :: "('k, 'v) hash_map \<Rightarrow> 'v list" where
  "hm_values m = map snd m"

interpretation hm: keyed_store hm_get hm_insert hm_remove hm_valid
  by unfold_locales
    (auto simp: hm_get_def hm_insert_def hm_remove_def hm_valid_def update_conv' delete_conv'
      distinct_update distinct_delete)

lemmas hm_store [store_simps] = hm.find_put hm.find_drop hm.valid_put hm.valid_drop

lemma hm_valid_Nil [simp]: "hm_valid []"
  by (simp add: hm_valid_def)

lemma hm_get_Nil [simp]: "hm_get [] k = None"
  by (simp add: hm_get_def)

lemma hm_get_in: "hm_get m k = Some v \<Longrightarrow> (k, v) \<in> set m"
  by (simp add: hm_get_def map_of_SomeD)

lemma hm_in_get: "hm_valid m \<Longrightarrow> (k, v) \<in> set m \<longleftrightarrow> hm_get m k = Some v"
  by (simp add: hm_get_def hm_valid_def)

lemma hm_values_iff: "hm_valid m \<Longrightarrow> v \<in> set (hm_values m) \<longleftrightarrow> (\<exists>k. hm_get m k = Some v)"
  by (force simp: hm_values_def hm_in_get [symmetric])

text \<open>Contents as multisets: what an insertion or a removal adds and takes away.\<close>

lemma hm_insert_new: "hm_get m k = None \<Longrightarrow> hm_insert k v m = m @ [(k, v)]"
  by (induction m) (auto simp: hm_get_def hm_insert_def split: if_splits)

lemma mset_hm_insert:
  assumes "hm_valid m"
  shows "mset (hm_insert k v m) + (case hm_get m k of None \<Rightarrow> {#} | Some w \<Rightarrow> {#(k, w)#})
    = mset m + {#(k, v)#}"
  using assms
proof (induction m)
  case (Cons p m)
  then show ?case
    by (cases p) (auto simp: hm_get_def hm_insert_def hm_valid_def split: option.splits)
qed (simp add: hm_get_def hm_insert_def)

lemma hm_remove_absent: "hm_get m k = None \<Longrightarrow> hm_remove k m = m"
  by (simp add: hm_get_def hm_remove_def map_of_eq_None_iff)

lemma mset_hm_remove:
  assumes "hm_valid m"
  shows "mset (hm_remove k m) + (case hm_get m k of None \<Rightarrow> {#} | Some w \<Rightarrow> {#(k, w)#}) = mset m"
  using assms
proof (induction m)
  case (Cons p m)
  obtain a b where p: "p = (a, b)" by (cases p)
  show ?case
  proof (cases "a = k")
    case True
    with Cons.prems p have "AList.delete k m = m" by (auto simp: hm_valid_def)
    with True p show ?thesis by (simp add: hm_remove_def hm_get_def)
  next
    case False
    with Cons p show ?thesis by (auto simp: hm_remove_def hm_get_def hm_valid_def)
  qed
qed (simp add: hm_get_def hm_remove_def)

lemma length_hm_remove:
  "hm_valid m \<Longrightarrow> hm_get m k = Some v \<Longrightarrow> length m = Suc (length (hm_remove k m))"
proof -
  assume "hm_valid m" "hm_get m k = Some v"
  then have "mset m = mset (hm_remove k m) + {#(k, v)#}" using mset_hm_remove [of m k] by simp
  then have "size (mset m) = size (mset (hm_remove k m) + {#(k, v)#})" by simp
  then show ?thesis by simp
qed

subsection \<open>Work queues\<close>

locale work_queue =
  fixes contents :: "'q \<Rightarrow> 'a list"
    and enqueue :: "'a \<Rightarrow> 'q \<Rightarrow> 'q"
    and requeue :: "'a \<Rightarrow> 'q \<Rightarrow> 'q"
    and dequeue :: "'q \<Rightarrow> 'a option \<times> 'q"
  assumes contents_enqueue: "contents (enqueue x q) = contents q @ [x]"
    and contents_requeue: "contents (requeue x q) = x # contents q"
    and dequeue_none: "contents q = [] \<Longrightarrow> dequeue q = (None, q)"
    and dequeue_some: "contents q = x # xs \<Longrightarrow> fst (dequeue q) = Some x \<and> contents (snd (dequeue q)) = xs"
begin

text \<open>Putting a job back after a failed attempt restores the queue.\<close>

lemma requeue_dequeue: "dequeue q = (Some x, q') \<Longrightarrow> contents (requeue x q') = contents q"
  using dequeue_none [of q] dequeue_some [of q] by (cases "contents q") (auto simp: contents_requeue)

lemma dequeue_mset:
  "dequeue q = (r, q') \<Longrightarrow> mset (contents q) = (case r of None \<Rightarrow> {#} | Some x \<Rightarrow> {#x#}) + mset (contents q')"
  using dequeue_none [of q] dequeue_some [of q] by (cases "contents q") auto

lemma contents_enqueue_all: "contents (fold enqueue xs q) = contents q @ xs"
  by (induction xs arbitrary: q) (simp_all add: contents_enqueue)

text \<open>First in, first out: what was queued last waits for everything queued before.\<close>

lemma dequeue_fifo: "contents q = [] \<Longrightarrow> fst (dequeue (fold enqueue (x # xs) q)) = Some x"
  using dequeue_some contents_enqueue_all [of "x # xs" q] by simp

end

text \<open>\<^verbatim>\<open>VecDeque\<close>: \<^verbatim>\<open>push_back\<close>, \<^verbatim>\<open>push_front\<close>, \<^verbatim>\<open>pop_front\<close>.\<close>

type_synonym 'a vec_deque = "'a list"

definition push_back :: "'a \<Rightarrow> 'a vec_deque \<Rightarrow> 'a vec_deque" where
  "push_back x q = q @ [x]"

definition push_front :: "'a \<Rightarrow> 'a vec_deque \<Rightarrow> 'a vec_deque" where
  "push_front x q = x # q"

fun pop_front :: "'a vec_deque \<Rightarrow> 'a option \<times> 'a vec_deque" where
  "pop_front [] = (None, [])"
| "pop_front (x # q) = (Some x, q)"

interpretation dq: work_queue "\<lambda>q. q" push_back push_front pop_front
  by unfold_locales (simp_all add: push_back_def push_front_def)

end
