(* ===== verification/Proto.thy ===== *)
theory Proto
  imports Stores
begin

unbundle bit_operations_syntax

text \<open>
  The wire protocol of the tunnel: \<^verbatim>\<open>tunnel/proto.rs\<close>, which the volunteer's
  \<^verbatim>\<open>shard-node/container/proto.rs\<close> repeats line by line, and the 4-byte handshake of
  \<^verbatim>\<open>run_session\<close> (server) and \<^verbatim>\<open>main\<close> (client). A byte array \<^verbatim>\<open>[u8; N]\<close> is a tuple, a byte
  stream a list of bytes. \<open>fixed_codec\<close> is the contract of a fixed-width code; the frames,
  the stream ids of data connections and the handshake interpret it.
\<close>

subsection \<open>The protocol's constants and frames\<close>

definition TAG_PING :: u8 where "TAG_PING = 0x01"
definition TAG_PONG :: u8 where "TAG_PONG = 0x02"
definition TAG_OPEN :: u8 where "TAG_OPEN = 0x03"
definition TAG_CLOSE :: u8 where "TAG_CLOSE = 0x04"
definition TAG_DATA_PORT :: u8 where "TAG_DATA_PORT = 0x05"

definition FRAME_LEN :: nat where "FRAME_LEN = 3"

lemmas tag_defs = TAG_PING_def TAG_PONG_def TAG_OPEN_def TAG_CLOSE_def TAG_DATA_PORT_def

text \<open>\<^verbatim>\<open>u16::to_be_bytes\<close> and \<^verbatim>\<open>u16::from_be_bytes\<close>.\<close>

definition to_be_bytes :: "u16 \<Rightarrow> u8 \<times> u8" where
  "to_be_bytes w = (ucast (drop_bit 8 w), ucast w)"

definition from_be_bytes :: "u8 \<times> u8 \<Rightarrow> u16" where
  "from_be_bytes p = (case p of (hi, lo) \<Rightarrow> push_bit 8 (ucast hi) OR ucast lo)"

definition encode :: "u8 \<Rightarrow> u16 \<Rightarrow> u8 \<times> u8 \<times> u8" where
  "encode tag stream_id = (case to_be_bytes stream_id of (hi, lo) \<Rightarrow> (tag, hi, lo))"

definition decode :: "u8 \<times> u8 \<times> u8 \<Rightarrow> u8 \<times> u16" where
  "decode buf = (case buf of (b0, b1, b2) \<Rightarrow> (b0, from_be_bytes (b1, b2)))"

lemma byte_bits [simp]: "\<not> bit (b :: u8) (8 + n)"
  using bit_imp_le_length [of b "8 + n"] by auto

lemma from_to_be_bytes [simp]: "from_be_bytes (to_be_bytes w) = w"
  by (rule bit_word_eqI)
    (auto simp: from_be_bytes_def to_be_bytes_def bit_or_iff bit_push_bit_iff bit_ucast_iff bit_drop_bit_eq)

lemma to_from_be_bytes [simp]: "to_be_bytes (from_be_bytes p) = p"
  by (cases p)
    (auto simp: from_be_bytes_def to_be_bytes_def bit_or_iff bit_push_bit_iff bit_ucast_iff
      bit_drop_bit_eq intro!: bit_word_eqI)

lemma decode_encode [simp]: "decode (encode tag stream_id) = (tag, stream_id)"
  by (simp add: decode_def encode_def split: prod.splits)

lemma encode_decode: "encode (fst (decode buf)) (snd (decode buf)) = buf"
  by (cases buf) (simp add: decode_def encode_def)

subsection \<open>Reading fixed-width messages from a byte stream\<close>

text \<open>
  \<^verbatim>\<open>read_exact\<close> on a connection whose remaining bytes are \<open>s\<close>: either the whole buffer is
  filled, or the stream ended before and the call fails.
\<close>

definition read_exact :: "nat \<Rightarrow> u8 list \<Rightarrow> (u8 list \<times> u8 list) option" where
  "read_exact n s = (if n \<le> length s then Some (take n s, drop n s) else None)"

text \<open>The loop \<^verbatim>\<open>loop { read_exact(&mut buf)?; ... decode(&buf) ... }\<close> of both readers.\<close>

function read_all :: "nat \<Rightarrow> (u8 list \<Rightarrow> 'a) \<Rightarrow> u8 list \<Rightarrow> 'a list" where
  "read_all n dec s =
     (if n = 0 then []
      else case read_exact n s of None \<Rightarrow> [] | Some (buf, r) \<Rightarrow> dec buf # read_all n dec r)"
  by pat_completeness auto
termination
  by (relation "measure (\<lambda>(n, dec, s). length s)") (auto simp: read_exact_def split: if_splits)

declare read_all.simps [simp del]

locale fixed_codec =
  fixes width :: nat and enc :: "'a \<Rightarrow> u8 list" and dec :: "u8 list \<Rightarrow> 'a"
  assumes width_pos: "0 < width"
    and length_enc: "length (enc x) = width"
    and dec_enc: "dec (enc x) = x"
begin

lemma enc_inj: "enc x = enc y \<longleftrightarrow> x = y"
  by (metis dec_enc)

lemma read_one: "read_exact width (enc x @ s) = Some (enc x, s)"
  by (simp add: read_exact_def length_enc)

lemma read_short: "length s < width \<Longrightarrow> read_all width dec s = []"
  by (simp add: read_all.simps [of width dec s] read_exact_def)

lemma read_Cons: "read_all width dec (enc x @ s) = x # read_all width dec s"
  using width_pos by (simp add: read_all.simps [of width dec "enc x @ s"] read_one dec_enc)

text \<open>What was written message by message is read back message by message.\<close>

lemma read_written: "read_all width dec (concat (map enc xs) @ s) = xs @ read_all width dec s"
  by (induction xs) (simp_all add: read_Cons)

lemma length_written: "length (concat (map enc xs)) = width * length xs"
  by (induction xs) (simp_all add: length_enc)

text \<open>A stream cut at any byte yields exactly the messages that arrived whole.\<close>

lemma read_cut: "read_all width dec (take k (concat (map enc xs))) = take (k div width) xs"
proof (induction xs arbitrary: k)
  case Nil
  then show ?case using width_pos by (simp add: read_short)
next
  case (Cons x xs)
  show ?case
  proof (cases "k < width")
    case True
    then show ?thesis using length_enc [of x] by (simp add: read_short)
  next
    case False
    then have "take k (concat (map enc (x # xs))) = enc x @ take (k - width) (concat (map enc xs))"
      by (simp add: length_enc)
    moreover have "k div width = Suc ((k - width) div width)"
      using False width_pos by (simp add: div_if)
    ultimately show ?thesis using Cons.IH [of "k - width"] by (simp only: read_Cons take_Suc_Cons)
  qed
qed

end

text \<open>Frames on the control connection, as bytes.\<close>

definition frame_bytes :: "u8 \<times> u16 \<Rightarrow> u8 list" where
  "frame_bytes f = (case encode (fst f) (snd f) of (b0, b1, b2) \<Rightarrow> [b0, b1, b2])"

definition bytes_frame :: "u8 list \<Rightarrow> u8 \<times> u16" where
  "bytes_frame bs = decode (bs ! 0, bs ! 1, bs ! 2)"

text \<open>The two bytes that open a data connection (\<^verbatim>\<open>stream_id.to_be_bytes()\<close>).\<close>

definition id_bytes :: "u16 \<Rightarrow> u8 list" where
  "id_bytes w = (case to_be_bytes w of (hi, lo) \<Rightarrow> [hi, lo])"

definition bytes_id :: "u8 list \<Rightarrow> u16" where
  "bytes_id bs = from_be_bytes (bs ! 0, bs ! 1)"

text \<open>
  The handshake: the server writes
  \<^verbatim>\<open>[(p >> 8) as u8, (p & 0xff) as u8, (d >> 8) as u8, (d & 0xff) as u8]\<close>,
  the client reads two big-endian integers.
\<close>

definition handshake :: "u16 \<times> u16 \<Rightarrow> u8 list" where
  "handshake p = (case p of (public_port, data_port) \<Rightarrow>
     [ucast (drop_bit 8 public_port), ucast (public_port AND 0xff),
      ucast (drop_bit 8 data_port), ucast (data_port AND 0xff)])"

definition read_handshake :: "u8 list \<Rightarrow> u16 \<times> u16" where
  "read_handshake buf = (from_be_bytes (buf ! 0, buf ! 1), from_be_bytes (buf ! 2, buf ! 3))"

lemma ucast_low_byte: "(ucast (w AND 0xff :: u16) :: u8) = ucast w"
proof (rule bit_word_eqI)
  fix n assume "n < LENGTH(8)"
  moreover have "bit (0xff :: u16) n \<longleftrightarrow> n < 8"
    using bit_mask_iff [where ?'a = u16, of 8 n] by (auto simp: mask_eq_exp_minus_1 possible_bit_def)
  ultimately show "bit (ucast (w AND 0xff :: u16) :: u8) n \<longleftrightarrow> bit (ucast w :: u8) n"
    by (simp add: bit_ucast_iff bit_and_iff)
qed

lemma handshake_alt: "handshake (p, d) = id_bytes p @ id_bytes d"
  by (simp add: handshake_def id_bytes_def to_be_bytes_def ucast_low_byte)

lemma id_bytes_nth [simp]:
  "id_bytes w ! 0 = fst (to_be_bytes w)" "id_bytes w ! Suc 0 = snd (to_be_bytes w)"
  "length (id_bytes w) = 2"
  by (simp_all add: id_bytes_def split: prod.splits)

interpretation frame: fixed_codec FRAME_LEN frame_bytes bytes_frame
proof unfold_locales
  fix f :: "u8 \<times> u16"
  obtain b0 b1 b2 where e: "encode (fst f) (snd f) = (b0, b1, b2)" by (metis prod_cases3)
  then show "length (frame_bytes f) = FRAME_LEN" by (simp add: frame_bytes_def FRAME_LEN_def)
  from e have "bytes_frame (frame_bytes f) = decode (encode (fst f) (snd f))"
    by (simp add: frame_bytes_def bytes_frame_def)
  then show "bytes_frame (frame_bytes f) = f" by simp
qed (simp add: FRAME_LEN_def)

interpretation stream_id: fixed_codec 2 id_bytes bytes_id
  by unfold_locales (simp_all add: bytes_id_def)

interpretation ports: fixed_codec 4 handshake read_handshake
proof unfold_locales
  fix p :: "u16 \<times> u16"
  show "length (handshake p) = 4" by (simp add: handshake_def split: prod.splits)
  have "read_handshake (id_bytes a @ id_bytes b) = (a, b)" for a b
    by (simp add: read_handshake_def nth_append eval_nat_numeral)
  then show "read_handshake (handshake p) = p" by (cases p) (simp add: handshake_alt)
qed simp

end
