(* ===== verification/Port_Pool.thy ===== *)
theory Port_Pool
  imports Proto
begin

text \<open>
  The tunnel server's port pool (\<^verbatim>\<open>allocate_port\<close>, \<^verbatim>\<open>release_port\<close> in
  \<^verbatim>\<open>tunnel/server.rs\<close>) and the life cycle of a session as far as ports are concerned: what
  \<^verbatim>\<open>run_session\<close> takes from the pool, and what each of its exits gives back.

  A \<open>net\<close> holds the shared set of used ports, the ports on which this process has an open
  \<^verbatim>\<open>TcpListener\<close>, and the ports the operating system refuses for other reasons. Dropping a
  listener (the end of its owner's scope) closes it.
\<close>

subsection \<open>Resource pools\<close>

text \<open>
  The contract of a pool: \<open>pool s\<close> are the resources it manages, \<open>avail s\<close> those it can hand
  out.
\<close>

locale resource_pool =
  fixes alloc :: "'s \<Rightarrow> 'r option \<times> 's" and free :: "'r \<Rightarrow> 's \<Rightarrow> 's"
    and avail :: "'s \<Rightarrow> 'r set" and pool :: "'s \<Rightarrow> 'r set"
  assumes alloc_some: "alloc s = (Some r, s') \<Longrightarrow> r \<in> avail s \<and> avail s' = avail s - {r}"
    and alloc_none: "alloc s = (None, s') \<Longrightarrow> avail s = {} \<and> s' = s"
    and pool_alloc: "pool (snd (alloc s)) = pool s"
    and avail_free: "r \<in> pool s \<Longrightarrow> avail (free r s) = insert r (avail s)"
    and avail_pool: "avail s \<subseteq> pool s"
    and finite_pool: "finite (pool s)"
begin

lemma finite_avail: "finite (avail s)"
  using avail_pool finite_pool by (rule finite_subset)

lemma alloc_ok: "avail s \<noteq> {} \<Longrightarrow> \<exists>r s'. alloc s = (Some r, s')"
  using alloc_none by (metis not_Some_eq surj_pair)

lemma alloc_iff: "(\<exists>r s'. alloc s = (Some r, s')) \<longleftrightarrow> avail s \<noteq> {}"
  using alloc_ok alloc_some by blast

lemma card_alloc: "alloc s = (Some r, s') \<Longrightarrow> card (avail s) = Suc (card (avail s'))"
  using alloc_some [of s r s'] card_Suc_Diff1 [OF finite_avail [of s], of r] by simp

text \<open>Two resources held at the same time are different, and both can be had iff two are available.\<close>

lemma alloc_distinct: "alloc s = (Some r, s') \<Longrightarrow> alloc s' = (Some q, s'') \<Longrightarrow> q \<noteq> r"
  using alloc_some [of s r s'] alloc_some [of s' q s''] by simp

lemma avail_card: "0 < card (avail s) \<longleftrightarrow> (\<exists>r s'. alloc s = (Some r, s'))"
  using finite_avail [of s] by (simp add: alloc_iff card_gt_0_iff)

lemma alloc_two_iff:
  "(\<exists>r s' q s''. alloc s = (Some r, s') \<and> alloc s' = (Some q, s'')) \<longleftrightarrow> 2 \<le> card (avail s)"
proof
  assume "\<exists>r s' q s''. alloc s = (Some r, s') \<and> alloc s' = (Some q, s'')"
  then obtain r s' q s'' where "alloc s = (Some r, s')" "alloc s' = (Some q, s'')" by blast
  then show "2 \<le> card (avail s)" using card_alloc [of s r s'] card_alloc [of s' q s''] by simp
next
  assume two: "2 \<le> card (avail s)"
  then have "0 < card (avail s)" by simp
  then obtain r s' where 1: "alloc s = (Some r, s')" unfolding avail_card by blast
  with two have "0 < card (avail s')" using card_alloc [OF 1] by simp
  then obtain q s'' where "alloc s' = (Some q, s'')" unfolding avail_card by blast
  with 1 show "\<exists>r s' q s''. alloc s = (Some r, s') \<and> alloc s' = (Some q, s'')" by blast
qed

text \<open>Giving a resource back undoes its allocation.\<close>

lemma avail_free_alloc: "alloc s = (Some r, s') \<Longrightarrow> avail (free r s') = avail s"
proof -
  assume a: "alloc s = (Some r, s')"
  from alloc_some [OF a] have r: "r \<in> avail s" and s': "avail s' = avail s - {r}" by auto
  have "pool s' = pool s" using pool_alloc [of s] a by simp
  with r have "r \<in> pool s'" using avail_pool [of s] by auto
  then show ?thesis using avail_free [of r s'] s' r by auto
qed

end

subsection \<open>Allocation\<close>

definition PORT_RANGE_START :: u16 where "PORT_RANGE_START = 30000"
definition PORT_RANGE_END :: u16 where "PORT_RANGE_END = 31000"

record net =
  used_ports :: "u16 set"
  listening :: "u16 set"
  refused :: "u16 set"

text \<open>\<^verbatim>\<open>PORT_RANGE_START..=PORT_RANGE_END\<close>.\<close>

definition port_range :: "u16 list" where
  "port_range = range_u16 PORT_RANGE_START PORT_RANGE_END"

text \<open>\<^verbatim>\<open>TcpListener::bind\<close> succeeds on a port nobody listens on.\<close>

definition tcp_bind :: "u16 \<Rightarrow> net \<Rightarrow> net option" where
  "tcp_bind port n =
     (if port \<in> listening n \<or> port \<in> refused n then None
      else Some (n\<lparr>listening := insert port (listening n)\<rparr>))"

text \<open>The loop of \<^verbatim>\<open>allocate_port\<close>, over the ports still to be tried.\<close>

fun allocate_from :: "u16 list \<Rightarrow> net \<Rightarrow> u16 option \<times> net" where
  "allocate_from [] n = (None, n)"
| "allocate_from (port # ports) n =
     (if port \<in> used_ports n then allocate_from ports n
      else case tcp_bind port n of
             Some n' \<Rightarrow> (Some port, n'\<lparr>used_ports := insert port (used_ports n')\<rparr>)
           | None \<Rightarrow> allocate_from ports n)"

definition allocate_port :: "net \<Rightarrow> u16 option \<times> net" where
  "allocate_port n = allocate_from port_range n"

definition release_port :: "u16 \<Rightarrow> net \<Rightarrow> net" where
  "release_port port n = n\<lparr>used_ports := used_ports n - {port}\<rparr>"

definition drop_listener :: "u16 \<Rightarrow> net \<Rightarrow> net" where
  "drop_listener port n = n\<lparr>listening := listening n - {port}\<rparr>"

text \<open>Releasing a port and dropping its listener: what makes it available again.\<close>

definition give_back :: "u16 \<Rightarrow> net \<Rightarrow> net" where
  "give_back port n = drop_listener port (release_port port n)"

definition available :: "net \<Rightarrow> u16 set" where
  "available n = set port_range - used_ports n - listening n - refused n"

definition manageable :: "net \<Rightarrow> u16 set" where
  "manageable n = set port_range - refused n"

lemmas net_ops = release_port_def drop_listener_def give_back_def available_def manageable_def

lemma allocate_from_some:
  "allocate_from ports n = (Some p, n') \<Longrightarrow>
     p \<in> set ports - used_ports n - listening n - refused n \<and>
     n' = n\<lparr>used_ports := insert p (used_ports n), listening := insert p (listening n)\<rparr>"
  by (induction ports) (auto simp: tcp_bind_def split: if_splits)

lemma allocate_from_none:
  "allocate_from ports n = (None, n') \<Longrightarrow> set ports - used_ports n - listening n - refused n = {} \<and> n' = n"
  by (induction ports) (auto simp: tcp_bind_def split: if_splits)

lemma allocate_port_some:
  "allocate_port n = (Some p, n') \<Longrightarrow>
     p \<in> available n \<and>
     n' = n\<lparr>used_ports := insert p (used_ports n), listening := insert p (listening n)\<rparr>"
  unfolding allocate_port_def available_def by (rule allocate_from_some)

lemma allocate_port_none: "allocate_port n = (None, n') \<Longrightarrow> available n = {} \<and> n' = n"
  unfolding allocate_port_def available_def by (rule allocate_from_none)

lemma finite_port_range [simp]: "finite (set port_range)"
  by simp

interpretation ports_pool: resource_pool allocate_port give_back available manageable
proof unfold_locales
  fix n n' p
  assume "allocate_port n = (Some p, n')"
  from allocate_port_some [OF this] show "p \<in> available n \<and> available n' = available n - {p}"
    by (auto simp: available_def)
next
  fix n n'
  assume "allocate_port n = (None, n')"
  then show "available n = {} \<and> n' = n" by (rule allocate_port_none)
next
  fix n
  show "manageable (snd (allocate_port n)) = manageable n"
  proof (cases "fst (allocate_port n)")
    case None
    then show ?thesis using allocate_port_none [of n] by (metis prod.collapse)
  next
    case (Some p)
    then have "allocate_port n = (Some p, snd (allocate_port n))" by (metis prod.collapse)
    from allocate_port_some [OF this] show ?thesis by (auto simp: manageable_def)
  qed
qed (auto simp: net_ops)

lemma card_port_range: "card (set port_range) = 1001"
  by (simp add: port_range_def card_range_u16 PORT_RANGE_START_def PORT_RANGE_END_def)

lemma port_range_bounds: "p \<in> set port_range \<Longrightarrow> 30000 \<le> unat p \<and> unat p \<le> 31000"
  using unat_range_u16 [of PORT_RANGE_START PORT_RANGE_END]
  by (force simp: port_range_def PORT_RANGE_START_def PORT_RANGE_END_def)

subsection \<open>Sessions\<close>

text \<open>
  \<^verbatim>\<open>run_session\<close> up to the start of its threads. \<open>write_ok\<close> and \<open>clone_ok\<close> say whether
  writing the handshake and cloning the control connection succeed; a started session comes
  with the bytes of its handshake. An early return drops the listeners bound so far.
\<close>

datatype start_result =
  No_public_port | No_data_port | Handshake_failed | Clone_failed | Started u16 u16 "u8 list"

definition abort_public :: "u16 \<Rightarrow> net \<Rightarrow> net" where
  "abort_public public_port n = drop_listener public_port (release_port public_port n)"

definition abort_both :: "u16 \<Rightarrow> u16 \<Rightarrow> net \<Rightarrow> net" where
  "abort_both public_port data_port n =
     drop_listener public_port (drop_listener data_port (release_port data_port (release_port public_port n)))"

definition session_start :: "bool \<Rightarrow> bool \<Rightarrow> net \<Rightarrow> start_result \<times> net" where
  "session_start write_ok clone_ok n =
     (case allocate_port n of
        (None, n1) \<Rightarrow> (No_public_port, n1)
      | (Some public_port, n1) \<Rightarrow>
          (case allocate_port n1 of
             (None, n2) \<Rightarrow> (No_data_port, abort_public public_port n2)
           | (Some data_port, n2) \<Rightarrow>
               let bytes = handshake (public_port, data_port)
               in if \<not> write_ok then (Handshake_failed, abort_both public_port data_port n2)
                  else if \<not> clone_ok then (Clone_failed, abort_both public_port data_port n2)
                  else (Started public_port data_port bytes, n2)))"

lemmas abort_defs = abort_public_def abort_both_def release_port_def drop_listener_def

text \<open>
  The end of \<^verbatim>\<open>run_session\<close>: \<^verbatim>\<open>public_acceptor\<close> has returned, which drops the public
  listener it owned, and both ports leave the used set. The data listener is owned by the
  thread of \<^verbatim>\<open>data_acceptor\<close>, whose loop over \<^verbatim>\<open>listener.incoming()\<close> never ends, so it
  stays open.
\<close>

definition session_end :: "u16 \<Rightarrow> u16 \<Rightarrow> net \<Rightarrow> net" where
  "session_end public_port data_port n =
     release_port data_port (release_port public_port (drop_listener public_port n))"

text \<open>
  The server: one thread per agent runs \<^verbatim>\<open>run_session\<close>, and the threads interleave between
  the two allocations, the handshake and the session proper. \<open>half_open\<close> are the threads that
  hold a public port, \<open>opened\<close> those that hold both ports but have not started, \<open>sessions\<close>
  those that run.
\<close>

record server =
  net :: net
  half_open :: "u16 list"
  opened :: "(u16 \<times> u16) list"
  sessions :: "(u16 \<times> u16) list"

inductive server_step :: "server \<Rightarrow> server \<Rightarrow> bool" where
  no_public: "allocate_port (net s) = (None, n') \<Longrightarrow> server_step s (s\<lparr>net := n'\<rparr>)"
| public_taken: "allocate_port (net s) = (Some p, n') \<Longrightarrow>
     server_step s (s\<lparr>net := n', half_open := p # half_open s\<rparr>)"
| no_data: "p \<in> set (half_open s) \<Longrightarrow> allocate_port (net s) = (None, n') \<Longrightarrow>
     server_step s (s\<lparr>net := abort_public p n', half_open := remove1 p (half_open s)\<rparr>)"
| data_taken: "p \<in> set (half_open s) \<Longrightarrow> allocate_port (net s) = (Some d, n') \<Longrightarrow>
     server_step s (s\<lparr>net := n', half_open := remove1 p (half_open s), opened := (p, d) # opened s\<rparr>)"
| start_failed: "(p, d) \<in> set (opened s) \<Longrightarrow>
     server_step s (s\<lparr>net := abort_both p d (net s), opened := remove1 (p, d) (opened s)\<rparr>)"
| started: "(p, d) \<in> set (opened s) \<Longrightarrow>
     server_step s (s\<lparr>opened := remove1 (p, d) (opened s), sessions := (p, d) # sessions s\<rparr>)"
| agent_gone: "(p, d) \<in> set (sessions s) \<Longrightarrow>
     server_step s (s\<lparr>net := session_end p d (net s), sessions := remove1 (p, d) (sessions s)\<rparr>)"

definition server_boot :: "u16 set \<Rightarrow> server" where
  "server_boot refs = \<lparr>net = \<lparr>used_ports = {}, listening = {}, refused = refs\<rparr>,
     half_open = [], opened = [], sessions = []\<rparr>"

inductive server_reachable :: "u16 set \<Rightarrow> server \<Rightarrow> bool" for refs :: "u16 set" where
  boot: "server_reachable refs (server_boot refs)"
| step: "server_reachable refs s \<Longrightarrow> server_step s t \<Longrightarrow> server_reachable refs t"

fun session_ports :: "(u16 \<times> u16) list \<Rightarrow> u16 list" where
  "session_ports [] = []"
| "session_ports ((p, d) # ss) = p # d # session_ports ss"

text \<open>All ports that some thread holds.\<close>

definition held_ports :: "server \<Rightarrow> u16 list" where
  "held_ports s = half_open s @ session_ports (opened s) @ session_ports (sessions s)"

text \<open>
  What a started session holds, and that every failing exit leaves the pool as it was.
\<close>

lemma session_start_started:
  assumes "session_start w c n = (Started p d bs, n')"
  shows "p \<noteq> d" "p \<in> available n" "d \<in> available n" "bs = handshake (p, d)"
    "n' = n\<lparr>used_ports := {p, d} \<union> used_ports n, listening := {p, d} \<union> listening n\<rparr>"
proof -
  from assms obtain n1 where 1: "allocate_port n = (Some p, n1)" and 2: "allocate_port n1 = (Some d, n')"
    and bs: "bs = handshake (p, d)"
    by (auto simp: session_start_def Let_def split: prod.splits option.splits if_splits)
  note p = allocate_port_some [OF 1] and d = allocate_port_some [OF 2]
  show "p \<noteq> d" using ports_pool.alloc_distinct [OF 1 2] by simp
  show "p \<in> available n" "d \<in> available n" using p d by (auto simp: available_def)
  show "bs = handshake (p, d)" by (rule bs)
  show "n' = n\<lparr>used_ports := {p, d} \<union> used_ports n, listening := {p, d} \<union> listening n\<rparr>"
    using p d by (auto simp: insert_commute)
qed

lemma session_start_failed:
  assumes "session_start w c n = (r, n')" "\<And>p d bs. r \<noteq> Started p d bs"
  shows "n' = n"
  using assms
  by (auto simp: session_start_def Let_def abort_defs available_def insert_remove_two
      split: prod.splits option.splits if_splits dest!: allocate_port_some allocate_port_none)

subsection \<open>The invariant of the pool\<close>

definition server_inv :: "u16 set \<Rightarrow> server \<Rightarrow> bool" where
  "server_inv refs s \<longleftrightarrow>
     distinct (held_ports s) \<and>
     used_ports (net s) = set (held_ports s) \<and>
     used_ports (net s) \<subseteq> listening (net s) \<and>
     listening (net s) \<subseteq> set port_range - refs \<and>
     refused (net s) = refs"

lemma session_ports_mem: "(p, d) \<in> set ss \<Longrightarrow> p \<in> set (session_ports ss) \<and> d \<in> set (session_ports ss)"
  by (induction ss rule: session_ports.induct) auto

lemma session_ports_remove1:
  "(p, d) \<in> set ss \<Longrightarrow> distinct (session_ports ss) \<Longrightarrow>
     distinct (session_ports (remove1 (p, d) ss)) \<and>
     set (session_ports (remove1 (p, d) ss)) = set (session_ports ss) - {p, d} \<and> p \<noteq> d"
  by (induction ss rule: session_ports.induct) (auto dest: session_ports_mem)

lemmas server_inv_simps = server_inv_def held_ports_def session_end_def abort_defs

lemma server_step_inv: "server_step s t \<Longrightarrow> server_inv refs s \<Longrightarrow> server_inv refs t"
proof (induction rule: server_step.induct)
  case (no_public s n')
  then show ?case by (auto simp: server_inv_simps dest!: allocate_port_none)
next
  case (public_taken s p n')
  then show ?case by (auto simp: server_inv_simps available_def dest!: allocate_port_some)
next
  case (no_data p s n')
  then show ?case by (auto simp: server_inv_simps dest!: allocate_port_none)
next
  case (data_taken p s d n')
  then show ?case by (auto simp: server_inv_simps available_def dest!: allocate_port_some)
next
  case (start_failed p d s)
  then show ?case using session_ports_remove1 [OF start_failed(1)] session_ports_mem [OF start_failed(1)]
    by (auto simp: server_inv_simps)
next
  case (started p d s)
  then show ?case using session_ports_remove1 [OF started(1)] session_ports_mem [OF started(1)]
    by (auto simp: server_inv_simps)
next
  case (agent_gone p d s)
  then show ?case using session_ports_remove1 [OF agent_gone(1)] session_ports_mem [OF agent_gone(1)]
    by (auto simp: server_inv_simps)
qed

lemma server_reachable_inv: "server_reachable refs s \<Longrightarrow> server_inv refs s"
proof (induction rule: server_reachable.induct)
  case boot
  show ?case by (simp add: server_inv_def held_ports_def server_boot_def)
next
  case (step s t)
  then show ?case using server_step_inv by blast
qed

text \<open>A port with an open listener that no thread holds is lost for good.\<close>

lemma leaked_step:
  assumes "server_step s t" "server_inv refs s"
    and "d \<in> listening (net s)" "d \<notin> used_ports (net s)"
  shows "d \<in> listening (net t) \<and> d \<notin> used_ports (net t)"
  using assms
  by cases
    (auto simp: server_inv_simps available_def dest!: allocate_port_some allocate_port_none
      session_ports_mem)

lemma leaked_steps:
  assumes "server_step\<^sup>*\<^sup>* s t" "server_inv refs s" "d \<in> listening (net s)" "d \<notin> used_ports (net s)"
  shows "d \<in> listening (net t) \<and> d \<notin> used_ports (net t) \<and> server_inv refs t"
  using assms by (induction rule: rtranclp_induct) (auto dest: leaked_step server_step_inv)

text \<open>One complete session, and \<open>k\<close> of them one after the other.\<close>

definition serve_one :: "net \<Rightarrow> net" where
  "serve_one n = (case session_start True True n of
     (Started p d bs, n') \<Rightarrow> session_end p d n' | (_, n') \<Rightarrow> n')"

lemma session_starts_iff:
  "(\<exists>p d bs n'. session_start True True n = (Started p d bs, n')) \<longleftrightarrow> 2 \<le> card (available n)"
  unfolding ports_pool.alloc_two_iff [symmetric]
  by (auto simp: session_start_def split: prod.splits option.splits)

lemma available_serve_one:
  assumes "2 \<le> card (available n)"
  shows "card (available (serve_one n)) = card (available n) - 1"
proof -
  from assms obtain p d bs n' where s: "session_start True True n = (Started p d bs, n')"
    using session_starts_iff by blast
  note st = session_start_started [OF s]
  from st have "available (serve_one n) = available n - {d}"
    by (auto simp: serve_one_def s session_end_def release_port_def drop_listener_def available_def)
  with st(3) show ?thesis by simp
qed

lemma available_serve:
  "k < card (available n) \<Longrightarrow> card (available ((serve_one ^^ k) n)) = card (available n) - k"
  by (induction k) (simp_all add: available_serve_one)

subsection \<open>Properties\<close>

lemma allocate_from_least:
  "sorted_wrt (\<lambda>x y. unat x < unat y) ports \<Longrightarrow> allocate_from ports n = (Some p, n') \<Longrightarrow>
     q \<in> set ports - used_ports n - listening n - refused n \<Longrightarrow> unat p \<le> unat q"
  by (induction ports) (auto simp: tcp_bind_def split: if_splits dest: allocate_from_some)

text \<open>C36 \<open>allocate_port\<close> hands out the lowest port of 30000 to 31000 that is neither marked used
  nor bound, marks it used and leaves everything else alone; it returns nothing exactly when
  there is no such port.\<close>

theorem allocate_port_spec:
  "case allocate_port n of
     (None, n') \<Rightarrow> available n = {} \<and> n' = n
   | (Some p, n') \<Rightarrow>
       p \<in> available n \<and> (\<forall>q \<in> available n. unat p \<le> unat q) \<and>
       30000 \<le> unat p \<and> unat p \<le> 31000 \<and>
       n' = n\<lparr>used_ports := insert p (used_ports n), listening := insert p (listening n)\<rparr>"
proof (cases "allocate_port n")
  case (Pair r n')
  show ?thesis
  proof (cases r)
    case None
    with Pair show ?thesis using allocate_port_none by simp
  next
    case (Some p)
    with Pair have a: "allocate_port n = (Some p, n')" by simp
    moreover have "\<forall>q \<in> available n. unat p \<le> unat q"
      using allocate_from_least [OF range_u16_sorted a [unfolded allocate_port_def port_range_def]]
      by (auto simp: available_def port_range_def)
    moreover have "30000 \<le> unat p \<and> unat p \<le> 31000"
      using allocate_port_some [OF a] port_range_bounds [of p] by (simp add: available_def)
    ultimately show ?thesis using allocate_port_some [OF a] by simp
  qed
qed

theorem allocate_port_spec_witness:
  "fst (allocate_port \<lparr>used_ports = {30000}, listening = {30000}, refused = {}\<rparr>) = Some 30001 \<and>
   \<not> (\<exists>q \<in> available \<lparr>used_ports = {30000}, listening = {30000}, refused = {}\<rparr>. unat q < 30001)"
proof -
  let ?n = "\<lparr>used_ports = {30000}, listening = {30000}, refused = {}\<rparr> :: net"
  have "fst (allocate_port ?n) = Some 30001"
    by (simp add: allocate_port_def port_range_def range_u16_Cons PORT_RANGE_START_def
        PORT_RANGE_END_def upt_conv_Cons [of 30001 31001] tcp_bind_def del: upt_rec_numeral)
  then show ?thesis using allocate_port_spec [of ?n] by (auto split: prod.splits)
qed

text \<open>C6 In every reachable state of the server, over any interleaving of the session threads, no
  port serves two roles: the ports held by the threads (public and data) are pairwise different, lie
  in the range, and are exactly the used set.\<close>

theorem sessions_never_share_ports:
  assumes "server_reachable refs s"
  shows "distinct (held_ports s) \<and> used_ports (net s) = set (held_ports s) \<and>
    (\<forall>p \<in> set (held_ports s). 30000 \<le> unat p \<and> unat p \<le> 31000 \<and> p \<notin> refs)"
  using server_reachable_inv [OF assms] port_range_bounds by (auto simp: server_inv_def)

text \<open>A run of the server for the witnesses: one session starts.\<close>

lemma one_session_reachable:
  obtains p d bs n' where "session_start True True (net (server_boot {})) = (Started p d bs, n')"
    and "server_reachable {} (server_boot {}\<lparr>net := n', sessions := [(p, d)]\<rparr>)"
proof -
  have "2 \<le> card (available (net (server_boot {})))"
    by (simp add: available_def card_port_range server_boot_def)
  then obtain p n1 d n2 where a: "allocate_port (net (server_boot {})) = (Some p, n1)"
    and b: "allocate_port n1 = (Some d, n2)"
    unfolding ports_pool.alloc_two_iff [symmetric] by blast
  let ?s1 = "server_boot {}\<lparr>net := n1, half_open := [p]\<rparr>"
  let ?s2 = "?s1\<lparr>net := n2, half_open := [], opened := [(p, d)]\<rparr>"
  let ?s3 = "?s2\<lparr>opened := [], sessions := [(p, d)]\<rparr>"
  have "server_step (server_boot {}) ?s1"
    using server_step.public_taken [OF a] by (simp add: server_boot_def)
  moreover have "server_step ?s1 ?s2"
    using server_step.data_taken [of p ?s1 d n2] b by (simp add: server_boot_def)
  moreover have "server_step ?s2 ?s3"
    using server_step.started [of p d ?s2] by (simp add: server_boot_def)
  ultimately have "server_reachable {} ?s3"
    by (blast intro: server_reachable.intros)
  moreover have "session_start True True (net (server_boot {})) = (Started p d (handshake (p, d)), n2)"
    by (simp add: session_start_def a b)
  ultimately show thesis using that by (simp add: server_boot_def)
qed

theorem sessions_never_share_ports_witness:
  "\<exists>s. server_reachable {} s \<and> length (sessions s) = 1 \<and> distinct (held_ports s)"
proof -
  obtain p d bs n' where "session_start True True (net (server_boot {})) = (Started p d bs, n')"
    and r: "server_reachable {} (server_boot {}\<lparr>net := n', sessions := [(p, d)]\<rparr>)"
    by (rule one_session_reachable)
  from sessions_never_share_ports [OF r] r show ?thesis
    by (intro exI [of _ "server_boot {}\<lparr>net := n', sessions := [(p, d)]\<rparr>"]) simp
qed

text \<open>C33 A session that starts has two different available ports, marked used and bound, and has
  written a handshake from which the client reads exactly these two ports; every other exit of
  \<open>run_session\<close> (no port, no second port, failed write, failed clone) leaves the pool and the
  listeners as they were.\<close>

theorem session_start_spec:
  "case session_start write_ok clone_ok n of
     (Started p d bytes, n') \<Rightarrow>
       p \<noteq> d \<and> {p, d} \<subseteq> available n \<and> write_ok \<and> clone_ok \<and>
       read_exact 4 bytes = Some (bytes, []) \<and> read_handshake bytes = (p, d) \<and>
       n' = n\<lparr>used_ports := {p, d} \<union> used_ports n, listening := {p, d} \<union> listening n\<rparr>
   | (_, n') \<Rightarrow> n' = n"
proof (cases "session_start write_ok clone_ok n")
  case (Pair r n')
  show ?thesis
  proof (cases "\<exists>p d bs. r = Started p d bs")
    case True
    then obtain p d bs where r: "r = Started p d bs" by blast
    with Pair have s: "session_start write_ok clone_ok n = (Started p d bs, n')" by simp
    then have "write_ok \<and> clone_ok"
      by (auto simp: session_start_def Let_def split: prod.splits option.splits if_splits)
    moreover have "read_exact 4 (handshake (p, d)) = Some (handshake (p, d), [])"
      using ports.read_one [of "(p, d)" "[]"] by simp
    ultimately show ?thesis using Pair r session_start_started [OF s] by (simp add: ports.dec_enc)
  next
    case False
    with Pair session_start_failed [OF Pair] show ?thesis by (auto split: start_result.splits)
  qed
qed

text \<open>The data port of a session that has ended is lost: whatever sessions start and end
  afterwards, it is never available again, because its listener stays open. The public port of the
  session is available at once.\<close>

theorem data_port_lost:
  assumes "server_reachable refs s" and "(p, d) \<in> set (sessions s)"
    and "t = s\<lparr>net := session_end p d (net s), sessions := remove1 (p, d) (sessions s)\<rparr>"
    and "server_step\<^sup>*\<^sup>* t u"
  shows "p \<in> available (net t) \<and> d \<notin> available (net u) \<and> d \<notin> set (held_ports u)"
proof -
  have s: "server_inv refs s" using assms(1) by (rule server_reachable_inv)
  have st: "server_step s t" unfolding assms(3) by (rule server_step.agent_gone) (rule assms(2))
  have t: "server_inv refs t" using st s by (rule server_step_inv)
  have pd: "p \<in> used_ports (net s)" "d \<in> used_ports (net s)" "p \<noteq> d"
    using s session_ports_mem [OF assms(2)] session_ports_remove1 [OF assms(2)]
    by (auto simp: server_inv_def held_ports_def)
  have "d \<in> listening (net t)" "d \<notin> used_ports (net t)"
    using s pd by (auto simp: assms(3) server_inv_simps)
  from leaked_steps [OF assms(4) t this] have "d \<notin> available (net u)" "d \<notin> set (held_ports u)"
    by (auto simp: available_def server_inv_def)
  moreover have "p \<in> available (net t)"
    using s pd by (auto simp: assms(3) server_inv_simps available_def)
  ultimately show ?thesis by simp
qed

theorem data_port_lost_witness:
  "\<exists>t u. server_step\<^sup>*\<^sup>* t u \<and> (\<exists>p d. p \<in> available (net t) \<and> d \<in> set port_range \<and> d \<notin> available (net u))"
proof -
  obtain p d bs n' where st: "session_start True True (net (server_boot {})) = (Started p d bs, n')"
    and r: "server_reachable {} (server_boot {}\<lparr>net := n', sessions := [(p, d)]\<rparr>)"
    by (rule one_session_reachable)
  let ?s = "server_boot {}\<lparr>net := n', sessions := [(p, d)]\<rparr>"
  let ?t = "?s\<lparr>net := session_end p d (net ?s), sessions := remove1 (p, d) (sessions ?s)\<rparr>"
  from data_port_lost [OF r _ refl rtranclp.rtrancl_refl, of p d]
  have "p \<in> available (net ?t) \<and> d \<notin> available (net ?t)" by simp
  moreover have "d \<in> set port_range" using session_start_started [OF st] by (simp add: available_def)
  ultimately show ?thesis by blast
qed

text \<open>C38 Every complete session costs the pool one port: when all 1001 ports are free, exactly
  1000 sessions can be served one after the other, although each of them releases both its ports;
  from then on every agent is rejected.\<close>

theorem pool_exhausted_after_1000_sessions:
  assumes "available n = set port_range"
  shows "(\<exists>p d bs n'. session_start True True ((serve_one ^^ k) n) = (Started p d bs, n')) \<longleftrightarrow> k < 1000"
proof (cases "k \<le> 1000")
  case True
  then have "card (available ((serve_one ^^ k) n)) = 1001 - k"
    using available_serve [of k n] by (simp add: assms card_port_range)
  with True show ?thesis unfolding session_starts_iff by auto
next
  case False
  have stuck: "serve_one m = m" if "card (available m) = 1" for m
  proof -
    have "\<not> (\<exists>p d bs n'. session_start True True m = (Started p d bs, n'))"
      using that by (simp add: session_starts_iff)
    then show ?thesis using session_start_failed [of True True m]
      by (auto simp: serve_one_def split: prod.splits start_result.splits)
  qed
  have one: "card (available ((serve_one ^^ 1000) n)) = 1"
    using available_serve [of 1000 n] by (simp add: assms card_port_range)
  have "(serve_one ^^ j) ((serve_one ^^ 1000) n) = (serve_one ^^ 1000) n" for j
    by (induction j) (simp_all add: stuck one)
  moreover have "(serve_one ^^ k) n = (serve_one ^^ (k - 1000)) ((serve_one ^^ 1000) n)"
    using False by (simp add: funpow_add [symmetric, THEN fun_cong, unfolded o_apply])
  ultimately show ?thesis using False one unfolding session_starts_iff by simp
qed

theorem pool_exhausted_after_1000_sessions_witness:
  "\<not> (\<exists>p d bs n'. session_start True True
       ((serve_one ^^ 1000) \<lparr>used_ports = {}, listening = {}, refused = {}\<rparr>) = (Started p d bs, n'))"
  using pool_exhausted_after_1000_sessions [of "\<lparr>used_ports = {}, listening = {}, refused = {}\<rparr>" 1000]
  by (simp add: available_def)

end
