(* ===== verification/Tunnel_Session.thy ===== *)
theory Tunnel_Session
  imports Port_Pool
begin

text \<open>
  One session of the tunnel server (\<^verbatim>\<open>tunnel/server.rs\<close>): the three threads
  \<^verbatim>\<open>public_acceptor\<close>, \<^verbatim>\<open>control_reader\<close> and \<^verbatim>\<open>data_acceptor\<close>, which share the map of
  pending visitors, and the byte pump \<^verbatim>\<open>copy_half\<close>. Visitors are of a type \<open>'v\<close>, data
  connections of the agent of a type \<open>'c\<close>. Each definition is what one thread does between two
  points where another may run; \<open>session_step\<close> interleaves them.
\<close>

subsection \<open>The session's state\<close>

datatype main_pc = Polling | Opening u16 | Ended

text \<open>
  \<open>accepted\<close> is the log of the line "visitor from ... to stream ...", oldest first; \<open>sent\<close> are
  the frames written to the control connection; \<open>closed\<close> are the visitors (with their stream)
  whose connection was dropped without having been spliced. \<open>last_ping\<close> counts milliseconds.
\<close>

record ('v, 'c) session =
  main_pc :: main_pc
  last_ping :: nat
  stream_counter :: u16
  pending :: "(u16, 'v) hash_map"
  reader_up :: bool
  sent :: "(u8 \<times> u16) list"
  spliced :: "(u16 \<times> 'c \<times> 'v) list"
  closed :: "(u16 \<times> 'v) list"
  accepted :: "(u16 \<times> 'v) list"

definition PING_INTERVAL :: nat where "PING_INTERVAL = 10000"

definition session_init :: "nat \<Rightarrow> ('v, 'c) session" where
  "session_init now = \<lparr>main_pc = Polling, last_ping = now, stream_counter = 0, pending = [],
     reader_up = True, sent = [], spliced = [], closed = [], accepted = []\<rparr>"

subsection \<open>The main thread\<close>

text \<open>The first half of the loop of \<^verbatim>\<open>public_acceptor\<close>: a keepalive when it is due.\<close>

definition ping_part :: "nat \<Rightarrow> bool \<Rightarrow> ('v, 'c) session \<Rightarrow> ('v, 'c) session" where
  "ping_part now write_ok s =
     (if PING_INTERVAL \<le> now - last_ping s
      then if write_ok then s\<lparr>sent := sent s @ [(TAG_PING, 0)], last_ping := now\<rparr>
           else s\<lparr>main_pc := Ended\<rparr>
      else s)"

datatype 'v accept_result = Visitor 'v | Would_block | Accept_error

text \<open>
  The second half: one \<^verbatim>\<open>accept()\<close>. A visitor displaced from the map by
  \<^verbatim>\<open>HashMap::insert\<close> is dropped, which closes its connection.
\<close>

definition accept_part :: "'v accept_result \<Rightarrow> ('v, 'c) session \<Rightarrow> ('v, 'c) session" where
  "accept_part r s =
     (case r of
        Visitor v \<Rightarrow>
          let stream_id = stream_counter s
          in s\<lparr>stream_counter := stream_counter s + 1,
               accepted := accepted s @ [(stream_id, v)],
               closed := (case hm_get (pending s) stream_id of Some w \<Rightarrow> closed s @ [(stream_id, w)] | None \<Rightarrow> closed s),
               pending := hm_insert stream_id v (pending s),
               main_pc := Opening stream_id\<rparr>
      | Would_block \<Rightarrow> s
      | Accept_error \<Rightarrow> s\<lparr>main_pc := Ended\<rparr>)"

definition open_part :: "bool \<Rightarrow> u16 \<Rightarrow> ('v, 'c) session \<Rightarrow> ('v, 'c) session" where
  "open_part write_ok stream_id s =
     (if write_ok then s\<lparr>sent := sent s @ [(TAG_OPEN, stream_id)], main_pc := Polling\<rparr>
      else s\<lparr>main_pc := Ended\<rparr>)"

text \<open>The whole loop body, as the main thread runs it when no other thread interferes.\<close>

definition acceptor_iteration ::
  "nat \<Rightarrow> bool \<Rightarrow> 'v accept_result \<Rightarrow> bool \<Rightarrow> ('v, 'c) session \<Rightarrow> ('v, 'c) session" where
  "acceptor_iteration now ping_ok r open_ok s =
     (let s1 = ping_part now ping_ok s
      in if main_pc s1 = Ended then s1
         else let s2 = accept_part r s1
              in case main_pc s2 of Opening stream_id \<Rightarrow> open_part open_ok stream_id s2 | _ \<Rightarrow> s2)"

subsection \<open>The control reader and the data acceptor\<close>

definition reader_frame :: "u8 \<times> u16 \<Rightarrow> ('v, 'c) session \<Rightarrow> ('v, 'c) session" where
  "reader_frame f s =
     (case f of (tag, stream_id) \<Rightarrow>
        if tag = TAG_PONG then s
        else if tag = TAG_CLOSE then
          s\<lparr>closed := (case hm_get (pending s) stream_id of Some w \<Rightarrow> closed s @ [(stream_id, w)] | None \<Rightarrow> closed s),
            pending := hm_remove stream_id (pending s)\<rparr>
        else s)"

definition control_reader :: "u8 list \<Rightarrow> ('v, 'c) session \<Rightarrow> ('v, 'c) session" where
  "control_reader bytes s =
     (fold reader_frame (read_all FRAME_LEN bytes_frame bytes) s)\<lparr>reader_up := False\<rparr>"

text \<open>
  One data connection of the agent: the two bytes it opens with, when they can be read, name
  the visitor to splice it with.
\<close>

definition data_conn :: "'c \<Rightarrow> u8 list \<Rightarrow> ('v, 'c) session \<Rightarrow> ('v, 'c) session" where
  "data_conn c bytes s =
     (case read_exact 2 bytes of
        None \<Rightarrow> s
      | Some (id_buf, _) \<Rightarrow>
          let stream_id = bytes_id id_buf
          in case hm_get (pending s) stream_id of
               None \<Rightarrow> s
             | Some v \<Rightarrow> s\<lparr>pending := hm_remove stream_id (pending s),
                           spliced := spliced s @ [(stream_id, c, v)]\<rparr>)"

subsection \<open>Interleaving\<close>

inductive session_step :: "('v, 'c) session \<Rightarrow> ('v, 'c) session \<Rightarrow> bool" where
  ping: "main_pc s = Polling \<Longrightarrow> session_step s (ping_part now ok s)"
| accept: "main_pc s = Polling \<Longrightarrow> session_step s (accept_part r s)"
| announce: "main_pc s = Opening stream_id \<Longrightarrow> session_step s (open_part ok stream_id s)"
| frame: "reader_up s \<Longrightarrow> session_step s (reader_frame f s)"
| reader_end: "session_step s (s\<lparr>reader_up := False\<rparr>)"
| data: "session_step s (data_conn c bytes s)"

inductive session_reachable :: "('v, 'c) session \<Rightarrow> bool" where
  init: "session_reachable (session_init now)"
| step: "session_reachable s \<Longrightarrow> session_step s t \<Longrightarrow> session_reachable t"

text \<open>The loop body is a sequence of steps of the main thread.\<close>

lemma acceptor_iteration_steps:
  assumes "main_pc s = Polling"
  shows "session_step\<^sup>*\<^sup>* s (acceptor_iteration now ping_ok r open_ok s)"
proof -
  let ?s1 = "ping_part now ping_ok s"
  have 1: "session_step s ?s1" using assms by (rule session_step.ping)
  have pc1: "main_pc ?s1 = Polling \<or> main_pc ?s1 = Ended" using assms by (simp add: ping_part_def)
  show ?thesis
  proof (cases "main_pc ?s1 = Ended")
    case True
    with 1 show ?thesis by (simp add: acceptor_iteration_def Let_def)
  next
    case False
    with pc1 have "session_step ?s1 (accept_part r ?s1)" by (intro session_step.accept) simp
    with 1 have 2: "session_step\<^sup>*\<^sup>* s (accept_part r ?s1)" by simp
    have "session_step (accept_part r ?s1) (open_part open_ok i (accept_part r ?s1))"
      if "main_pc (accept_part r ?s1) = Opening i" for i
      using that by (rule session_step.announce)
    with 2 False show ?thesis
      by (auto simp: acceptor_iteration_def Let_def split: main_pc.split intro: rtranclp.rtrancl_into_rtrancl)
  qed
qed

subsection \<open>The invariant of a session\<close>

definition opens :: "(u8 \<times> u16) list \<Rightarrow> u16 list" where
  "opens fs = map snd (filter (\<lambda>f. fst f = TAG_OPEN) fs)"

lemma opens_append [simp]: "opens (fs @ gs) = opens fs @ opens gs"
  by (simp add: opens_def)

lemma opens_single [simp]: "opens [(tag, i)] = (if tag = TAG_OPEN then [i] else [])" "opens [] = []"
  by (simp_all add: opens_def)

definition streams_numbered :: "('v, 'c) session \<Rightarrow> bool" where
  "streams_numbered s \<longleftrightarrow>
     map fst (accepted s) = map of_nat [0..<length (accepted s)] \<and>
     stream_counter s = of_nat (length (accepted s)) \<and>
     hm_valid (pending s) \<and>
     (\<forall>i v. hm_get (pending s) i = Some v \<longrightarrow> map_of (rev (accepted s)) i = Some v) \<and>
     (\<forall>(i, c, v) \<in> set (spliced s). (i, v) \<in> set (accepted s))"

definition visitors_conserved :: "('v, 'c) session \<Rightarrow> bool" where
  "visitors_conserved s \<longleftrightarrow>
     mset (accepted s) = mset (pending s) + mset (closed s) + mset (map (\<lambda>(i, c, v). (i, v)) (spliced s))"

definition announced_in_order :: "('v, 'c) session \<Rightarrow> bool" where
  "announced_in_order s \<longleftrightarrow>
     (case main_pc s of
        Polling \<Rightarrow> opens (sent s) = map fst (accepted s)
      | Opening i \<Rightarrow> opens (sent s) @ [i] = map fst (accepted s)
      | Ended \<Rightarrow> prefix (opens (sent s)) (map fst (accepted s)))"

lemma pending_accepted:
  "streams_numbered s \<Longrightarrow> hm_get (pending s) i = Some v \<Longrightarrow> (i, v) \<in> set (accepted s)"
  unfolding streams_numbered_def by (metis map_of_SomeD set_rev)

lemmas session_ops = ping_part_def accept_part_def open_part_def reader_frame_def data_conn_def Let_def

lemma step_numbered: "session_step s t \<Longrightarrow> streams_numbered s \<Longrightarrow> streams_numbered t"
proof (induction rule: session_step.induct)
  case (accept s r)
  then show ?case
    by (cases r) (auto simp: streams_numbered_def accept_part_def Let_def store_simps)
next
  case (frame s f)
  then show ?case
    by (auto simp: streams_numbered_def reader_frame_def store_simps split: prod.splits)
next
  case (data s c bytes)
  then show ?case using pending_accepted [OF data]
    by (auto simp: streams_numbered_def data_conn_def Let_def store_simps split: option.splits if_splits)
qed (auto simp: streams_numbered_def ping_part_def open_part_def)

lemma step_conserved:
  "session_step s t \<Longrightarrow> hm_valid (pending s) \<Longrightarrow> visitors_conserved s \<Longrightarrow> visitors_conserved t"
proof (induction rule: session_step.induct)
  case (accept s r)
  show ?case
  proof (cases r)
    case (Visitor v)
    then show ?thesis
      using accept mset_hm_insert [of "pending s" "stream_counter s" v]
      by (auto simp: visitors_conserved_def accept_part_def Let_def split: option.splits)
  qed (use accept in \<open>auto simp: visitors_conserved_def accept_part_def\<close>)
next
  case (frame s f)
  then show ?case using mset_hm_remove [of "pending s" "snd f"]
    by (auto simp: visitors_conserved_def reader_frame_def hm_remove_absent split: prod.splits option.splits)
next
  case (data s c bytes)
  show ?case
  proof (cases "data_conn c bytes s = s")
    case False
    then obtain i v where v: "hm_get (pending s) i = Some v"
      and d: "data_conn c bytes s =
        s\<lparr>pending := hm_remove i (pending s), spliced := spliced s @ [(i, c, v)]\<rparr>"
      by (auto simp: data_conn_def Let_def split: option.splits)
    then show ?thesis using data mset_hm_remove [of "pending s" i]
      by (auto simp: visitors_conserved_def)
  qed (use data in simp)
qed (auto simp: visitors_conserved_def ping_part_def open_part_def)

lemma step_announced: "session_step s t \<Longrightarrow> announced_in_order s \<Longrightarrow> announced_in_order t"
proof (induction rule: session_step.induct)
  case (accept s r)
  then show ?case by (cases r) (auto simp: announced_in_order_def accept_part_def Let_def)
next
  case (announce s i ok)
  then show ?case by (auto simp: announced_in_order_def open_part_def prefix_def) (metis)
qed (auto simp: announced_in_order_def session_ops tag_defs split: prod.splits option.splits main_pc.splits)

lemma session_invariant:
  "session_reachable s \<Longrightarrow> streams_numbered s \<and> visitors_conserved s \<and> announced_in_order s"
proof (induction rule: session_reachable.induct)
  case (init now)
  show ?case
    by (auto simp: session_init_def streams_numbered_def visitors_conserved_def announced_in_order_def hm_values_def)
next
  case (step s t)
  then have "hm_valid (pending s)" by (simp add: streams_numbered_def)
  with step show ?case using step_numbered step_conserved step_announced by blast
qed

subsection \<open>The byte pump\<close>

text \<open>
  \<^verbatim>\<open>copy_half\<close>: the results of the successive \<^verbatim>\<open>read\<close> calls (an error, or up to 8192 bytes,
  none of them at the end of the stream), and the outcome of the \<open>k\<close>-th \<^verbatim>\<open>write_all\<close>: \<open>None\<close> when
  it succeeds, \<open>Some m\<close> when it fails after \<open>m\<close> bytes of its chunk have been written. The result is
  what was written to the destination and whether the loop ended, which is when the write half of the
  destination is shut down; an exhausted list of reads means the next one still blocks.
\<close>

fun copy_half :: "(nat \<Rightarrow> nat option) \<Rightarrow> nat \<Rightarrow> (io_error + u8 list) list \<Rightarrow> u8 list \<times> bool" where
  "copy_half wr k [] = ([], False)"
| "copy_half wr k (Inl e # rs) = ([], True)"
| "copy_half wr k (Inr bs # rs) =
     (if bs = [] then ([], True)
      else case wr k of
        None \<Rightarrow> (let (out, ended) = copy_half wr (Suc k) rs in (bs @ out, ended))
      | Some m \<Rightarrow> (take m bs, True))"

text \<open>\<^verbatim>\<open>splice\<close>: each connection is cloned first; when a clone fails the thread panics and nothing is copied.\<close>

definition splice ::
  "bool \<Rightarrow> bool \<Rightarrow> (nat \<Rightarrow> nat option) \<Rightarrow> (nat \<Rightarrow> nat option) \<Rightarrow> (io_error + u8 list) list \<Rightarrow>
     (io_error + u8 list) list \<Rightarrow> ((u8 list \<times> bool) \<times> (u8 list \<times> bool)) option" where
  "splice clone_a clone_b wr_b wr_a from_a from_b =
     (if \<not> clone_a then None
      else if \<not> clone_b then None
      else Some (copy_half wr_b 0 from_a, copy_half wr_a 0 from_b))"

definition chunk :: "io_error + u8 list \<Rightarrow> u8 list" where
  "chunk r = (case r of Inl _ \<Rightarrow> [] | Inr bs \<Rightarrow> bs)"

lemma copy_half_data:
  "(\<forall>j. k \<le> j \<longrightarrow> wr j = None) \<Longrightarrow> list_all (\<lambda>bs. bs \<noteq> []) bss \<Longrightarrow>
     copy_half wr k (map Inr bss @ rs) =
       (let (out, ended) = copy_half wr (k + length bss) rs in (concat bss @ out, ended))"
  by (induction bss arbitrary: k) (auto split: prod.splits)

lemma copy_half_prefix: "prefix (fst (copy_half wr k rs)) (concat (map chunk rs))"
  by (induction wr k rs rule: copy_half.induct)
    (auto simp: chunk_def take_is_prefix prefix_prefix split: prod.splits option.splits)

text \<open>A write that fails after \<open>m\<close> bytes ends the pump with these and everything before them.\<close>

lemma copy_half_fails:
  assumes "list_all (\<lambda>bs. bs \<noteq> []) bss" "\<forall>j < length bss. wr (k + j) = None" "wr (k + length bss) = Some m" "bs \<noteq> []"
  shows "copy_half wr k (map Inr bss @ Inr bs # rs) = (concat bss @ take m bs, True)"
  using assms
proof (induction bss arbitrary: k)
  case (Cons b bss)
  from Cons.prems(2) have "wr k = None" "\<forall>j < length bss. wr (Suc k + j) = None" by force+
  with Cons.IH [of "Suc k"] Cons.prems show ?case by simp
qed simp

subsection \<open>Properties\<close>

text \<open>C7 No visitor is lost or duplicated: in every reachable state of a session, over any
  interleaving of its threads and any behaviour of the agent, every accepted visitor (with its stream
  id) is exactly once in the pending map, among the spliced pairs, or among the closed connections.\<close>

theorem visitors_never_lost:
  assumes "session_reachable s"
  shows "mset (accepted s) =
    mset (pending s) + mset (closed s) + mset (map (\<lambda>(i, c, v). (i, v)) (spliced s))"
  using session_invariant [OF assms] by (simp add: visitors_conserved_def)

theorem visitors_never_lost_witness:
  "mset (accepted (accept_part (Visitor ''a'') (session_init 0 :: (string, unit) session))) = {#(0, ''a'')#} \<and>
   mset (pending (accept_part (Visitor ''a'') (session_init 0 :: (string, unit) session))) = {#(0, ''a'')#}"
proof -
  let ?s = "accept_part (Visitor ''a'') (session_init 0 :: (string, unit) session)"
  have "session_reachable ?s"
    by (rule session_reachable.step [OF session_reachable.init session_step.accept])
      (simp add: session_init_def)
  from visitors_never_lost [OF this] show ?thesis
    by (simp add: accept_part_def session_init_def hm_insert_def)
qed

text \<open>C37 No cross-talk, as long as at most 65536 visitors have been accepted, so that no stream id has
  been used twice. A data connection that opens with the two bytes the client writes for a stream id
  (\<^verbatim>\<open>stream_id.to_be_bytes()\<close>), whatever follows them, is spliced with the visitor that waits under
  that id, who is then no longer pending: it is the only visitor ever accepted under the id, it was not
  spliced before, and nothing else of the session changes. When no visitor waits under the id, or fewer
  than two bytes arrive, nothing changes. So no stream is spliced twice, and each with the visitor
  accepted under its id.\<close>

theorem spliced_with_its_own_visitor:
  assumes "session_reachable s" and "length (accepted s) \<le> 2 ^ 16"
  shows "distinct (map fst (spliced s)) \<and>
    (\<forall>(i, c, v) \<in> set (spliced s). \<forall>w. (i, w) \<in> set (accepted s) \<longleftrightarrow> w = v) \<and>
    (\<forall>i v c rest. (i, v) \<in> set (pending s) \<longrightarrow>
      (\<exists>q. data_conn c (id_bytes i @ rest) s = s\<lparr>pending := q, spliced := spliced s @ [(i, c, v)]\<rparr> \<and>
        set q = set (pending s) - {(i, v)}) \<and>
      (\<forall>w. (i, w) \<in> set (accepted s) \<longleftrightarrow> w = v) \<and> i \<notin> fst ` set (spliced s)) \<and>
    (\<forall>i c rest. i \<notin> fst ` set (pending s) \<longrightarrow> data_conn c (id_bytes i @ rest) s = s) \<and>
    (\<forall>c bytes. length bytes < 2 \<longrightarrow> data_conn c bytes s = s)"
proof -
  have inv: "streams_numbered s" "visitors_conserved s" using session_invariant [OF assms(1)] by auto
  then have valid: "hm_valid (pending s)" by (simp add: streams_numbered_def)
  have "inj_on (of_nat :: nat \<Rightarrow> u16) {0..<length (accepted s)}"
  proof (rule inj_onI)
    fix m n assume "m \<in> {0..<length (accepted s)}" "n \<in> {0..<length (accepted s)}"
    then have "m < 2 ^ 16" "n < 2 ^ 16" using assms(2) by auto
    moreover assume "(of_nat m :: u16) = of_nat n"
    then have "unat (of_nat m :: u16) = unat (of_nat n :: u16)" by simp
    ultimately show "m = n" by (simp add: unat_of_nat)
  qed
  then have d: "distinct (map fst (accepted s))"
    using inv(1) by (simp add: streams_numbered_def distinct_map)
  have "image_mset fst (mset (accepted s)) =
      mset (map fst (pending s)) + mset (map fst (closed s)) + mset (map fst (spliced s))"
    using inv(2) by (simp add: visitors_conserved_def image_mset.compositionality case_prod_beta comp_def)
  then have "mset (map fst (accepted s)) = mset (map fst (pending s) @ map fst (closed s) @ map fst (spliced s))"
    by simp
  then have apart: "distinct (map fst (pending s) @ map fst (closed s) @ map fst (spliced s))"
    using d mset_eq_imp_distinct_iff by blast
  have own: "(\<forall>w. (i, w) \<in> set (accepted s) \<longleftrightarrow> w = v)" if "(i, v) \<in> set (accepted s)" for i v
    using d that by (auto simp: eq_key_imp_eq_value)
  have spl: "\<forall>w. (i, w) \<in> set (accepted s) \<longleftrightarrow> w = v" if "(i, c, v) \<in> set (spliced s)" for i c v
    by (rule own) (use inv(1) that in \<open>auto simp: streams_numbered_def\<close>)
  have pend: "(\<exists>q. data_conn c (id_bytes i @ rest) s = s\<lparr>pending := q, spliced := spliced s @ [(i, c, v)]\<rparr> \<and>
        set q = set (pending s) - {(i, v)}) \<and>
      (\<forall>w. (i, w) \<in> set (accepted s) \<longleftrightarrow> w = v) \<and> i \<notin> fst ` set (spliced s)"
    if "(i, v) \<in> set (pending s)" for i v c rest
  proof -
    have g: "hm_get (pending s) i = Some v" using hm_in_get [OF valid] that by simp
    have "set (hm_remove i (pending s)) = set (pending s) - {(i, v)}"
      using valid that by (auto simp: hm_remove_def hm_valid_def AList.delete_eq dest: eq_key_imp_eq_value)
    moreover have "i \<notin> fst ` set (spliced s)" using apart that by (force simp: disjoint_iff)
    ultimately show ?thesis
      using own [OF pending_accepted [OF inv(1) g]] g stream_id.read_one [of i rest]
      by (auto simp: data_conn_def stream_id.dec_enc Let_def)
  qed
  have absent: "data_conn c (id_bytes i @ rest) s = s" if "i \<notin> fst ` set (pending s)" for i c rest
  proof -
    have "hm_get (pending s) i = None" using that by (simp add: hm_get_def map_of_eq_None_iff)
    then show ?thesis using stream_id.read_one [of i rest] by (simp add: data_conn_def stream_id.dec_enc Let_def)
  qed
  have short: "data_conn c bytes s = s" if "length bytes < 2" for c bytes
    using that by (simp add: data_conn_def read_exact_def)
  have "distinct (map fst (spliced s))" using apart by simp
  moreover have "\<forall>(i, c, v) \<in> set (spliced s). \<forall>w. (i, w) \<in> set (accepted s) \<longleftrightarrow> w = v"
    using spl by blast
  ultimately show ?thesis
    by (intro conjI) (assumption | (intro allI impI, rule pend absent short, assumption))+
qed

theorem spliced_with_its_own_visitor_witness:
  "\<exists>s :: (string, string) session. session_reachable s \<and> pending s = [(0, ''a'')] \<and>
     spliced (data_conn ''conn'' (id_bytes 0 @ [7]) s) = [(0, ''conn'', ''a'')] \<and>
     data_conn ''conn'' (id_bytes 256) s = s"
proof -
  let ?init = "session_init 0 :: (string, string) session"
  let ?s = "accept_part (Visitor ''a'') ?init"
  have r: "session_reachable ?s"
    by (intro session_reachable.step [OF session_reachable.init session_step.accept]) (simp add: session_init_def)
  have s: "pending ?s = [(0, ''a'')]" "length (accepted ?s) = 1" "spliced ?s = []"
    by (simp_all add: accept_part_def session_init_def hm_insert_def)
  have m: "length (accepted ?s) \<le> 2 ^ 16" "(0, ''a'') \<in> set (pending ?s)" "256 \<notin> fst ` set (pending ?s)"
    by (simp_all add: s)
  note all = spliced_with_its_own_visitor [OF r m(1), THEN conjunct2, THEN conjunct2]
  have same: "data_conn ''conn'' (id_bytes 256 @ []) ?s = ?s"
    by (rule all [THEN conjunct2, THEN conjunct1, rule_format, OF m(3)])
  have "\<exists>q. data_conn ''conn'' (id_bytes 0 @ [7]) ?s = ?s\<lparr>pending := q, spliced := spliced ?s @ [(0, ''conn'', ''a'')]\<rparr>"
    using all [THEN conjunct1, rule_format, OF m(2), THEN conjunct1] by meson
  then obtain q where "data_conn ''conn'' (id_bytes 0 @ [7]) ?s =
      ?s\<lparr>pending := q, spliced := spliced ?s @ [(0, ''conn'', ''a'')]\<rparr>" by blast
  then have "spliced (data_conn ''conn'' (id_bytes 0 @ [7]) ?s) = [(0, ''conn'', ''a'')]" by (simp add: s(3))
  with r s(1) same show ?thesis by (intro exI [of _ ?s]) simp
qed

text \<open>The agent is told of the visitors in the order in which they were accepted, once each: the
  stream ids of the OPEN frames written so far are those of the accepted visitors, up to the one that
  is just being announced or whose announcement failed.\<close>

theorem visitors_announced_in_order:
  assumes "session_reachable s"
  shows "prefix (opens (sent s)) (map fst (accepted s)) \<and>
    (main_pc s = Polling \<longrightarrow> opens (sent s) = map of_nat [0..<length (accepted s)])"
proof (intro conjI impI)
  have a: "announced_in_order s" and n: "map fst (accepted s) = map of_nat [0..<length (accepted s)]"
    using session_invariant [OF assms] by (auto simp: streams_numbered_def)
  then show "prefix (opens (sent s)) (map fst (accepted s))"
    by (cases "main_pc s") (auto simp: announced_in_order_def intro: prefixI [OF sym])
  assume "main_pc s = Polling"
  with a n show "opens (sent s) = map of_nat [0..<length (accepted s)]"
    by (simp add: announced_in_order_def)
qed

theorem visitors_announced_in_order_witness:
  "opens (sent (acceptor_iteration 0 True (Visitor ''a'') True (session_init 0 :: (string, unit) session))) = [0]"
proof -
  let ?init = "session_init 0 :: (string, unit) session"
  let ?s1 = "accept_part (Visitor ''a'') ?init"
  let ?s = "open_part True 0 ?s1"
  have "session_reachable ?s"
    by (intro session_reachable.step [OF session_reachable.step [OF session_reachable.init
            session_step.accept] session_step.announce])
      (simp_all add: session_init_def accept_part_def)
  moreover have "main_pc ?s = Polling" "length (accepted ?s) = 1"
    by (simp_all add: open_part_def accept_part_def session_init_def)
  moreover have "acceptor_iteration 0 True (Visitor ''a'') True ?init = ?s"
    by (simp add: acceptor_iteration_def ping_part_def accept_part_def session_init_def PING_INTERVAL_def Let_def)
  ultimately show ?thesis using visitors_announced_in_order [of ?s] by simp
qed

text \<open>There is no timeout: while no visitor arrives and the keepalives can be written, any
  number of rounds of the main thread over any span of time leaves the session running, every
  pending visitor pending and nothing closed, whether or not the agent ever answers.\<close>

theorem no_timeout_for_pending_or_silent_agents:
  assumes "main_pc s = Polling"
  shows "main_pc (fold (\<lambda>now. acceptor_iteration now True Would_block ok) nows s) = Polling \<and>
    pending (fold (\<lambda>now. acceptor_iteration now True Would_block ok) nows s) = pending s \<and>
    closed (fold (\<lambda>now. acceptor_iteration now True Would_block ok) nows s) = closed s"
  using assms
proof (induction nows arbitrary: s)
  case (Cons now nows)
  let ?t = "acceptor_iteration now True Would_block ok s"
  have "main_pc ?t = Polling" "pending ?t = pending s" "closed ?t = closed s"
    using Cons.prems by (simp_all add: acceptor_iteration_def ping_part_def accept_part_def Let_def)
  with Cons.IH [of ?t] show ?case by simp
qed simp

theorem no_timeout_for_pending_or_silent_agents_witness:
  "pending (fold (\<lambda>now. acceptor_iteration now True Would_block True) [15000, 30000, 999999]
     (session_init 0\<lparr>pending := [(0, ''a'')]\<rparr> :: (string, unit) session)) = [(0, ''a'')]"
  using no_timeout_for_pending_or_silent_agents
    [of "session_init 0\<lparr>pending := [(0, ''a'')]\<rparr> :: (string, unit) session" True "[15000, 30000, 999999]"]
  by (simp add: session_init_def)

text \<open>A byte pump never reorders, invents or drops bytes in the middle: whatever fails, what was
  written to the destination is a prefix of what the source delivered. It is all of it when every write
  succeeds and the reads end with the end of the stream or with an error, which a read timeout of the
  visitor's connection also is: the pump ends there, whatever the source would have delivered later.
  A write that fails in the middle of a chunk ends the pump with what it had written.\<close>

theorem copy_half_spec:
  "prefix (fst (copy_half wr k rs)) (concat (map chunk rs)) \<and>
   (list_all (\<lambda>bs. bs \<noteq> []) bss \<longrightarrow>
     ((\<forall>j. wr j = None) \<longrightarrow>
        copy_half wr k (map Inr bss @ Inr [] # rs) = (concat bss, True) \<and>
        copy_half wr k (map Inr bss @ Inl timeout # rs) = (concat bss, True) \<and>
        copy_half wr k (map Inr bss) = (concat bss, False)) \<and>
     ((\<forall>j < length bss. wr (k + j) = None) \<and> wr (k + length bss) = Some m \<and> bs \<noteq> [] \<longrightarrow>
        copy_half wr k (map Inr bss @ Inr bs # rs) = (concat bss @ take m bs, True)))"
proof (intro conjI impI)
  assume ne: "list_all (\<lambda>bs. bs \<noteq> []) bss"
  {
    assume wr: "\<forall>j. wr j = None"
    note data = copy_half_data [of k wr, OF _ ne] and w = wr [rule_format]
    show "copy_half wr k (map Inr bss @ Inr [] # rs) = (concat bss, True)"
      using data [of "Inr [] # rs"] w by simp
    show "copy_half wr k (map Inr bss @ Inl timeout # rs) = (concat bss, True)"
      using data [of "Inl timeout # rs"] w by simp
    show "copy_half wr k (map Inr bss) = (concat bss, False)"
      using data [of "[]"] w by simp
  }
  assume "(\<forall>j < length bss. wr (k + j) = None) \<and> wr (k + length bss) = Some m \<and> bs \<noteq> []"
  then show "copy_half wr k (map Inr bss @ Inr bs # rs) = (concat bss @ take m bs, True)"
    by (intro copy_half_fails ne) auto
qed (rule copy_half_prefix)

theorem copy_half_spec_witness:
  "copy_half (\<lambda>_. None) 0 [Inr [1, 2], Inr [3], Inl ''timed out'', Inr [4]] = ([1, 2, 3], True) \<and>
   copy_half (\<lambda>j. if j = 1 then Some 1 else None) 0 [Inr [1, 2], Inr [3, 4], Inr [5]] = ([1, 2, 3], True)"
  using copy_half_spec [of "\<lambda>_. None" 0 "[Inr [4]]" "[[1, 2], [3]]" "''timed out''"]
    copy_half_spec [of "\<lambda>j. if j = 1 then Some 1 else None" 0 "[Inr [5]]" "[[1, 2]]" _ 1 "[3, 4]"] by simp

end
