(* ===== verification/Tunnel_Client.thy ===== *)
theory Tunnel_Client
  imports Tunnel_Session
begin

text \<open>
  The volunteer's tunnel client (\<^verbatim>\<open>shard-node/container/client.rs\<close>): where it finds its
  addresses, one round of its reconnection loop, the session on the control connection and the
  handling of one stream; then the two ends of the tunnel together.
\<close>

subsection \<open>Configuration\<close>

definition CONTROL_PORT :: u16 where "CONTROL_PORT = 9007"

text \<open>\<^verbatim>\<open>TUNNEL_SERVER\<close>, as \<^verbatim>\<open>std::env::var\<close> reads it.\<close>

definition server_addr :: "string option \<Rightarrow> string" where
  "server_addr env = (case env of Some v \<Rightarrow> v | None \<Rightarrow> ''tunnel'')"

text \<open>
  \<^verbatim>\<open>LOCAL_SERVICE_ADDR\<close>, then the content of \<^verbatim>\<open>/tmp/tunnel_local_addr\<close>, then the default;
  the first that is not blank.
\<close>

definition local_service_addr :: "string option \<Rightarrow> (io_error + string) \<Rightarrow> string" where
  "local_service_addr env file =
     (case map_option trim env of
        Some (c # v) \<Rightarrow> c # v
      | _ \<Rightarrow>
          (case file of
             Inr content \<Rightarrow> if trim content \<noteq> [] then trim content else ''127.0.0.1:8080''
           | Inl _ \<Rightarrow> ''127.0.0.1:8080''))"

subsection \<open>The session on the control connection\<close>

datatype session_over = Read_failed | Write_failed

text \<open>
  The loop of \<^verbatim>\<open>run_session\<close> over the frames that arrive; \<open>wr k\<close> says whether the \<open>k\<close>-th
  write succeeds. The result: the frames written, the streams for which a thread was spawned, and
  why the session ended.
\<close>

fun client_frames ::
  "(nat \<Rightarrow> bool) \<Rightarrow> nat \<Rightarrow> (u8 \<times> u16) list \<Rightarrow> (u8 \<times> u16) list \<times> u16 list \<times> session_over" where
  "client_frames wr k [] = ([], [], Read_failed)"
| "client_frames wr k ((tag, stream_id) # fs) =
     (if tag = TAG_PING then
        if wr k then (let (out, streams, r) = client_frames wr (Suc k) fs
                      in ((TAG_PONG, 0) # out, streams, r))
        else ([], [], Write_failed)
      else if tag = TAG_OPEN then
        (let (out, streams, r) = client_frames wr k fs in (out, stream_id # streams, r))
      else if tag = TAG_CLOSE then client_frames wr k fs
      else client_frames wr k fs)"

definition client_session ::
  "(nat \<Rightarrow> bool) \<Rightarrow> u8 list \<Rightarrow> (u8 \<times> u16) list \<times> u16 list \<times> session_over" where
  "client_session wr bytes = client_frames wr 0 (read_all FRAME_LEN bytes_frame bytes)"

subsection \<open>One stream\<close>



subsection \<open>The reconnection loop\<close>

text \<open>
  One round of \<^verbatim>\<open>main\<close>. The outside world: whether the connection succeeds, the bytes the
  server sends (handshake, then frames), whether the port file can be written, whether the
  connection can be cloned and which writes succeed. \<open>port_file\<close> is the content of
  \<^verbatim>\<open>/tmp/tunnel_public_port\<close>, if it exists.
\<close>

record round_env =
  connect_ok :: bool
  server_bytes :: "u8 list"
  file_ok :: bool
  ctrl_clone_ok :: bool
  ctrl_writes :: "nat \<Rightarrow> bool"

datatype round_result =
    No_connection
  | No_handshake
  | No_port_file
  | Session_over u16 u16 string "u16 list"

text \<open>
  A session's result holds the public and data port, what the port file contained during the
  session, and the streams served.
\<close>

definition client_round :: "round_env \<Rightarrow> string option \<Rightarrow> round_result \<times> string option" where
  "client_round e port_file =
     (if \<not> connect_ok e then (No_connection, port_file)
      else case read_exact 4 (server_bytes e) of
        None \<Rightarrow> (No_handshake, port_file)
      | Some (buf, rest) \<Rightarrow>
          let (public_port, data_port) = read_handshake buf;
              content = show_nat (unat public_port)
          in if \<not> file_ok e then (No_port_file, port_file)
             else let streams = (if ctrl_clone_ok e
                                 then fst (snd (client_session (ctrl_writes e) rest)) else [])
                  in (Session_over public_port data_port content streams, None))"

lemma client_frames_streams:
  "\<forall>j. wr j \<Longrightarrow> fst (snd (client_frames wr k fs)) = opens fs"
proof (induction fs arbitrary: k)
  case (Cons f fs)
  then show ?case by (cases f) (simp add: opens_def tag_defs split_beta)
qed (simp add: opens_def)

lemma client_frames_pongs: "set (fst (client_frames wr k fs)) \<subseteq> {(TAG_PONG, 0)}"
proof (induction fs arbitrary: k)
  case (Cons f fs)
  then show ?case by (cases f) (simp add: split_beta)
qed simp

lemma client_frames_prefix: "prefix (fst (snd (client_frames wr k fs))) (opens fs)"
proof (induction fs arbitrary: k)
  case (Cons f fs)
  then show ?case by (cases f) (simp add: opens_def tag_defs split_beta)
qed simp

lemma trim_nonblank: "trim v \<noteq> [] \<longleftrightarrow> (\<exists>c \<in> set v. \<not> is_ws c)"
proof -
  have "trim v = [] \<longleftrightarrow> (\<forall>c \<in> set (dropWhile is_ws v). is_ws c)" by (auto simp: trim_def)
  also have "\<dots> \<longleftrightarrow> (\<forall>c \<in> set v. is_ws c)"
    by (induction v) auto
  finally show ?thesis by auto
qed

subsection \<open>Properties\<close>

text \<open>The client serves exactly the streams it was told of: whatever frames the server wrote and
  wherever the connection is cut, the client spawns one thread per OPEN frame that arrived whole, in
  order, as long as its writes succeed; and it never writes anything but PONG frames.\<close>

theorem client_serves_announced_streams:
  "((\<forall>j. wr j) \<longrightarrow>
     fst (snd (client_session wr (take n (concat (map frame_bytes fs))))) = opens (take (n div 3) fs)) \<and>
   prefix (fst (snd (client_session wr (take n (concat (map frame_bytes fs)))))) (opens fs) \<and>
   set (fst (client_session wr bytes)) \<subseteq> {(TAG_PONG, 0)}"
proof (intro conjI impI)
  have cut: "read_all FRAME_LEN bytes_frame (take n (concat (map frame_bytes fs))) = take (n div 3) fs"
    using frame.read_cut [of n fs] by (simp add: FRAME_LEN_def)
  show "fst (snd (client_session wr (take n (concat (map frame_bytes fs))))) = opens (take (n div 3) fs)"
    if "\<forall>j. wr j"
    using that by (simp add: client_session_def cut client_frames_streams)
  have "prefix (opens (take (n div 3) fs)) (opens fs)"
    using opens_append [of "take (n div 3) fs" "drop (n div 3) fs"] by (metis append_take_drop_id prefixI)
  then show "prefix (fst (snd (client_session wr (take n (concat (map frame_bytes fs)))))) (opens fs)"
    unfolding client_session_def cut using client_frames_prefix prefix_order.order_trans by blast
  show "set (fst (client_session wr bytes)) \<subseteq> {(TAG_PONG, 0)}"
    unfolding client_session_def by (rule client_frames_pongs)
qed

theorem client_serves_announced_streams_witness:
  "fst (snd (client_session (\<lambda>_. True)
     (take 8 (concat (map frame_bytes [(TAG_OPEN, 7), (TAG_PING, 0), (TAG_OPEN, 8)]))))) = [7]"
  using client_serves_announced_streams [of "\<lambda>_. True" 8 "[(TAG_OPEN, 7), (TAG_PING, 0), (TAG_OPEN, 8)]" "[]"]
  by (simp add: tag_defs opens_def)



text \<open>One round of the reconnection loop: when the server's handshake for the ports \<open>p\<close> and
  \<open>d\<close> arrives whole, the client serves its session with the data port \<open>d\<close>, the port file holds the
  decimal form of \<open>p\<close> (from which the number is read back) for the duration of the session and is
  gone afterwards; a round that fails before leaves the file alone.\<close>

theorem client_round_spec:
  "(connect_ok e \<and> file_ok e \<and> server_bytes e = handshake (p, d) @ rest \<longrightarrow>
      (\<exists>content streams. client_round e f = (Session_over p d content streams, None) \<and>
         parse_u32 content = Some (ucast p) \<and>
         (ctrl_clone_ok e \<longrightarrow> streams = fst (snd (client_session (ctrl_writes e) rest))))) \<and>
   (\<not> connect_ok e \<or> length (server_bytes e) < 4 \<or> \<not> file_ok e \<longrightarrow> snd (client_round e f) = f)"
proof (intro conjI impI)
  assume e: "connect_ok e \<and> file_ok e \<and> server_bytes e = handshake (p, d) @ rest"
  then have "read_exact 4 (server_bytes e) = Some (handshake (p, d), rest)"
    using ports.read_one [of "(p, d)" rest] by simp
  moreover have "parse_u32 (show_nat (unat p)) = Some (ucast p)"
    using parse_show_u32 [of "ucast p"] by simp
  ultimately show "\<exists>content streams. client_round e f = (Session_over p d content streams, None) \<and>
         parse_u32 content = Some (ucast p) \<and>
         (ctrl_clone_ok e \<longrightarrow> streams = fst (snd (client_session (ctrl_writes e) rest)))"
    using e by (simp add: client_round_def Let_def ports.dec_enc)
next
  assume "\<not> connect_ok e \<or> length (server_bytes e) < 4 \<or> \<not> file_ok e"
  then show "snd (client_round e f) = f"
    by (auto simp: client_round_def read_exact_def Let_def split: prod.splits)
qed

theorem client_round_spec_witness:
  "\<exists>streams. client_round \<lparr>connect_ok = True, server_bytes = handshake (30000, 30001), file_ok = True,
     ctrl_clone_ok = True, ctrl_writes = (\<lambda>_. True)\<rparr> None
     = (Session_over 30000 30001 ''30000'' streams, None)"
proof -
  let ?e = "\<lparr>connect_ok = True, server_bytes = handshake (30000, 30001), file_ok = True,
     ctrl_clone_ok = True, ctrl_writes = (\<lambda>_. True)\<rparr>"
  obtain content streams where r: "client_round ?e None = (Session_over 30000 30001 content streams, None)"
    using client_round_spec [of ?e 30000 30001 "[]" None] by auto
  have "read_exact 4 (handshake (30000, 30001)) = Some (handshake (30000, 30001), [])"
    using ports.read_one [of "(30000, 30001)" "[]"] by simp
  then have "content = show_nat 30000"
    using r by (simp add: client_round_def Let_def ports.dec_enc)
  also have "\<dots> = ''30000''"
    by (simp add: show_nat.simps [of 30000] show_nat.simps [of 3000] show_nat.simps [of 300]
        show_nat.simps [of 30] show_nat.simps [of 3] digit_char_def)
  finally show ?thesis using r by blast
qed

text \<open>The local service address is never blank: it is the trimmed environment variable if that
  is not blank, else the trimmed content of the address file if that is readable and not blank, else
  the default.\<close>

theorem local_service_addr_spec:
  "local_service_addr env file =
     (if \<exists>v. env = Some v \<and> (\<exists>c \<in> set v. \<not> is_ws c) then trim (the env)
      else if \<exists>v. file = Inr v \<and> (\<exists>c \<in> set v. \<not> is_ws c) then trim (projr file)
      else ''127.0.0.1:8080'') \<and>
   local_service_addr env file \<noteq> []"
proof -
  have nb: "(\<exists>c \<in> set v. \<not> is_ws c) \<longleftrightarrow> trim v \<noteq> []" for v by (simp add: trim_nonblank)
  show ?thesis
    unfolding nb by (auto simp: local_service_addr_def split: option.splits list.splits sum.splits)
qed

theorem local_service_addr_spec_witness:
  "local_service_addr (Some ''  '') (Inr '' 10.0.0.2:80 '') = ''10.0.0.2:80''"
  using local_service_addr_spec [of "Some ''  ''" "Inr '' 10.0.0.2:80 ''"]
  by (simp add: is_ws_def trim_def)

end
