(* ===== verification/Tunnel_Relay.thy ===== *)
theory Tunnel_Relay
  imports Tunnel_Client
begin

text \<open>
  The bytes of one visitor through both ends of the tunnel: the client's \<^verbatim>\<open>splice\<close> and \<^verbatim>\<open>copy_half\<close>
  (\<^verbatim>\<open>shard-node/container/client.rs\<close>), the server's, and the data connection between them.
\<close>

subsection \<open>The client's byte pump\<close>

text \<open>
  As on the server: the results of the reads and the outcomes of the writes (a failing \<^verbatim>\<open>write_all\<close>
  may have written any part of its chunk); what is written, and whether the loop ended.
\<close>

fun client_copy_half :: "(nat \<Rightarrow> nat option) \<Rightarrow> nat \<Rightarrow> (io_error + u8 list) list \<Rightarrow> u8 list \<times> bool" where
  "client_copy_half wr k [] = ([], False)"
| "client_copy_half wr k (r # rs) =
     (case r of
        Inl e \<Rightarrow> ([], True)
      | Inr buf \<Rightarrow>
          if buf = [] then ([], True)
          else case wr k of
            Some m \<Rightarrow> (take m buf, True)
          | None \<Rightarrow> (case client_copy_half wr (Suc k) rs of (out, ended) \<Rightarrow> (buf @ out, ended)))"

text \<open>
  \<open>a\<close> is the data connection to the server, \<open>b\<close> the connection to the local service; a failing clone
  of one of them ends the thread in a panic.
\<close>

definition client_splice ::
  "bool \<Rightarrow> bool \<Rightarrow> (nat \<Rightarrow> nat option) \<Rightarrow> (nat \<Rightarrow> nat option) \<Rightarrow> (io_error + u8 list) list \<Rightarrow>
     (io_error + u8 list) list \<Rightarrow> ((u8 list \<times> bool) \<times> (u8 list \<times> bool)) option" where
  "client_splice clone_a clone_b wr_b wr_a from_a from_b =
     (if clone_a \<and> clone_b
      then Some (client_copy_half wr_b 0 from_a, client_copy_half wr_a 0 from_b) else None)"

lemma client_copy_half_eq: "client_copy_half wr k rs = copy_half wr k rs"
  by (induction wr k rs rule: copy_half.induct) (auto split: prod.splits option.split)

lemma client_splice_eq: "client_splice = splice"
  by (intro ext) (simp add: client_splice_def splice_def client_copy_half_eq)

subsection \<open>Both ends\<close>

text \<open>
  A connection delivers the bytes written to it in order, cut in any way: what one end has read is a
  prefix of what the other has written.
\<close>

definition delivers :: "u8 list \<Rightarrow> (io_error + u8 list) list \<Rightarrow> bool" where
  "delivers written reads \<longleftrightarrow> prefix (concat (map chunk reads)) written"

text \<open>What was sent and read completely: chunks of data, then the end of the stream.\<close>

definition whole :: "u8 list \<Rightarrow> (io_error + u8 list) list \<Rightarrow> bool" where
  "whole bytes reads \<longleftrightarrow> (\<exists>bss. reads = map Inr bss @ [Inr []] \<and> list_all (\<lambda>bs. bs \<noteq> []) bss \<and> concat bss = bytes)"

lemma copy_whole:
  assumes "whole bytes reads" "\<forall>j. wr j = None"
  shows "copy_half wr k reads = (bytes, True)"
proof -
  from assms(1) obtain bss where "reads = map Inr bss @ [Inr []]" "list_all (\<lambda>bs. bs \<noteq> []) bss" "concat bss = bytes"
    unfolding whole_def by blast
  with copy_half_data [of k wr bss "[Inr []]"] assms(2) show ?thesis by simp
qed

text \<open>C9 The tunnel is transparent, once both ends have cloned their connections and started their pumps.
  In both directions, whatever read or write fails, a write that fails in the middle of a chunk
  included, what is written to the far side is a prefix of what the near side sent: no byte is
  invented, lost in between or reordered. When no write fails in a direction and the near side sent all
  of its bytes and closed, and all of them arrive over the data connection with its end, then exactly
  these bytes are written to the far side, and both pumps of the direction end.\<close>

theorem tunnel_transparent:
  assumes "client_splice True True wr_local wr_data from_data from_local = Some ((to_local, e1), (to_data, e2))"
    and "splice True True wr_visitor wr_agent from_agent from_visitor = Some ((to_visitor, e3), (to_agent, e4))"
    and "delivers to_data from_agent" and "delivers to_agent from_data"
  shows "prefix to_visitor (concat (map chunk from_local)) \<and>
    prefix to_local (concat (map chunk from_visitor)) \<and>
    ((\<forall>j. wr_data j = None) \<and> (\<forall>j. wr_visitor j = None) \<and> whole bytes from_local \<and> whole to_data from_agent \<longrightarrow>
       to_visitor = bytes \<and> e2 \<and> e3) \<and>
    ((\<forall>j. wr_agent j = None) \<and> (\<forall>j. wr_local j = None) \<and> whole bytes from_visitor \<and> whole to_agent from_data \<longrightarrow>
       to_local = bytes \<and> e4 \<and> e1)"
proof -
  have c: "copy_half wr_local 0 from_data = (to_local, e1)" "copy_half wr_data 0 from_local = (to_data, e2)"
    using assms(1) by (simp_all add: client_splice_eq splice_def)
  have s: "copy_half wr_visitor 0 from_agent = (to_visitor, e3)" "copy_half wr_agent 0 from_visitor = (to_agent, e4)"
    using assms(2) by (simp_all add: splice_def)
  have "prefix to_visitor (concat (map chunk from_local))"
    using copy_half_prefix [of wr_visitor 0 from_agent] copy_half_prefix [of wr_data 0 from_local] assms(3) c(2) s(1)
    by (auto simp: delivers_def intro: prefix_order.trans)
  moreover have "prefix to_local (concat (map chunk from_visitor))"
    using copy_half_prefix [of wr_local 0 from_data] copy_half_prefix [of wr_agent 0 from_visitor] assms(4) c(1) s(2)
    by (auto simp: delivers_def intro: prefix_order.trans)
  moreover have "to_visitor = bytes \<and> e2 \<and> e3"
    if "\<forall>j. wr_data j = None" "\<forall>j. wr_visitor j = None" "whole bytes from_local" "whole to_data from_agent"
    using copy_whole [OF that(3,1), of 0] copy_whole [OF that(4,2), of 0] c(2) s(1) by auto
  moreover have "to_local = bytes \<and> e4 \<and> e1"
    if "\<forall>j. wr_agent j = None" "\<forall>j. wr_local j = None" "whole bytes from_visitor" "whole to_agent from_data"
    using copy_whole [OF that(3,1), of 0] copy_whole [OF that(4,2), of 0] c(1) s(2) by auto
  ultimately show ?thesis by blast
qed

theorem tunnel_transparent_witness:
  "\<exists>t e to_agent. splice True True (\<lambda>_. None) (\<lambda>_. None) [Inr [1], Inr [2, 3], Inr []] [Inr []] = Some ((t, e), to_agent) \<and>
     t = [1, 2, 3] \<and> e"
proof -
  have c: "client_splice True True (\<lambda>_. None) (\<lambda>_. None) [Inr []] [Inr [1, 2], Inr [3], Inr []] =
      Some (([], True), ([1, 2, 3], True))"
    by (simp add: client_splice_def)
  obtain t e where s: "splice True True (\<lambda>_. None) (\<lambda>_. None) [Inr [1], Inr [2, 3], Inr []] [Inr []] = Some ((t, e), ([], True))"
    by (simp add: splice_def)
  have d: "delivers [1, 2, 3] [Inr [1], Inr [2, 3], Inr []]" "delivers [] [Inr []]" by (simp_all add: delivers_def chunk_def)
  have "whole [1, 2, 3] [Inr [1, 2], Inr [3], Inr []]"
    unfolding whole_def by (intro exI [of _ "[[1, 2], [3]]"]) simp
  moreover have "whole [1, 2, 3] [Inr [1], Inr [2, 3], Inr []]"
    unfolding whole_def by (intro exI [of _ "[[1], [2, 3]]"]) simp
  ultimately have "t = [1, 2, 3] \<and> e" using tunnel_transparent [OF c s d, of "[1, 2, 3]"] by simp
  with s show ?thesis by blast
qed

text \<open>A write to the visitor that fails after one byte of the second chunk: a prefix is what arrives.\<close>

lemma partial_write:
  "splice True True (\<lambda>j. if j = 1 then Some 1 else None) (\<lambda>_. None) [Inr [1], Inr [2, 3], Inr []] [] =
     Some (([1, 2], True), ([], False))"
  by (simp add: splice_def)

end
