(* ===== verification/Haproxy_Config.thy ===== *)
theory Haproxy_Config
  imports Stores
begin

text \<open>
  \<^verbatim>\<open>haproxy-manager/src/config.rs\<close>: editing \<^verbatim>\<open>haproxy.cfg\<close>. First the edits as functions on
  the text of the file, then \<^verbatim>\<open>add_service\<close>, \<^verbatim>\<open>remove_service\<close> and \<^verbatim>\<open>list_services\<close> with
  their effects. Everything outside the program (the file system, the \<^verbatim>\<open>haproxy\<close> binary, the
  signal, the admin socket) is a parameter: a record of operations on an abstract host state
  \<open>'h\<close>, each with its outcome and the host afterwards. The lock around the edits makes each of
  them one operation, as \<open>Config_Lock\<close> proves; the settling delays have no effect on the state.
\<close>

subsection \<open>The host\<close>

record 'h host =
  h_read_cfg :: "'h \<Rightarrow> (io_error + string) \<times> 'h"
  h_write_cfg :: "string \<Rightarrow> 'h \<Rightarrow> (io_error + unit) \<times> 'h"
  h_check_cfg :: "'h \<Rightarrow> (io_error + (bool \<times> string)) \<times> 'h"
  h_pid_path :: string
  h_read_pid :: "'h \<Rightarrow> (io_error + string) \<times> 'h"
  h_sigusr2 :: "u32 \<Rightarrow> 'h \<Rightarrow> (io_error + unit) \<times> 'h"
  h_socket :: "string \<Rightarrow> 'h \<Rightarrow> (io_error + string) \<times> 'h"

datatype config_error =
  Io io_error | FrontendNotFound | ValidationFailed string | ReloadFailed string

definition read_config :: "'h host \<Rightarrow> 'h \<Rightarrow> (config_error + string) \<times> 'h" where
  "read_config x = map_errE Io (h_read_cfg x)"

definition write_config :: "'h host \<Rightarrow> string \<Rightarrow> 'h \<Rightarrow> (config_error + unit) \<times> 'h" where
  "write_config x content = map_errE Io (h_write_cfg x content)"

definition validate_config :: "'h host \<Rightarrow> 'h \<Rightarrow> (config_error + unit) \<times> 'h" where
  "validate_config x =
     tryE (map_errE Io (h_check_cfg x)) (\<lambda>(success, stderr).
       if success then okE () else errE (ValidationFailed (trim stderr)))"

definition reload_haproxy :: "'h host \<Rightarrow> 'h \<Rightarrow> (config_error + unit) \<times> 'h" where
  "reload_haproxy x =
     tryE (map_errE (\<lambda>e. ReloadFailed (''cannot read PID file '' @ h_pid_path x @ '': '' @ e)) (h_read_pid x))
       (\<lambda>pid_str.
         case parse_u32 (trim pid_str) of
           None \<Rightarrow> errE (ReloadFailed (''invalid PID in '' @ h_pid_path x @ '': '' @ trim pid_str))
         | Some pid \<Rightarrow>
             map_errE (\<lambda>err. ReloadFailed (''kill -USR2 '' @ show_nat (unat pid) @ '': '' @ err))
               (h_sigusr2 x pid))"

subsection \<open>The lines of a service\<close>

definition indent :: string where "indent = ''    ''"

text \<open>The lines of \<^verbatim>\<open>backend_block\<close>; the block is a text with a newline before and after.\<close>

definition backend_lines :: "string \<Rightarrow> string list" where
  "backend_lines service_name =
     [[], ''backend '' @ service_name,
      indent @ ''balance leastconn'',
      indent @ ''option http-server-close'',
      indent @ ''option httpchk GET /'',
      indent @ ''http-check expect rstatus 2[0-9][0-9]'',
      indent @ ''http-response set-header X-Served-By %[srv_name]'']"

definition backend_block :: "string \<Rightarrow> string" where
  "backend_block service_name = unlines (backend_lines service_name)"

definition acl_line :: "string \<Rightarrow> string \<Rightarrow> string" where
  "acl_line service_name domain =
     indent @ ''acl host_'' @ service_name @ '' hdr(host) -i '' @ domain"

definition use_line :: "string \<Rightarrow> string" where
  "use_line service_name =
     indent @ ''use_backend '' @ service_name @ '' if host_'' @ service_name"

definition acl_marker :: "string \<Rightarrow> string" where
  "acl_marker service_name = ''acl host_'' @ service_name @ '' ''"

definition backend_header :: "string \<Rightarrow> string" where
  "backend_header service_name = ''backend '' @ service_name"

definition service_exists :: "string \<Rightarrow> string \<Rightarrow> bool" where
  "service_exists content service_name \<longleftrightarrow>
     list_ex (\<lambda>l. prefix (acl_marker service_name) (trim l)) (str_lines content)"

subsection \<open>Adding and removing a service\<close>

text \<open>\<^verbatim>\<open>Iterator::position\<close> and \<^verbatim>\<open>Vec::insert\<close>.\<close>

fun position :: "('a \<Rightarrow> bool) \<Rightarrow> 'a list \<Rightarrow> nat option" where
  "position P [] = None"
| "position P (l # ls) = (if P l then Some 0 else map_option Suc (position P ls))"

definition insert_at :: "nat \<Rightarrow> 'a \<Rightarrow> 'a list \<Rightarrow> 'a list" where
  "insert_at k l ls = take k ls @ l # drop k ls"

definition is_routing :: "string \<Rightarrow> bool" where
  "is_routing l \<longleftrightarrow> prefix ''default_backend'' (trim l) \<or> prefix ''use_backend'' (trim l)"

definition add_service_text :: "string \<Rightarrow> string \<Rightarrow> string \<Rightarrow> string option" where
  "add_service_text content service_name domain =
     (let lines = str_lines content
      in case position is_routing lines of
           None \<Rightarrow> None
         | Some insert_pos \<Rightarrow>
             let lines = insert_at insert_pos (use_line service_name) lines;
                 lines = insert_at insert_pos (acl_line service_name domain) lines;
                 lines = lines @ [backend_block service_name]
             in Some (join_nl lines))"

definition starts_section :: "string \<Rightarrow> bool" where
  "starts_section l \<longleftrightarrow> \<not> prefix '' '' l \<and> \<not> prefix [CHR 0x09] l \<and> l \<noteq> []"

text \<open>The loop of \<^verbatim>\<open>remove_service\<close>, with its flag \<^verbatim>\<open>in_target_backend\<close>.\<close>

fun remove_lines :: "string \<Rightarrow> bool \<Rightarrow> string list \<Rightarrow> string list" where
  "remove_lines service_name in_target [] = []"
| "remove_lines service_name in_target (line # lines) =
     (let in_target = (if starts_section line then trim line = backend_header service_name else in_target)
      in if in_target then remove_lines service_name in_target lines
         else if prefix (indent @ ''acl host_'' @ service_name @ '' '') line \<or>
                 prefix (indent @ ''use_backend '' @ service_name @ '' '') line
         then remove_lines service_name in_target lines
         else line # remove_lines service_name in_target lines)"

definition remove_service_text :: "string \<Rightarrow> string \<Rightarrow> string" where
  "remove_service_text content service_name =
     join_nl (remove_lines service_name False (str_lines content))"

text \<open>Write, validate, restore on failure, reload: the common end of both operations.\<close>

definition commit_config :: "'h host \<Rightarrow> string \<Rightarrow> string \<Rightarrow> 'h \<Rightarrow> (config_error + unit) \<times> 'h" where
  "commit_config x content new_content =
     tryE (write_config x new_content) (\<lambda>_ h.
       case validate_config x h of
         (Inl e, h') \<Rightarrow> tryE (write_config x content) (\<lambda>_. errE e) h'
       | (Inr _, h') \<Rightarrow> tryE (reload_haproxy x) (\<lambda>_. okE ()) h')"

definition add_service :: "'h host \<Rightarrow> string \<Rightarrow> string \<Rightarrow> 'h \<Rightarrow> (config_error + unit) \<times> 'h" where
  "add_service x service_name domain =
     tryE (read_config x) (\<lambda>content.
       if service_exists content service_name then okE ()
       else case add_service_text content service_name domain of
              None \<Rightarrow> errE FrontendNotFound
            | Some new_content \<Rightarrow> commit_config x content new_content)"

definition remove_service :: "'h host \<Rightarrow> string \<Rightarrow> 'h \<Rightarrow> (config_error + unit) \<times> 'h" where
  "remove_service x service_name =
     tryE (read_config x) (\<lambda>content.
       if \<not> service_exists content service_name then okE ()
       else commit_config x content (remove_service_text content service_name))"

definition service_of_line :: "string \<Rightarrow> string option" where
  "service_of_line l =
     (let t = trim l in if prefix ''backend svc_'' t then Some (drop (length ''backend '') t) else None)"

definition services_in :: "string \<Rightarrow> string list" where
  "services_in content = List.map_filter service_of_line (str_lines content)"

definition list_services :: "'h host \<Rightarrow> 'h \<Rightarrow> (config_error + string list) \<times> 'h" where
  "list_services x = tryE (read_config x) (\<lambda>content. okE (services_in content))"

subsection \<open>The lines after an edit\<close>

text \<open>A service name or domain that is one word: not empty, no white space.\<close>

definition word :: "string \<Rightarrow> bool" where
  "word w \<longleftrightarrow> w \<noteq> [] \<and> list_all (\<lambda>c. \<not> is_ws c) w"

lemma word_plain: "word w \<Longrightarrow> plain_line w"
  by (auto simp: word_def plain_line_def list_all_iff is_ws_def)

lemma word_no_space: "word w \<Longrightarrow> CHR '' '' \<notin> set w"
  by (auto simp: word_def list_all_iff is_ws_def)

lemma word_ends: "word w \<Longrightarrow> w \<noteq> [] \<and> \<not> is_ws (hd w) \<and> \<not> is_ws (last w)"
  by (simp add: word_def list_all_iff)

lemma plain_line_append [simp]: "plain_line (a @ b) \<longleftrightarrow> plain_line a \<and> plain_line b"
  "plain_line (c # b) \<longleftrightarrow> c \<noteq> NL \<and> c \<noteq> CR \<and> plain_line b" "plain_line []"
  by (auto simp: plain_line_def)

lemma trim_indented [simp]: "trim (indent @ s) = trim s"
  by (rule trim_indent) (simp add: indent_def is_ws_def)

lemma plain_indent [simp]: "plain_line indent"
  by (simp add: indent_def)

lemma backend_lines_plain: "plain_line n \<Longrightarrow> list_all plain_line (backend_lines n)"
  by (simp add: backend_lines_def)

lemma position_Some: "position P ls = Some k \<Longrightarrow> k < length ls \<and> P (ls ! k)"
  by (induction ls arbitrary: k) (auto split: if_splits)

lemma position_None: "position P ls = None \<longleftrightarrow> (\<forall>l \<in> set ls. \<not> P l)"
  by (induction ls) auto

lemma position_before: "position P ls = Some k \<Longrightarrow> j < k \<Longrightarrow> \<not> P (ls ! j)"
proof (induction ls arbitrary: k j)
  case (Cons l ls)
  then show ?case by (cases j) (auto split: if_splits)
qed simp

text \<open>The new lines: the two rules before the first routing rule, the backend at the end.\<close>

lemma add_service_text_eq:
  "add_service_text c n d =
     (case position is_routing (str_lines c) of
        None \<Rightarrow> None
      | Some k \<Rightarrow> Some (unlines (take k (str_lines c) @ [acl_line n d, use_line n] @
                          drop k (str_lines c) @ backend_lines n)))"
proof (cases "position is_routing (str_lines c)")
  case (Some k)
  then have k: "k < length (str_lines c)" using position_Some by auto
  have "insert_at k (acl_line n d) (insert_at k (use_line n) (str_lines c)) =
      take k (str_lines c) @ [acl_line n d, use_line n] @ drop k (str_lines c)"
    using k by (simp add: insert_at_def)
  with Some show ?thesis
    by (simp add: add_service_text_def Let_def join_nl_snoc backend_block_def)
qed (simp add: add_service_text_def)

lemma add_service_lines:
  assumes "add_service_text c n d = Some c'" "CR \<notin> set c" "word n" "plain_line d"
  obtains k where "position is_routing (str_lines c) = Some k"
    and "str_lines c' = take k (str_lines c) @ [acl_line n d, use_line n] @
           drop k (str_lines c) @ backend_lines n"
    and "c' = unlines (str_lines c')"
proof -
  from assms(1) obtain k where k: "position is_routing (str_lines c) = Some k"
    and c': "c' = unlines (take k (str_lines c) @ [acl_line n d, use_line n] @
              drop k (str_lines c) @ backend_lines n)" (is "_ = unlines ?ls")
    by (auto simp: add_service_text_eq split: option.splits)
  have "list_all plain_line (str_lines c)" using assms(2) by (rule str_lines_plain)
  then have "list_all plain_line (take k (str_lines c))" "list_all plain_line (drop k (str_lines c))"
    by (metis append_take_drop_id list_all_append)+
  moreover have "plain_line n" using assms(3) by (rule word_plain)
  ultimately have "list_all plain_line ?ls"
    using assms(4) backend_lines_plain by (simp add: acl_line_def use_line_def)
  then have "str_lines c' = ?ls" using str_lines_unlines [of ?ls "[]"] by (simp add: c')
  with k c' show thesis by (intro that) simp_all
qed

text \<open>Which of the new lines carry the marker of a service.\<close>

lemma marker_acl_line:
  assumes "word n" "word m"
  shows "prefix (acl_marker m) (trim (acl_line n d)) \<longleftrightarrow> m = n"
proof -
  let ?p = "''acl host_'' @ n @ '' hdr(host) -i''"
  have "acl_line n d = indent @ ?p @ ('' '' @ d)" by (simp add: acl_line_def)
  then have "trim (acl_line n d) = ?p @ rev (dropWhile is_ws (rev ('' '' @ d)))"
    using trim_visible [of ?p "'' '' @ d"] by (simp add: is_ws_def)
  then have "prefix (acl_marker m) (trim (acl_line n d)) \<longleftrightarrow>
      prefix (m @ [CHR '' '']) (n @ CHR '' '' # (''hdr(host) -i'' @ rev (dropWhile is_ws (rev ('' '' @ d)))))"
    by (simp add: acl_marker_def)
  also have "\<dots> \<longleftrightarrow> m = n"
    by (rule prefix_delim) (simp_all add: word_no_space assms)
  finally show ?thesis .
qed

lemma marker_other_lines:
  "\<not> prefix (acl_marker m) (trim (use_line n))"
  "l \<in> set (backend_lines n) \<Longrightarrow> \<not> prefix (acl_marker m) (trim l)"
proof -
  have "use_line n = indent @ ''use_backend'' @ ('' '' @ n @ '' if host_'' @ n)" by (simp add: use_line_def)
  then have "trim (use_line n) = ''use_backend'' @ rev (dropWhile is_ws (rev ('' '' @ n @ '' if host_'' @ n)))"
    using trim_visible [of "''use_backend''"] by (simp add: is_ws_def)
  then show "\<not> prefix (acl_marker m) (trim (use_line n))" by (simp add: acl_marker_def)
  have "trim (''backend '' @ n) = ''backend'' @ rev (dropWhile is_ws (rev ('' '' @ n)))"
    using trim_visible [of "''backend''" "'' '' @ n"] by (simp add: is_ws_def)
  then have "\<not> prefix (acl_marker m) (trim (''backend '' @ n))" by (simp add: acl_marker_def)
  then show "\<not> prefix (acl_marker m) (trim l)" if "l \<in> set (backend_lines n)"
    using that
    by (auto simp: backend_lines_def) (auto simp: acl_marker_def trim_def is_ws_def)
qed

lemma marker_backend_lines: "\<not> list_ex (\<lambda>l. prefix (acl_marker m) (trim l)) (backend_lines n)"
  by (auto simp: list_ex_iff marker_other_lines)

lemma exists_after_add:
  assumes "add_service_text c n d = Some c'" "CR \<notin> set c" "word n" "plain_line d" "word m"
  shows "service_exists c' m \<longleftrightarrow> service_exists c m \<or> m = n"
proof -
  obtain k where k: "str_lines c' = take k (str_lines c) @ [acl_line n d, use_line n] @
      drop k (str_lines c) @ backend_lines n"
    using add_service_lines [OF assms(1-4)] by metis
  have "list_ex P (take k (str_lines c) @ drop k (str_lines c)) = list_ex P (str_lines c)" for P
    by simp
  then show ?thesis
    using marker_acl_line [OF assms(3,5)] marker_other_lines(1) marker_backend_lines
    by (auto simp: service_exists_def k simp del: append_take_drop_id)
qed

text \<open>A routing rule remains for the next service.\<close>

lemma routing_after_add:
  assumes "add_service_text c n d = Some c'" "CR \<notin> set c" "word n" "plain_line d"
  shows "\<exists>l \<in> set (str_lines c'). is_routing l" "CR \<notin> set c'"
proof -
  obtain k where k: "position is_routing (str_lines c) = Some k"
    "str_lines c' = take k (str_lines c) @ [acl_line n d, use_line n] @
      drop k (str_lines c) @ backend_lines n" "c' = unlines (str_lines c')"
    using add_service_lines [OF assms] by metis
  then have "is_routing (str_lines c ! k)" "k < length (str_lines c)" using position_Some by auto
  then have "str_lines c ! k \<in> set (drop k (str_lines c))" by (metis Cons_nth_drop_Suc list.set_intros(1))
  with \<open>is_routing (str_lines c ! k)\<close> show "\<exists>l \<in> set (str_lines c'). is_routing l"
    unfolding k(2) by auto
  have "CR \<notin> set l" if "l \<in> set (str_lines c')" for l
  proof -
    have "CR \<notin> set l" if "l \<in> set (str_lines c)" using that assms(2) str_lines_no_CR by blast
    moreover have "plain_line l" if "l \<in> {acl_line n d, use_line n} \<union> set (backend_lines n)"
      using that assms(4) word_plain [OF assms(3)] backend_lines_plain [of n]
      by (auto simp: acl_line_def use_line_def list_all_iff)
    ultimately show ?thesis using that unfolding k(2)
      by (auto simp: plain_line_def dest: in_set_takeD in_set_dropD)
  qed
  then show "CR \<notin> set c'" by (subst k(3)) (auto simp: unlines_def)
qed

subsection \<open>Which domain goes where\<close>

text \<open>
  The file routes a domain to a backend: a rule that sends the requests accepted by the name's
  condition to the backend of that name, with the condition on this domain above it, both before
  the catch-all.
\<close>

definition domain_routed :: "string \<Rightarrow> string \<Rightarrow> string \<Rightarrow> bool" where
  "domain_routed content service_name domain \<longleftrightarrow>
     (\<exists>ls rs. str_lines content = ls @ use_line service_name # rs \<and>
        acl_line service_name domain \<in> set ls \<and>
        (\<forall>l \<in> set ls. \<not> prefix ''default_backend'' (trim l)))"

lemma trim_rule_lines:
  "\<not> prefix ''default_backend'' (trim (acl_line n d))" "\<not> prefix ''default_backend'' (trim (use_line n))"
  "is_routing (use_line n)"
proof -
  have "acl_line n d = indent @ ''acl'' @ ('' host_'' @ n @ '' hdr(host) -i'' @ '' '' @ d)" by (simp add: acl_line_def)
  then have "trim (acl_line n d) = ''acl'' @ rev (dropWhile is_ws (rev ('' host_'' @ n @ '' hdr(host) -i'' @ '' '' @ d)))"
    using trim_visible [of "''acl''"] by (simp add: is_ws_def)
  then show "\<not> prefix ''default_backend'' (trim (acl_line n d))" by simp
  have "use_line n = indent @ ''use_backend'' @ ('' '' @ n @ '' if host_'' @ n)" by (simp add: use_line_def)
  then have "trim (use_line n) = ''use_backend'' @ rev (dropWhile is_ws (rev ('' '' @ n @ '' if host_'' @ n)))"
    using trim_visible [of "''use_backend''"] by (simp add: is_ws_def)
  then show "\<not> prefix ''default_backend'' (trim (use_line n))" "is_routing (use_line n)"
    by (simp_all add: is_routing_def)
qed

lemma domain_routed_after_add:
  assumes "add_service_text c n d = Some c'" "CR \<notin> set c" "word n" "plain_line d"
  shows "domain_routed c' n d"
proof -
  obtain k where p: "position is_routing (str_lines c) = Some k"
    and k: "str_lines c' = take k (str_lines c) @ [acl_line n d, use_line n] @
      drop k (str_lines c) @ backend_lines n"
    using add_service_lines [OF assms] by metis
  have len: "k < length (str_lines c)" using position_Some [OF p] by simp
  have "\<not> prefix ''default_backend'' (trim l)" if "l \<in> set (take k (str_lines c))" for l
    using that position_before [OF p] len by (auto simp: in_set_conv_nth is_routing_def)
  then show ?thesis
    unfolding domain_routed_def
    by (intro exI [of _ "take k (str_lines c) @ [acl_line n d]"] exI [of _ "drop k (str_lines c) @ backend_lines n"])
      (auto simp: k trim_rule_lines)
qed

lemma domain_routed_kept:
  assumes "domain_routed c n d" "add_service_text c m e = Some c'" "CR \<notin> set c" "word m" "plain_line e"
  shows "domain_routed c' n d"
proof -
  obtain ls rs where r: "str_lines c = ls @ use_line n # rs" "acl_line n d \<in> set ls"
    "\<forall>l \<in> set ls. \<not> prefix ''default_backend'' (trim l)"
    using assms(1) by (auto simp: domain_routed_def)
  obtain k where p: "position is_routing (str_lines c) = Some k"
    and k: "str_lines c' = take k (str_lines c) @ [acl_line m e, use_line m] @
      drop k (str_lines c) @ backend_lines m"
    using add_service_lines [OF assms(2-5)] by metis
  have "k \<le> length ls"
    using position_before [OF p, of "length ls"] r(1) trim_rule_lines(3) by (cases "length ls < k") auto
  then have "str_lines c' = (take k ls @ [acl_line m e, use_line m] @ drop k ls) @ use_line n # (rs @ backend_lines m)"
    by (simp add: k r(1))
  moreover have "set (take k ls) \<union> set (drop k ls) = set ls" by (metis append_take_drop_id set_append)
  ultimately show ?thesis
    unfolding domain_routed_def using r(2,3) trim_rule_lines
    by (intro exI [of _ "take k ls @ [acl_line m e, use_line m] @ drop k ls"] exI [of _ "rs @ backend_lines m"]) auto
qed

subsection \<open>The contract of a service registry\<close>

text \<open>
  What the rest of the program relies on: registering a service makes it exist and affects no other
  service, and registering it again changes nothing.
\<close>

locale service_registry =
  fixes has :: "'c \<Rightarrow> 'n \<Rightarrow> bool" and ensure :: "'n \<times> 'd \<Rightarrow> 'c \<Rightarrow> 'c"
    and name_ok :: "'n \<Rightarrow> bool" and arg_ok :: "'d \<Rightarrow> bool" and inv :: "'c \<Rightarrow> bool"
  assumes has_ensure: "inv c \<Longrightarrow> name_ok n \<Longrightarrow> arg_ok d \<Longrightarrow> name_ok m \<Longrightarrow>
      has (ensure (n, d) c) m \<longleftrightarrow> has c m \<or> m = n"
    and ensure_present: "has c n \<Longrightarrow> ensure (n, d) c = c"
    and inv_ensure: "inv c \<Longrightarrow> name_ok n \<Longrightarrow> arg_ok d \<Longrightarrow> inv (ensure (n, d) c)"
begin

definition jobs_ok :: "('n \<times> 'd) list \<Rightarrow> bool" where
  "jobs_ok jobs \<longleftrightarrow> (\<forall>(n, d) \<in> set jobs. name_ok n \<and> arg_ok d)"

lemma has_ensure_all:
  "inv c \<Longrightarrow> jobs_ok jobs \<Longrightarrow> name_ok m \<Longrightarrow>
     has (fold ensure jobs c) m \<longleftrightarrow> has c m \<or> m \<in> fst ` set jobs"
  by (induction jobs arbitrary: c) (force simp: jobs_ok_def has_ensure inv_ensure)+

lemma ensure_all_present: "(\<forall>n \<in> fst ` set jobs. has c n) \<Longrightarrow> fold ensure jobs c = c"
  by (induction jobs) (auto simp: ensure_present)

text \<open>Registering a whole list again is a no-op.\<close>

lemma ensure_all_idem:
  assumes "inv c" "jobs_ok jobs"
  shows "fold ensure jobs (fold ensure jobs c) = fold ensure jobs c"
proof (rule ensure_all_present, rule ballI)
  fix n assume n: "n \<in> fst ` set jobs"
  then have "name_ok n" using assms(2) by (auto simp: jobs_ok_def)
  with n show "has (fold ensure jobs c) n" using has_ensure_all [OF assms] by simp
qed

end

text \<open>The text of the configuration as a registry.\<close>

definition ensure_text :: "string \<times> string \<Rightarrow> string \<Rightarrow> string" where
  "ensure_text nd c =
     (if service_exists c (fst nd) then c
      else case add_service_text c (fst nd) (snd nd) of None \<Rightarrow> c | Some c' \<Rightarrow> c')"

definition cfg_ok :: "string \<Rightarrow> bool" where
  "cfg_ok c \<longleftrightarrow> CR \<notin> set c \<and> (\<exists>l \<in> set (str_lines c). is_routing l)"

lemma cfg_ok_add: "cfg_ok c \<Longrightarrow> \<exists>c'. add_service_text c n d = Some c'"
  using position_None [of is_routing "str_lines c"]
  by (cases "position is_routing (str_lines c)") (auto simp: cfg_ok_def add_service_text_eq)

interpretation cfg: service_registry service_exists ensure_text word plain_line cfg_ok
proof unfold_locales
  fix c n d m
  assume "cfg_ok c" "word n" "plain_line d" "word m"
  moreover obtain c' where "add_service_text c n d = Some c'" using \<open>cfg_ok c\<close> cfg_ok_add by blast
  ultimately show "service_exists (ensure_text (n, d) c) m \<longleftrightarrow> service_exists c m \<or> m = n"
    using exists_after_add [of c n d c' m] by (auto simp: ensure_text_def cfg_ok_def)
next
  fix c n d
  assume "cfg_ok c" "word n" "plain_line d"
  moreover obtain c' where "add_service_text c n d = Some c'" using \<open>cfg_ok c\<close> cfg_ok_add by blast
  ultimately show "cfg_ok (ensure_text (n, d) c)"
    using routing_after_add [of c n d c'] by (simp add: ensure_text_def cfg_ok_def)
qed (simp add: ensure_text_def)

text \<open>Ensuring a service routes its domain when it is new, and keeps what was routed.\<close>

lemma routed_after_ensure:
  assumes "cfg_ok c" "word n" "plain_line d"
  shows "\<not> service_exists c n \<Longrightarrow> domain_routed (ensure_text (n, d) c) n d"
    and "domain_routed c m e \<Longrightarrow> domain_routed (ensure_text (n, d) c) m e"
proof -
  obtain c' where c': "add_service_text c n d = Some c'" using cfg_ok_add [OF assms(1)] by blast
  have "CR \<notin> set c" using assms(1) by (simp add: cfg_ok_def)
  note cr = this
  show "\<not> service_exists c n \<Longrightarrow> domain_routed (ensure_text (n, d) c) n d"
    using domain_routed_after_add [OF c' cr assms(2,3)] c' by (simp add: ensure_text_def)
  show "domain_routed c m e \<Longrightarrow> domain_routed (ensure_text (n, d) c) m e"
    using domain_routed_kept [OF _ c' cr assms(2,3)] c' by (simp add: ensure_text_def)
qed

subsection \<open>Effects on the file\<close>

text \<open>
  The file system at its documented behaviour: \<open>file\<close> is the content of the configuration file. A
  read that succeeds returns it; a write that succeeds replaces it, and nothing is known of the file
  after a write that fails, which may have emptied it or left a part of the text. Neither the check
  nor the reload touches it, and nothing else writes it meanwhile.
\<close>

definition config_files :: "'h host \<Rightarrow> ('h \<Rightarrow> string) \<Rightarrow> bool" where
  "config_files x file \<longleftrightarrow>
     (\<forall>h. file (snd (h_read_cfg x h)) = file h) \<and>
     (\<forall>h c. fst (h_read_cfg x h) = Inr c \<longrightarrow> c = file h) \<and>
     (\<forall>t h. fst (h_write_cfg x t h) = Inr () \<longrightarrow> file (snd (h_write_cfg x t h)) = t) \<and>
     (\<forall>h. file (snd (h_check_cfg x h)) = file h) \<and>
     (\<forall>h. file (snd (h_read_pid x h)) = file h) \<and>
     (\<forall>pid h. file (snd (h_sigusr2 x pid h)) = file h)"

lemma file_read:
  "config_files x file \<Longrightarrow> read_config x h = (r, h') \<Longrightarrow>
     file h' = file h \<and> (\<forall>c. r = Inr c \<longrightarrow> c = file h) \<and> (\<forall>e. r = Inl e \<longrightarrow> (\<exists>m. e = Io m))"
  unfolding config_files_def read_config_def
  by (cases "h_read_cfg x h"; cases "fst (h_read_cfg x h)") (auto simp: map_errE_def, (metis fst_conv snd_conv)+)

lemma file_write:
  "config_files x file \<Longrightarrow> write_config x t h = (r, h') \<Longrightarrow>
     (\<forall>u. r = Inr u \<longrightarrow> file h' = t) \<and> (\<forall>e. r = Inl e \<longrightarrow> (\<exists>m. e = Io m \<and> h_write_cfg x t h = (Inl m, h')))"
  unfolding config_files_def write_config_def
  by (cases "h_write_cfg x t h"; cases "fst (h_write_cfg x t h)") (auto simp: map_errE_def, (metis fst_conv snd_conv)+)

lemma file_validate:
  "config_files x file \<Longrightarrow> validate_config x h = (r, h') \<Longrightarrow>
     file h' = file h \<and> (\<forall>m. r \<noteq> Inl (ReloadFailed m)) \<and> r \<noteq> Inl FrontendNotFound"
  unfolding config_files_def
  by (auto simp: validate_config_def tryE_def map_errE_def okE_def errE_def
      split: prod.splits sum.splits if_splits) (metis snd_conv)+

lemma file_reload:
  "config_files x file \<Longrightarrow> reload_haproxy x h = (r, h') \<Longrightarrow>
     file h' = file h \<and> (\<forall>e. r = Inl e \<longrightarrow> (\<exists>m. e = ReloadFailed m))"
  unfolding config_files_def
  by (auto simp: reload_haproxy_def tryE_def map_errE_def okE_def errE_def
      split: prod.splits sum.splits option.splits) (metis snd_conv)+

text \<open>How an edit may end with an input or output error: the file as it was, or after the write of
  the new or of the old content that failed.\<close>

definition write_failed :: "'h host \<Rightarrow> string \<Rightarrow> string \<Rightarrow> io_error \<Rightarrow> 'h \<Rightarrow> bool" where
  "write_failed x c new m h' \<longleftrightarrow> (\<exists>t h1. t \<in> {new, c} \<and> h_write_cfg x t h1 = (Inl m, h'))"

lemma write_failedI:
  "h_write_cfg x t h1 = (Inl m, h') \<Longrightarrow> t = new \<or> t = c \<Longrightarrow> write_failed x c new m h'"
  by (auto simp: write_failed_def)

lemma commit_config_spec:
  assumes "config_files x file" "commit_config x c new h = (r, h')"
  shows "case r of
      Inr _ \<Rightarrow> file h' = new
    | Inl (ReloadFailed _) \<Rightarrow> file h' = new
    | Inl FrontendNotFound \<Rightarrow> False
    | Inl (ValidationFailed _) \<Rightarrow> file h' = c
    | Inl (Io m) \<Rightarrow> file h' = c \<or> write_failed x c new m h'"
proof -
  obtain q1 h1 where w: "write_config x new h = (q1, h1)" by (cases "write_config x new h")
  note fw = file_write [OF assms(1) w]
  show ?thesis
  proof (cases q1)
    case (Inl e)
    with w assms(2) have "r = Inl e" "h' = h1" by (auto simp: commit_config_def)
    with fw Inl show ?thesis by (auto intro: write_failedI)
  next
    case (Inr u)
    with fw have f1: "file h1 = new" by simp
    obtain v h2 where v: "validate_config x h1 = (v, h2)" by (cases "validate_config x h1")
    note fv = file_validate [OF assms(1) v]
    show ?thesis
    proof (cases v)
      case (Inl e)
      obtain q3 h3 where b: "write_config x c h2 = (q3, h3)" by (cases "write_config x c h2")
      note fb = file_write [OF assms(1) b]
      show ?thesis
      proof (cases q3)
        case (Inl e')
        with \<open>v = Inl e\<close> \<open>q1 = Inr u\<close> b w v assms(2) have "r = Inl e'" "h' = h3"
          by (auto simp: commit_config_def)
        with fb Inl show ?thesis by (auto intro: write_failedI)
      next
        case (Inr u')
        with \<open>v = Inl e\<close> \<open>q1 = Inr u\<close> b w v assms(2) have "r = Inl e" "h' = h3"
          by (auto simp: commit_config_def errE_def)
        with fb Inr fv \<open>v = Inl e\<close> show ?thesis by (auto split: config_error.splits)
      qed
    next
      case (Inr u')
      obtain q h3 where q: "reload_haproxy x h2 = (q, h3)" by (cases "reload_haproxy x h2")
      from file_reload [OF assms(1) q] show ?thesis
        using Inr \<open>q1 = Inr u\<close> w v q assms(2) fv f1
        by (cases q) (auto simp: commit_config_def okE_def)
    qed
  qed
qed

text \<open>A host for the witnesses: a file and a count of the reloads.\<close>

definition plain_host :: "bool \<Rightarrow> bool \<Rightarrow> (string \<times> nat) host" where
  "plain_host check_ok kill_ok = \<lparr>
     h_read_cfg = (\<lambda>h. (Inr (fst h), h)),
     h_write_cfg = (\<lambda>t h. (Inr (), (t, snd h))),
     h_check_cfg = (\<lambda>h. (Inr (check_ok, ''bad''), h)),
     h_pid_path = ''/run/haproxy/haproxy.pid'',
     h_read_pid = (\<lambda>h. (Inr ''17'', h)),
     h_sigusr2 = (\<lambda>pid h. if kill_ok then (Inr (), (fst h, Suc (snd h))) else (Inl ''no such process'', h)),
     h_socket = (\<lambda>cmd h. (Inr [], h))\<rparr>"

lemma plain_host_files: "config_files (plain_host a b) fst"
  by (simp add: config_files_def plain_host_def)

subsection \<open>Removal undoes addition\<close>

text \<open>The flag of the removal loop after some lines.\<close>

fun in_section :: "string \<Rightarrow> bool \<Rightarrow> string list \<Rightarrow> bool" where
  "in_section n b [] = b"
| "in_section n b (l # ls) = in_section n (if starts_section l then trim l = backend_header n else b) ls"

definition line_of_service :: "string \<Rightarrow> string \<Rightarrow> bool" where
  "line_of_service n l \<longleftrightarrow>
     prefix (indent @ ''acl host_'' @ n @ '' '') l \<or> prefix (indent @ ''use_backend '' @ n @ '' '') l \<or>
     (starts_section l \<and> trim l = backend_header n)"

lemma remove_lines_append:
  "remove_lines n b (xs @ ys) = remove_lines n b xs @ remove_lines n (in_section n b xs) ys"
  by (induction xs arbitrary: b) (simp_all add: Let_def)

lemma remove_lines_clean:
  "\<forall>l \<in> set ls. \<not> line_of_service n l \<Longrightarrow> remove_lines n False ls = ls \<and> \<not> in_section n False ls"
  by (induction ls) (auto simp: line_of_service_def Let_def)

lemma not_section_indented [simp]: "\<not> starts_section (indent @ s)"
  by (simp add: starts_section_def indent_def)

lemma trim_header: "word n \<Longrightarrow> trim (''backend '' @ n) = backend_header n"
  using trim_id [of "''backend '' @ n"] word_ends [of n] by (simp add: backend_header_def is_ws_def)

lemma remove_service_lines:
  assumes "word n"
  shows "remove_lines n False [acl_line n d, use_line n] = []"
    "\<not> in_section n False [acl_line n d, use_line n]"
    "remove_lines n False (backend_lines n) = [[]]"
proof -
  have "prefix (indent @ ''acl host_'' @ n @ '' '') (acl_line n d)"
    "prefix (indent @ ''use_backend '' @ n @ '' '') (use_line n)"
    by (simp_all add: acl_line_def use_line_def)
  moreover have "\<not> starts_section (acl_line n d)" "\<not> starts_section (use_line n)"
    by (simp_all add: acl_line_def use_line_def)
  ultimately show "remove_lines n False [acl_line n d, use_line n] = []"
    "\<not> in_section n False [acl_line n d, use_line n]" by simp_all
  have "starts_section (''backend '' @ n)" "\<not> starts_section []"
    by (simp_all add: starts_section_def)
  moreover have "\<not> prefix (indent @ ''acl host_'' @ n @ '' '') []" "\<not> prefix (indent @ ''use_backend '' @ n @ '' '') []"
    by (simp_all add: indent_def)
  ultimately show "remove_lines n False (backend_lines n) = [[]]"
    using trim_header [OF assms] by (simp add: backend_lines_def del: append.simps append_assoc)
qed


subsection \<open>Properties\<close>

lemma add_service_outcome:
  assumes "config_files x file" and "add_service x n d h = (r, h')"
  shows "case r of
      Inr _ \<Rightarrow> file h' = ensure_text (n, d) (file h) \<and>
        (service_exists (file h) n \<longrightarrow> read_config x h = (Inr (file h), h'))
    | Inl FrontendNotFound \<Rightarrow> read_config x h = (Inr (file h), h') \<and>
        (\<forall>l \<in> set (str_lines (file h)). \<not> is_routing l)
    | Inl (ReloadFailed _) \<Rightarrow> \<not> service_exists (file h) n \<and> add_service_text (file h) n d = Some (file h')
    | Inl (ValidationFailed _) \<Rightarrow> file h' = file h
    | Inl (Io m) \<Rightarrow> file h' = file h \<or>
        \<not> service_exists (file h) n \<and>
        (\<exists>new. add_service_text (file h) n d = Some new \<and> write_failed x (file h) new m h')"
proof -
  obtain q h1 where q: "read_config x h = (q, h1)" by (cases "read_config x h")
  note fr = file_read [OF assms(1) q]
  show ?thesis
  proof (cases q)
    case (Inl e)
    with fr q assms(2) show ?thesis by (auto simp: add_service_def)
  next
    case (Inr c)
    with fr have c: "c = file h" "file h1 = file h" by simp_all
    consider (there) "service_exists (file h) n"
      | (none) "\<not> service_exists (file h) n" "add_service_text (file h) n d = None"
      | (new) new where "\<not> service_exists (file h) n" "add_service_text (file h) n d = Some new"
      by (cases "add_service_text (file h) n d") auto
    then show ?thesis
    proof cases
      case there
      with Inr q c assms(2) show ?thesis by (auto simp: add_service_def okE_def ensure_text_def)
    next
      case none
      then have "position is_routing (str_lines (file h)) = None"
        by (auto simp: add_service_text_eq split: option.splits)
      with none Inr q c assms(2) show ?thesis by (auto simp: add_service_def errE_def position_None)
    next
      case new
      with Inr q c assms(2) have "commit_config x (file h) new h1 = (r, h')" by (simp add: add_service_def)
      from commit_config_spec [OF assms(1) this] show ?thesis
        using new by (auto simp: ensure_text_def split: sum.splits config_error.splits)
    qed
  qed
qed

text \<open>C22 What \<open>add_service\<close> does to the file, on every outcome, as long as nothing else writes it:
  on success the file is the edited text, and nothing but a read was done when the service was there
  already; when the check fails the previous content is restored; when the frontend is missing
  nothing but a read was done; only when the reload fails is the edited text left behind. An input or
  output error leaves the file as it was, unless it is the writing of the new or of the restored
  content that failed: then the file is what that failed write left, which may be anything.\<close>

theorem add_service_file:
  assumes "config_files x file" and "add_service x n d h = (r, h')"
  shows "case r of
      Inr _ \<Rightarrow> file h' = ensure_text (n, d) (file h) \<and>
        (service_exists (file h) n \<longrightarrow> read_config x h = (Inr (file h), h'))
    | Inl FrontendNotFound \<Rightarrow> read_config x h = (Inr (file h), h') \<and>
        (\<forall>l \<in> set (str_lines (file h)). \<not> is_routing l)
    | Inl (ReloadFailed _) \<Rightarrow> \<not> service_exists (file h) n \<and> add_service_text (file h) n d = Some (file h')
    | Inl (ValidationFailed _) \<Rightarrow> file h' = file h
    | Inl (Io m) \<Rightarrow> file h' = file h \<or>
        \<not> service_exists (file h) n \<and>
        (\<exists>new. add_service_text (file h) n d = Some new \<and> write_failed x (file h) new m h')"
  using assms by (rule add_service_outcome)

theorem add_service_file_witness:
  "fst (snd (add_service (plain_host True True) ''svc_a'' ''a.org'' (''default_backend v'', 0)))
     = ensure_text (''svc_a'', ''a.org'') ''default_backend v'' \<and>
   fst (snd (add_service (plain_host False True) ''svc_a'' ''a.org'' (''default_backend v'', 0)))
     = ''default_backend v''"
proof -
  let ?h = "(''default_backend v'', 0) :: string \<times> nat"
  have lines: "str_lines ''default_backend v'' = [''default_backend v'']"
    by (rule str_lines_last) simp_all
  have t: "\<not> service_exists ''default_backend v'' ''svc_a''"
      "\<exists>t. add_service_text ''default_backend v'' ''svc_a'' ''a.org'' = Some t"
    by (auto simp: lines service_exists_def acl_marker_def trim_def is_ws_def add_service_text_eq is_routing_def)
  then obtain t where t': "add_service_text ''default_backend v'' ''svc_a'' ''a.org'' = Some t" by blast
  obtain r1 h1 where 1: "add_service (plain_host True True) ''svc_a'' ''a.org'' ?h = (r1, h1)"
    by (cases "add_service (plain_host True True) ''svc_a'' ''a.org'' ?h")
  obtain r2 h2 where 2: "add_service (plain_host False True) ''svc_a'' ''a.org'' ?h = (r2, h2)"
    by (cases "add_service (plain_host False True) ''svc_a'' ''a.org'' ?h")
  have "\<exists>u. r1 = Inr u" and "r2 = Inl (ValidationFailed (trim ''bad''))"
    using 1 2 t t' by (auto simp: add_service_def read_config_def plain_host_def commit_config_def write_config_def
      validate_config_def reload_haproxy_def okE_def errE_def tryE_def map_errE_def parse_u32_def trim_def
      is_ws_def is_digit_def read_digits_def digit_val_def)
  then show ?thesis
    using add_service_file [OF plain_host_files 1] add_service_file [OF plain_host_files 2] 1 2
    by auto
qed

text \<open>A reload that fails is never made up for: when \<open>add_service\<close> returns a reload error, the
  edited text stays in the file, so the next call for the same service, whatever its domain, only
  reads the file: it returns success without any reload (or the error of that read), although the
  running HAProxy never read the edited text.\<close>

theorem failed_reload_not_retried:
  assumes "config_files x file" and "CR \<notin> set (file h)" and "word n" and "plain_line d"
    and "add_service x n d h = (Inl (ReloadFailed m), h')"
  shows "add_service x n d' h' = (case read_config x h' of (Inr _, h'') \<Rightarrow> (Inr (), h'') | (Inl e, h'') \<Rightarrow> (Inl e, h''))"
proof -
  have t: "add_service_text (file h) n d = Some (file h')"
    using add_service_outcome [OF assms(1,5)] by simp
  have e: "service_exists (file h') n"
    using exists_after_add [OF t assms(2-4,3)] by simp
  obtain q h'' where q: "read_config x h' = (q, h'')" by (cases "read_config x h'")
  with file_read [OF assms(1) q] e show ?thesis by (cases q) (auto simp: add_service_def okE_def)
qed

lemma default_backend_cfg: "cfg_ok ''default_backend v''"
  by (simp add: cfg_ok_def str_lines_last is_routing_def trim_def is_ws_def)

theorem failed_reload_not_retried_witness:
  "\<exists>m h'. add_service (plain_host True False) ''svc_a'' ''a.org'' (''default_backend v'', 0) = (Inl (ReloadFailed m), h') \<and>
     add_service (plain_host True False) ''svc_a'' ''a.org'' h' = (Inr (), h')"
proof -
  let ?x = "plain_host True False" and ?h = "(''default_backend v'', 0) :: string \<times> nat"
  have "str_lines ''default_backend v'' = [''default_backend v'']" by (rule str_lines_last) simp_all
  then have t: "\<not> service_exists ''default_backend v'' ''svc_a''"
    by (simp add: service_exists_def acl_marker_def trim_def is_ws_def)
  obtain c' where c': "add_service_text ''default_backend v'' ''svc_a'' ''a.org'' = Some c'"
    using cfg_ok_add [OF default_backend_cfg] by blast
  have "\<exists>m h'. add_service ?x ''svc_a'' ''a.org'' ?h = (Inl (ReloadFailed m), h')"
    using t c' by (simp add: add_service_def read_config_def plain_host_def commit_config_def write_config_def
      validate_config_def reload_haproxy_def okE_def tryE_def map_errE_def parse_u32_def trim_def
      is_ws_def is_digit_def read_digits_def digit_val_def)
  then obtain m h' where r: "add_service ?x ''svc_a'' ''a.org'' ?h = (Inl (ReloadFailed m), h')" by blast
  have "add_service ?x ''svc_a'' ''a.org'' h' = (Inr (), h')"
    using failed_reload_not_retried [OF plain_host_files _ _ _ r, of "''a.org''"]
    by (simp add: word_def is_ws_def plain_line_def read_config_def plain_host_def)
  with r show ?thesis by blast
qed

text \<open>C23 Round trip: removing a service that was just added gives the file back line by line, for
  any file that has no line of that service (and no carriage returns), and the removed text ends
  every line with a newline.\<close>

theorem remove_undoes_add:
  assumes "add_service_text c n d = Some c'" and "CR \<notin> set c" and "word n" and "plain_line d"
    and "\<forall>l \<in> set (str_lines c). \<not> line_of_service n l"
  shows "remove_service_text c' n = unlines (str_lines c) \<and> str_lines (remove_service_text c' n) = str_lines c"
proof -
  obtain k where k: "str_lines c' = take k (str_lines c) @ [acl_line n d, use_line n] @
      drop k (str_lines c) @ backend_lines n"
    using add_service_lines [OF assms(1-4)] by metis
  have "\<forall>l \<in> set (take k (str_lines c)). \<not> line_of_service n l"
    "\<forall>l \<in> set (drop k (str_lines c)). \<not> line_of_service n l"
    using assms(5) by (auto dest: in_set_takeD in_set_dropD)
  note clean = this [THEN remove_lines_clean]
  have "remove_lines n False (str_lines c') = take k (str_lines c) @ drop k (str_lines c) @ [[]]"
    unfolding k using clean remove_service_lines [OF assms(3)]
    by (simp only: remove_lines_append) simp
  then have "remove_service_text c' n = unlines (str_lines c)"
    by (simp add: remove_service_text_def join_nl_snoc append_assoc [symmetric] del: append_assoc)
  moreover have "str_lines (unlines (str_lines c)) = str_lines c"
    using str_lines_unlines [OF str_lines_plain [OF assms(2)], of "[]"] by simp
  ultimately show ?thesis by simp
qed

theorem remove_undoes_add_witness:
  "map_option (\<lambda>c. remove_service_text c ''svc_a'') (add_service_text ''default_backend v'' ''svc_a'' ''a.org'')
     = Some (unlines [''default_backend v''])"
proof -
  obtain c' where c': "add_service_text ''default_backend v'' ''svc_a'' ''a.org'' = Some c'"
    using cfg_ok_add [OF default_backend_cfg] by blast
  have l: "str_lines ''default_backend v'' = [''default_backend v'']" by (rule str_lines_last) simp_all
  have "remove_service_text c' ''svc_a'' = unlines (str_lines ''default_backend v'')"
    using remove_undoes_add [OF c']
    by (simp add: l word_def is_ws_def plain_line_def line_of_service_def starts_section_def indent_def
        backend_header_def trim_def)
  with c' l show ?thesis by simp
qed



text \<open>Names and domains are not sanitised: a domain that contains a newline puts any line of the
  caller's choice into the configuration.\<close>

theorem domain_injects_lines:
  assumes "cfg_ok c" and "plain_line n" and "plain_line d" and "plain_line l" and "l \<noteq> []"
  shows "\<exists>c'. add_service_text c n (d @ NL # l) = Some c' \<and> l \<in> set (str_lines c')"
proof -
  obtain c' k where c': "add_service_text c n (d @ NL # l) = Some c'"
    and eq: "c' = unlines (take k (str_lines c) @ [acl_line n (d @ NL # l), use_line n] @
                          drop k (str_lines c) @ backend_lines n)"
    using cfg_ok_add [OF assms(1), of n "d @ NL # l"] by (auto simp: add_service_text_eq split: option.splits)
  have "list_all plain_line (take k (str_lines c))"
    using str_lines_plain [of c] assms(1) by (metis append_take_drop_id cfg_ok_def list_all_append)
  moreover have "unlines [acl_line n (d @ NL # l)] = unlines [acl_line n d, l]"
    by (simp add: acl_line_def)
  ultimately have "str_lines c' = take k (str_lines c) @ [acl_line n d, l] @
      str_lines (unlines (use_line n # drop k (str_lines c) @ backend_lines n))"
    using str_lines_unlines [of "take k (str_lines c) @ [acl_line n d, l]"] assms(2-4)
    by (simp add: eq acl_line_def)
  with c' show ?thesis by auto
qed

theorem domain_injects_lines_witness:
  "\<exists>c'. add_service_text ''default_backend v'' ''svc_a'' (''a.org'' @ NL # ''    use_backend evil if TRUE'') = Some c' \<and>
     ''    use_backend evil if TRUE'' \<in> set (str_lines c')"
  by (rule domain_injects_lines [OF default_backend_cfg]) (simp_all add: plain_line_def)

end
