(* ===== verification/Config_Lock.thy ===== *)
theory Config_Lock
  imports Haproxy_Config
begin

text \<open>
  The lock of \<^verbatim>\<open>haproxy-manager/src/config.rs\<close>: any number of \<^verbatim>\<open>add_service\<close> and
  \<^verbatim>\<open>remove_service\<close> at once, each cut at its awaits. What the other theories assume when they treat
  an edit as one operation is proved here: the edits take effect one after the other, in the order in
  which they asked for the lock, also when commands for the running HAProxy come between their steps.
  A caller that is dropped in the middle of its edit is the exception.
\<close>

subsection \<open>An edit, step by step\<close>

datatype edit = Adding string string | Removing string

type_synonym edit_result = "config_error + unit"

datatype edit_pc =
  Reading edit
| Writing string string            \<comment> \<open>the old text, the new one\<close>
| Validating string
| Restoring string config_error
| Reloading
| Settling

text \<open>What the text that was read is turned into, or the answer when nothing is to be written.\<close>

fun edit_text :: "edit \<Rightarrow> string \<Rightarrow> edit_result + string" where
  "edit_text (Adding service_name domain) content =
     (if service_exists content service_name then Inl (Inr ())
      else case add_service_text content service_name domain of
             None \<Rightarrow> Inl (Inl FrontendNotFound)
           | Some new_content \<Rightarrow> Inr new_content)"
| "edit_text (Removing service_name) content =
     (if \<not> service_exists content service_name then Inl (Inr ())
      else Inr (remove_service_text content service_name))"

text \<open>One step of the edit that holds the lock, from one await to the next.\<close>

fun edit_advance :: "'h host \<Rightarrow> edit_pc \<Rightarrow> 'h \<Rightarrow> (edit_pc + edit_result) \<times> 'h" where
  "edit_advance x (Reading e) h =
     (case read_config x h of
        (Inl er, h) \<Rightarrow> (Inr (Inl er), h)
      | (Inr content, h) \<Rightarrow>
          (case edit_text e content of Inl r \<Rightarrow> (Inr r, h) | Inr new_content \<Rightarrow> (Inl (Writing content new_content), h)))"
| "edit_advance x (Writing content new_content) h =
     (case write_config x new_content h of
        (Inl er, h) \<Rightarrow> (Inr (Inl er), h)
      | (Inr _, h) \<Rightarrow> (Inl (Validating content), h))"
| "edit_advance x (Validating content) h =
     (case validate_config x h of
        (Inl er, h) \<Rightarrow> (Inl (Restoring content er), h)
      | (Inr _, h) \<Rightarrow> (Inl Reloading, h))"
| "edit_advance x (Restoring content er) h =
     (case write_config x content h of (Inl er', h) \<Rightarrow> (Inr (Inl er'), h) | (Inr _, h) \<Rightarrow> (Inr (Inl er), h))"
| "edit_advance x Reloading h =
     (case reload_haproxy x h of (Inl er, h) \<Rightarrow> (Inr (Inl er), h) | (Inr _, h) \<Rightarrow> (Inl Settling, h))"
| "edit_advance x Settling h = (Inr (Inr ()), h)"

fun edit_rank :: "edit_pc \<Rightarrow> nat" where
  "edit_rank (Reading e) = 5"
| "edit_rank (Writing c n) = 4"
| "edit_rank (Validating c) = 3"
| "edit_rank (Restoring c er) = 1"
| "edit_rank Reloading = 2"
| "edit_rank Settling = 1"

lemma edit_advance_less: "edit_advance x p h = (Inl p', h') \<Longrightarrow> edit_rank p' < edit_rank p"
  by (cases p) (auto split: prod.splits sum.splits)

text \<open>An edit that nobody interrupts, from any of its awaits to its end.\<close>

function run_edit :: "'h host \<Rightarrow> edit_pc \<Rightarrow> 'h \<Rightarrow> edit_result \<times> 'h" where
  "run_edit x p h = (case edit_advance x p h of (Inl p', h') \<Rightarrow> run_edit x p' h' | (Inr r, h') \<Rightarrow> (r, h'))"
  by pat_completeness auto
termination
  by (relation "measure (\<lambda>(x, p, h). edit_rank p)") (auto dest: edit_advance_less [OF sym])

declare run_edit.simps [simp del]

fun perform :: "'h host \<Rightarrow> edit \<Rightarrow> 'h \<Rightarrow> edit_result \<times> 'h" where
  "perform x (Adding service_name domain) = add_service x service_name domain"
| "perform x (Removing service_name) = remove_service x service_name"

lemma run_commit: "run_edit x (Writing c n) h = commit_config x c n h"
  by (simp add: commit_config_def tryE_def okE_def errE_def run_edit.simps [of x "Writing c n"]
      run_edit.simps [of x "Validating c"] run_edit.simps [of x "Restoring c er" for er]
      run_edit.simps [of x Reloading] run_edit.simps [of x Settling] split: prod.splits sum.splits)

lemma run_is_perform: "run_edit x (Reading e) h = perform x e h"
  by (cases e) (auto simp: run_edit.simps [of x "Reading e" for e] add_service_def remove_service_def tryE_def okE_def
      errE_def run_commit split: prod.splits sum.splits option.splits)

subsection \<open>Edits at once\<close>

text \<open>
  The lock is tokio's: it is given to those who wait in the order in which they asked. \<open>asked_for\<close> and
  \<open>finished\<close> record what was asked and answered. \<open>leave\<close>: a caller that still waits is dropped.
  \<open>outside\<close>: something else happens to the host, between the steps of the edits, as \<open>R\<close> allows.
\<close>

record 'h edits =
  world :: 'h
  holder :: "(edit \<times> edit_pc) option"
  queue :: "edit list"
  asked_for :: "edit list"
  finished :: "(edit \<times> edit_result) list"

definition no_edits :: "'h \<Rightarrow> 'h edits" where
  "no_edits h = \<lparr>world = h, holder = None, queue = [], asked_for = [], finished = []\<rparr>"

inductive edit_step :: "'h host \<Rightarrow> ('h \<Rightarrow> 'h \<Rightarrow> bool) \<Rightarrow> 'h edits \<Rightarrow> 'h edits \<Rightarrow> bool" for x R where
  ask: "edit_step x R z (z\<lparr>queue := queue z @ [e], asked_for := asked_for z @ [e]\<rparr>)"
| lock: "holder z = None \<Longrightarrow> queue z = e # es \<Longrightarrow>
     edit_step x R z (z\<lparr>holder := Some (e, Reading e), queue := es\<rparr>)"
| go: "holder z = Some (e, p) \<Longrightarrow> edit_advance x p (world z) = (Inl p', h) \<Longrightarrow>
     edit_step x R z (z\<lparr>world := h, holder := Some (e, p')\<rparr>)"
| unlock: "holder z = Some (e, p) \<Longrightarrow> edit_advance x p (world z) = (Inr r, h) \<Longrightarrow>
     edit_step x R z (z\<lparr>world := h, holder := None, finished := finished z @ [(e, r)]\<rparr>)"
| leave: "n < length (queue z) \<Longrightarrow>
     edit_step x R z (z\<lparr>queue := take n (queue z) @ drop (Suc n) (queue z)\<rparr>)"
| outside: "R (world z) h \<Longrightarrow> edit_step x R z (z\<lparr>world := h\<rparr>)"

definition nothing_else :: "'h \<Rightarrow> 'h \<Rightarrow> bool" where
  "nothing_else h h' \<longleftrightarrow> False"

definition under_way :: "'h edits \<Rightarrow> edit list" where
  "under_way z = (case holder z of None \<Rightarrow> [] | Some (e, p) \<Rightarrow> [e])"

text \<open>A caller that is dropped in the middle of its edit: the guard goes with it, the file stays as it is.\<close>

definition abandon :: "'h edits \<Rightarrow> 'h edits" where
  "abandon z = z\<lparr>holder := None\<rparr>"

text \<open>The edits one after the other, each in one piece.\<close>

fun replay :: "'h host \<Rightarrow> edit list \<Rightarrow> 'h \<Rightarrow> edit_result list \<times> 'h" where
  "replay x [] h = ([], h)"
| "replay x (e # es) h = (case perform x e h of (r, h') \<Rightarrow> case replay x es h' of (rs, h'') \<Rightarrow> (r # rs, h''))"

lemma replay_snoc:
  "replay x (es @ [e]) h =
     (case replay x es h of (rs, h') \<Rightarrow> case perform x e h' of (r, h'') \<Rightarrow> (rs @ [r], h''))"
  by (induction es arbitrary: h) (auto split: prod.splits)

text \<open>The world is the one the finished edits leave, with the edit under way run to its end.\<close>

definition serial :: "'h host \<Rightarrow> 'h \<Rightarrow> 'h edits \<Rightarrow> bool" where
  "serial x h z \<longleftrightarrow> (case holder z of
       None \<Rightarrow> replay x (map fst (finished z)) h = (map snd (finished z), world z)
     | Some (e, p) \<Rightarrow> replay x (map fst (finished z) @ [e]) h =
         (case run_edit x p (world z) of (r, h') \<Rightarrow> (map snd (finished z) @ [r], h')))"

lemma edit_step_serial: "edit_step x nothing_else z z' \<Longrightarrow> serial x h z \<Longrightarrow> serial x h z'"
proof (induction rule: edit_step.induct)
  case (lock z e es)
  then show ?case by (simp add: serial_def replay_snoc run_is_perform split: prod.splits)
next
  case (go z e p p' h)
  then show ?case by (simp add: serial_def run_edit.simps [of x p])
next
  case (unlock z e p r h)
  then show ?case by (simp add: serial_def run_edit.simps [of x p])
qed (simp_all add: serial_def nothing_else_def cong: option.case_cong)

lemma edit_step_order:
  "edit_step x R z z' \<Longrightarrow> subseq (map fst (finished z) @ under_way z @ queue z) (asked_for z) \<Longrightarrow>
   subseq (map fst (finished z') @ under_way z' @ queue z') (asked_for z')"
proof (induction rule: edit_step.induct)
  case (ask z e)
  then show ?case using list_emb_append_mono [of "(=)" _ _ "[e]" "[e]"] by (fastforce simp: under_way_def)
next
  case (leave n z)
  have "subseq (take n (queue z) @ drop (Suc n) (queue z)) (queue z)"
    using leave(1) by (metis id_take_nth_drop list_emb_append_mono subseq_order.order_refl list_emb_Cons)
  then have "subseq (map fst (finished z) @ under_way z @ take n (queue z) @ drop (Suc n) (queue z))
      (map fst (finished z) @ under_way z @ queue z)"
    by (simp add: list_emb_append_mono)
  with leave(2) show ?case by (auto simp: under_way_def intro: subseq_order.order_trans)
qed (simp_all add: under_way_def)

lemma edit_steps_serial: "(edit_step x nothing_else)\<^sup>*\<^sup>* (no_edits h) z \<Longrightarrow> serial x h z"
proof (induction rule: rtranclp_induct)
  case base
  show ?case by (simp add: serial_def no_edits_def)
qed (rule edit_step_serial)

lemma edit_steps_order:
  "(edit_step x R)\<^sup>*\<^sup>* (no_edits h) z \<Longrightarrow> subseq (map fst (finished z) @ under_way z @ queue z) (asked_for z)"
proof (induction rule: rtranclp_induct)
  case base
  show ?case by (simp add: no_edits_def under_way_def)
qed (rule edit_step_order)

text \<open>When nothing else happens to the host meanwhile, the edits are the operations in one piece: with
  the same answers and the same effect on the whole host, whatever fails in them.\<close>

theorem edits_in_one_piece:
  assumes "(edit_step x nothing_else)\<^sup>*\<^sup>* (no_edits h) z"
  shows "subseq (map fst (finished z) @ under_way z @ queue z) (asked_for z) \<and>
    (case holder z of
       None \<Rightarrow> replay x (map fst (finished z)) h = (map snd (finished z), world z)
     | Some (e, p) \<Rightarrow> \<exists>r h'. run_edit x p (world z) = (r, h') \<and>
         replay x (map fst (finished z) @ [e]) h = (map snd (finished z) @ [r], h'))"
  using edit_steps_serial [OF assms] edit_steps_order [OF assms]
  by (auto simp: serial_def split: option.splits prod.splits)

subsection \<open>Exclusive access to the file\<close>

text \<open>What an edit that found the text \<open>c\<close> and ended with the answer \<open>r\<close> has made of it.\<close>

definition file_outcome :: "'h host \<Rightarrow> ('h \<Rightarrow> string) \<Rightarrow> edit \<Rightarrow> string \<Rightarrow> edit_result \<Rightarrow> string \<Rightarrow> bool" where
  "file_outcome x file e c r c' \<longleftrightarrow>
     (case r of
        Inr _ \<Rightarrow> edit_text e c = Inr c' \<or> c' = c \<and> edit_text e c = Inl r
      | Inl FrontendNotFound \<Rightarrow> c' = c \<and> edit_text e c = Inl r
      | Inl (ReloadFailed _) \<Rightarrow> edit_text e c = Inr c'
      | Inl (ValidationFailed _) \<Rightarrow> c' = c \<and> (\<exists>new. edit_text e c = Inr new)
      | Inl (Io m) \<Rightarrow> c' = c \<or>
          (\<exists>new h. edit_text e c = Inr new \<and> write_failed x c new m h \<and> file h = c'))"

fun file_chain :: "'h host \<Rightarrow> ('h \<Rightarrow> string) \<Rightarrow> string \<Rightarrow> (edit \<times> edit_result) list \<Rightarrow> string \<Rightarrow> bool" where
  "file_chain x file c [] c' \<longleftrightarrow> c' = c"
| "file_chain x file c ((e, r) # es) c' \<longleftrightarrow> (\<exists>c1. file_outcome x file e c r c1 \<and> file_chain x file c1 es c')"

lemma file_chain_snoc:
  "file_chain x file c es c1 \<Longrightarrow> file_outcome x file e c1 r c' \<Longrightarrow> file_chain x file c (es @ [(e, r)]) c'"
  by (induction es arbitrary: c) (auto, blast)

text \<open>The edit under way found the text \<open>c\<close>, and the file is now at \<open>t\<close>.\<close>

fun at_work :: "edit \<Rightarrow> edit_pc \<Rightarrow> string \<Rightarrow> string \<Rightarrow> bool" where
  "at_work e (Reading e') c t \<longleftrightarrow> e' = e \<and> t = c"
| "at_work e (Writing old new) c t \<longleftrightarrow> old = c \<and> t = c \<and> edit_text e c = Inr new"
| "at_work e (Validating old) c t \<longleftrightarrow> old = c \<and> edit_text e c = Inr t"
| "at_work e (Restoring old er) c t \<longleftrightarrow> old = c \<and> edit_text e c = Inr t \<and>
     (\<forall>m. er \<noteq> ReloadFailed m) \<and> er \<noteq> FrontendNotFound"
| "at_work e Reloading c t \<longleftrightarrow> edit_text e c = Inr t"
| "at_work e Settling c t \<longleftrightarrow> edit_text e c = Inr t"

lemma edit_text_error: "edit_text e c = Inl r \<Longrightarrow> r = Inr () \<or> r = Inl FrontendNotFound"
  by (cases e) (auto split: if_splits option.splits)

lemma at_work_advance:
  assumes "config_files x file" "at_work e p c (file h)" "edit_advance x p h = (q, h')"
  shows "case q of Inl p' \<Rightarrow> at_work e p' c (file h') | Inr r \<Rightarrow> file_outcome x file e c r (file h')"
proof (cases p)
  case (Reading e')
  obtain a h1 where a: "read_config x h = (a, h1)" by (cases "read_config x h")
  with Reading file_read [OF assms(1) a] assms(2,3) show ?thesis
    by (cases a) (auto simp: file_outcome_def dest: edit_text_error split: sum.splits config_error.splits)
next
  case (Writing old new)
  obtain a h1 where a: "write_config x new h = (a, h1)" by (cases "write_config x new h")
  show ?thesis
  proof (cases a)
    case (Inl er)
    with file_write [OF assms(1) a] obtain m where m: "er = Io m" "h_write_cfg x new h = (Inl m, h1)" by auto
    from write_failedI [OF m(2), of new c] Inl Writing a m(1) assms(2,3) show ?thesis
      by (auto simp: file_outcome_def)
  next
    case (Inr u)
    with Writing file_write [OF assms(1) a] a assms(2,3) show ?thesis by auto
  qed
next
  case (Validating old)
  obtain a h1 where a: "validate_config x h = (a, h1)" by (cases "validate_config x h")
  with Validating file_validate [OF assms(1) a] assms(2,3) show ?thesis by (cases a) auto
next
  case (Restoring old er)
  obtain a h1 where a: "write_config x old h = (a, h1)" by (cases "write_config x old h")
  show ?thesis
  proof (cases a)
    case (Inl er')
    with file_write [OF assms(1) a] obtain m where m: "er' = Io m" "h_write_cfg x old h = (Inl m, h1)" by auto
    from write_failedI [OF m(2), of "file h" c] Inl Restoring a m(1) assms(2,3) show ?thesis
      by (auto simp: file_outcome_def)
  next
    case (Inr u)
    with Restoring file_write [OF assms(1) a] a assms(2,3) show ?thesis
      by (auto simp: file_outcome_def split: config_error.splits)
  qed
next
  case Reloading
  obtain a h1 where a: "reload_haproxy x h = (a, h1)" by (cases "reload_haproxy x h")
  with Reloading file_reload [OF assms(1) a] assms(2,3) show ?thesis
    by (cases a) (auto simp: file_outcome_def)
next
  case Settling
  with assms(2,3) show ?thesis by (auto simp: file_outcome_def)
qed

definition exclusive :: "'h host \<Rightarrow> ('h \<Rightarrow> string) \<Rightarrow> string \<Rightarrow> 'h edits \<Rightarrow> bool" where
  "exclusive x file c0 z \<longleftrightarrow> (\<exists>c. file_chain x file c0 (finished z) c \<and>
     (case holder z of None \<Rightarrow> file (world z) = c | Some (e, p) \<Rightarrow> at_work e p c (file (world z))))"

lemma edit_step_exclusive:
  "edit_step x R z z' \<Longrightarrow> config_files x file \<Longrightarrow> (\<And>h h'. R h h' \<Longrightarrow> file h' = file h) \<Longrightarrow>
     exclusive x file c0 z \<Longrightarrow> exclusive x file c0 z'"
proof (induction rule: edit_step.induct)
  case (go z e p p' h)
  then obtain c where "file_chain x file c0 (finished z) c" "at_work e p c (file (world z))"
    by (auto simp: exclusive_def)
  with at_work_advance [OF go(3) this(2) go(2)] show ?case by (auto simp: exclusive_def)
next
  case (unlock z e p r h)
  then obtain c where "file_chain x file c0 (finished z) c" "at_work e p c (file (world z))"
    by (auto simp: exclusive_def)
  with at_work_advance [OF unlock(3) this(2) unlock(2)] show ?case
    by (auto simp: exclusive_def intro: file_chain_snoc)
qed (auto simp: exclusive_def split: option.splits)

lemma edit_steps_exclusive:
  assumes "(edit_step x R)\<^sup>*\<^sup>* (no_edits h) z" "config_files x file" "\<And>h h'. R h h' \<Longrightarrow> file h' = file h"
  shows "exclusive x file (file h) z"
  using assms(1)
proof (induction rule: rtranclp_induct)
  case base
  show ?case by (simp add: exclusive_def no_edits_def)
next
  case (step z z')
  then show ?case using edit_step_exclusive [OF step(2) assms(2,3)] by blast
qed

subsection \<open>Properties\<close>

text \<open>C21 However many edits of the configuration are asked for at once, and however their steps, the
  arrival of others, the departure of those who wait and commands for the running HAProxy are
  interleaved, as long as no caller is dropped while it holds the lock and nothing but the edits
  writes the file: the edits are answered in the order in which they were asked for, and each works on
  the text that the one before left. With an answer Ok it has turned that text into the edited one, or
  has left it because there was nothing to edit; after a failed check it has put it back; after a
  failed reload it has left the edited text; an input or output error leaves it as it was unless a
  write failed. The edit that holds the lock is on its way from that text in the same manner.\<close>

theorem edits_serialized:
  assumes "(edit_step x R)\<^sup>*\<^sup>* (no_edits h) z" and "config_files x file" and "\<forall>h h'. R h h' \<longrightarrow> file h' = file h"
  shows "subseq (map fst (finished z) @ under_way z @ queue z) (asked_for z) \<and>
    (\<exists>c. file_chain x file (file h) (finished z) c \<and>
      (case holder z of None \<Rightarrow> file (world z) = c | Some (e, p) \<Rightarrow> at_work e p c (file (world z))))"
  using edit_steps_exclusive [OF assms(1,2)] assms(3) edit_steps_order [OF assms(1)]
  unfolding exclusive_def by blast

text \<open>Here the reloads of another service come between the steps of an edit.\<close>

theorem edits_serialized_witness:
  "\<exists>z. (edit_step (plain_host True True) (\<lambda>h h'. fst h' = fst h))\<^sup>*\<^sup>* (no_edits (''default_backend v'', 0)) z \<and>
     finished z = [(Removing ''a'', Inr ())] \<and> queue z = [Adding ''a'' ''d''] \<and> snd (world z) = 5 \<and>
     file_chain (plain_host True True) fst ''default_backend v'' (finished z) (fst (world z))"
proof -
  let ?x = "plain_host True True" and ?h = "(''default_backend v'', 0) :: string \<times> nat"
    and ?R = "\<lambda>(h :: string \<times> nat) (h' :: string \<times> nat). fst h' = fst h"
  let ?h' = "(''default_backend v'', 5) :: string \<times> nat"
  let ?z = "\<lparr>world = ?h', holder = None, queue = [Adding ''a'' ''d''],
    asked_for = [Removing ''a'', Adding ''a'' ''d''], finished = [(Removing ''a'', Inr ())]\<rparr>"
  have "edit_step ?x ?R (no_edits ?h) ((no_edits ?h)\<lparr>queue := [Removing ''a''], asked_for := [Removing ''a'']\<rparr>)" (is "edit_step _ _ _ ?a")
    using edit_step.ask [of ?x ?R "no_edits ?h" "Removing ''a''"] by (simp add: no_edits_def)
  moreover have "edit_step ?x ?R ?a (?a\<lparr>holder := Some (Removing ''a'', Reading (Removing ''a'')), queue := []\<rparr>)" (is "edit_step _ _ _ ?b")
    by (rule edit_step.lock) (simp_all add: no_edits_def)
  moreover have "edit_step ?x ?R ?b (?b\<lparr>world := ?h'\<rparr>)" (is "edit_step _ _ _ ?o")
    by (rule edit_step.outside) (simp add: no_edits_def)
  moreover have "edit_step ?x ?R ?o (?o\<lparr>queue := [Adding ''a'' ''d''], asked_for := [Removing ''a'', Adding ''a'' ''d'']\<rparr>)" (is "edit_step _ _ _ ?c")
    using edit_step.ask [of ?x ?R ?o "Adding ''a'' ''d''"] by (simp add: no_edits_def)
  moreover have "edit_step ?x ?R ?c ?z"
  proof -
    have "\<not> service_exists ''default_backend v'' ''a''"
      by code_simp
    then have "edit_advance ?x (Reading (Removing ''a'')) ?h' = (Inr (Inr ()), ?h')"
      by (simp add: plain_host_def read_config_def map_errE_def)
    then show ?thesis
      using edit_step.unlock [of ?c "Removing ''a''" "Reading (Removing ''a'')" ?x "Inr ()" ?h' ?R] by (simp add: no_edits_def)
  qed
  ultimately have steps: "(edit_step ?x ?R)\<^sup>*\<^sup>* (no_edits ?h) ?z" by (meson converse_rtranclp_into_rtranclp rtranclp.rtrancl_refl)
  from edits_serialized [OF this plain_host_files] have "file_chain ?x fst (fst ?h) (finished ?z) (fst (world ?z))"
    by (simp del: file_chain.simps)
  with steps show ?thesis by (intro exI [of _ ?z]) (simp del: file_chain.simps)
qed

text \<open>A client that closes its connection while \<^verbatim>\<open>haproxy -c\<close> runs leaves a file that nobody has checked
  and HAProxy has not loaded, and the lock free; from then on adding the service only reads the file
  and, if it can, answers success.\<close>

theorem abandoned_edit_unchecked:
  assumes "config_files x file" "CR \<notin> set (file h)" "word n" "plain_line d" "\<not> service_exists (file h) n"
    "add_service_text (file h) n d = Some new"
    and "read_config x h = (Inr (file h), h0)" "write_config x new h0 = (Inr (), h1)"
  shows "\<exists>z. (edit_step x nothing_else)\<^sup>*\<^sup>* (no_edits h) z \<and> holder (abandon z) = None \<and> finished (abandon z) = [] \<and>
    file (world (abandon z)) = new \<and>
    (\<forall>d'. add_service x n d' (world (abandon z)) =
       (case read_config x (world (abandon z)) of (Inr _, h') \<Rightarrow> (Inr (), h') | (Inl e, h') \<Rightarrow> (Inl e, h')))"
proof -
  let ?a = "(no_edits h)\<lparr>queue := [Adding n d], asked_for := [Adding n d]\<rparr>"
  let ?b = "?a\<lparr>holder := Some (Adding n d, Reading (Adding n d)), queue := []\<rparr>"
  let ?c = "?b\<lparr>world := h0, holder := Some (Adding n d, Writing (file h) new)\<rparr>"
  let ?z = "?c\<lparr>world := h1, holder := Some (Adding n d, Validating (file h))\<rparr>"
  have w: "file h1 = new" using file_write [OF assms(1,8)] by simp
  have "edit_step x nothing_else (no_edits h) ?a"
    using edit_step.ask [of x nothing_else "no_edits h" "Adding n d"] by (simp add: no_edits_def)
  moreover have "edit_step x nothing_else ?a ?b" by (rule edit_step.lock) (simp_all add: no_edits_def)
  moreover have "edit_step x nothing_else ?b ?c"
    using edit_step.go [of ?b "Adding n d" "Reading (Adding n d)" x "Writing (file h) new" h0 nothing_else] assms(5-7)
    by (simp add: no_edits_def)
  moreover have "edit_step x nothing_else ?c ?z"
    using edit_step.go [of ?c "Adding n d" "Writing (file h) new" x "Validating (file h)" h1 nothing_else] assms(8)
    by (simp add: no_edits_def)
  ultimately have "(edit_step x nothing_else)\<^sup>*\<^sup>* (no_edits h) ?z" by (meson converse_rtranclp_into_rtranclp rtranclp.rtrancl_refl)
  moreover have e: "service_exists (file h1) n" using exists_after_add [OF assms(6,2-4,3)] w by simp
  have "add_service x n d' h1 =
      (case read_config x h1 of (Inr _, h') \<Rightarrow> (Inr (), h') | (Inl e, h') \<Rightarrow> (Inl e, h'))" for d'
  proof -
    obtain q h2 where q: "read_config x h1 = (q, h2)" by (cases "read_config x h1")
    with e file_read [OF assms(1) q] show ?thesis by (cases q) (auto simp: add_service_def okE_def)
  qed
  ultimately show ?thesis using w by (intro exI [of _ ?z]) (simp add: abandon_def no_edits_def)
qed

theorem abandoned_edit_unchecked_witness:
  "\<exists>z new. (edit_step (plain_host False True) nothing_else)\<^sup>*\<^sup>* (no_edits (''default_backend v'', 0)) z \<and> holder (abandon z) = None \<and>
     add_service_text ''default_backend v'' ''a'' ''d'' = Some new \<and> fst (world (abandon z)) = new"
proof -
  obtain new where new: "add_service_text ''default_backend v'' ''a'' ''d'' = Some new"
    using cfg_ok_add [OF default_backend_cfg] by blast
  have "\<not> service_exists ''default_backend v'' ''a''" by code_simp
  with abandoned_edit_unchecked [OF plain_host_files [of False True], of "(''default_backend v'', 0)" "''a''" "''d''" new
      "(''default_backend v'', 0)" "(new, 0)"] new
  show ?thesis by (fastforce simp: word_def is_ws_def plain_line_def plain_host_def read_config_def write_config_def)
qed

end
