(* ===== verification/F32.thy ===== *)
theory F32
  imports Prelude Complex_Main
begin

text \<open>
  The single-precision arithmetic that \<^verbatim>\<open>Metrics::weight\<close> (\<^verbatim>\<open>registrar/src/state.rs\<close>) uses:
  IEEE 754 binary32 with rounding to nearest, ties to even. A finite value is the rational it
  denotes; the sign of zero is not kept (nothing the program does with a value depends on it).
\<close>

subsection \<open>Rounding\<close>

datatype f32 = NaN | Inf bool | Fin rat  \<comment> \<open>\<open>Inf True\<close> is minus infinity\<close>

definition round_even :: "rat \<Rightarrow> int" where
  "round_even x =
     (let n = \<lfloor>x\<rfloor>; d = x - of_int n
      in if d < 1 / 2 then n else if 1 / 2 < d then n + 1 else if even n then n else n + 1)"

definition pow2 :: "int \<Rightarrow> rat" where
  "pow2 e = (if 0 \<le> e then 2 ^ nat e else 1 / 2 ^ nat (- e))"

text \<open>
  The exponent of the last place of a number: the least one, from that of the subnormal numbers
  up to that of the largest ones, at which \<open>p\<close> bits are enough; 24 in single precision, 53 in double.
\<close>

fun ulp_search :: "nat \<Rightarrow> nat \<Rightarrow> rat \<Rightarrow> int \<Rightarrow> int" where
  "ulp_search p 0 a e = e"
| "ulp_search p (Suc n) a e = (if a < 2 ^ p * pow2 e then e else ulp_search p n a (e + 1))"

definition ulp_exp :: "rat \<Rightarrow> int" where
  "ulp_exp a = ulp_search 24 253 a (- 149)"

definition round_abs :: "rat \<Rightarrow> rat" where
  "round_abs a = of_int (round_even (a / pow2 (ulp_exp a))) * pow2 (ulp_exp a)"

definition round_f32 :: "rat \<Rightarrow> f32" where
  "round_f32 x =
     (let r = round_abs \<bar>x\<bar>
      in if 2 ^ 128 \<le> r then Inf (x < 0) else Fin (if x < 0 then - r else r))"

lemma round_even_floor: "\<lfloor>x\<rfloor> \<le> round_even x" "round_even x \<le> \<lfloor>x\<rfloor> + 1"
  by (simp_all add: round_even_def Let_def)

lemma round_even_of_int [simp]: "round_even (of_int n) = n"
  by (simp add: round_even_def)

lemma round_even_mono: "x \<le> y \<Longrightarrow> round_even x \<le> round_even y"
proof (cases "\<lfloor>x\<rfloor> = \<lfloor>y\<rfloor>")
  case True
  assume "x \<le> y"
  then have "x - of_int \<lfloor>y\<rfloor> \<le> y - of_int \<lfloor>y\<rfloor>" by simp
  with True show ?thesis by (auto simp: round_even_def Let_def)
next
  case False
  assume "x \<le> y"
  with False have "\<lfloor>x\<rfloor> + 1 \<le> \<lfloor>y\<rfloor>" using floor_mono [of x y] by linarith
  with round_even_floor show ?thesis by (meson order_trans)
qed

lemma pow2_pos [simp]: "0 < pow2 e" "0 \<le> pow2 e" "pow2 e \<noteq> 0"
  by (simp_all add: pow2_def)

lemma pow2_Suc: "pow2 (e + 1) = 2 * pow2 e"
proof (cases "0 \<le> e")
  case True
  then show ?thesis by (simp add: pow2_def nat_add_distrib)
next
  case False
  then have "nat (- e) = Suc (nat (- (e + 1)))" by linarith
  with False show ?thesis by (simp add: pow2_def)
qed

lemma pow2_mono: "e \<le> f \<Longrightarrow> pow2 e \<le> pow2 f"
proof (induction "nat (f - e)" arbitrary: e)
  case (Suc n)
  then have "n = nat (f - (e + 1))" "e + 1 \<le> f" by linarith+
  with Suc(1) [of "e + 1"] have "pow2 (e + 1) \<le> pow2 f" by blast
  then have "2 * pow2 e \<le> pow2 f" by (simp add: pow2_Suc)
  with pow2_pos(1) [of e] show ?case by linarith
qed simp

lemma ulp_search_range: "e \<le> ulp_search p n a e \<and> ulp_search p n a e \<le> e + int n"
proof (induction n arbitrary: e)
  case (Suc n)
  from Suc [of "e + 1"] show ?case by auto
qed simp

lemma ulp_search_fits: "ulp_search p n a e = e + int n \<or> a < 2 ^ p * pow2 (ulp_search p n a e)"
proof (induction n arbitrary: e)
  case (Suc n)
  from Suc [of "e + 1"] show ?case by (auto simp: algebra_simps)
qed simp

lemma ulp_search_least: "ulp_search (Suc p) n a e = e \<or> 2 ^ p * pow2 (ulp_search (Suc p) n a e) \<le> a"
proof (induction n arbitrary: e)
  case (Suc n)
  from Suc [of "e + 1"] show ?case by (auto simp: pow2_Suc)
qed simp

lemma ulp_search_mono: "a \<le> b \<Longrightarrow> ulp_search p n a e \<le> ulp_search p n b e"
proof (induction n arbitrary: e)
  case (Suc n)
  from Suc(1) [of "e + 1"] Suc(2) ulp_search_range [of "e + 1" p n b] show ?case by auto
qed simp

lemma ulp_exp_eq:
  assumes "2 ^ 23 * pow2 e \<le> a" "a < 2 ^ 24 * pow2 e" "- 149 \<le> e" "e \<le> 104"
  shows "ulp_exp a = e"
proof -
  have "ulp_search 24 n a s = e" if "s \<le> e" "e \<le> s + int n" for n s
    using that
  proof (induction n arbitrary: s)
    case (Suc n)
    show ?case
    proof (cases "s = e")
      case False
      with Suc(2) have "s + 1 \<le> e" by simp
      then have "2 * pow2 s \<le> pow2 e" using pow2_mono [of "s + 1" e] by (simp add: pow2_Suc)
      then have "\<not> a < 2 ^ 24 * pow2 s" using assms(1) by simp
      with Suc(1) [of "s + 1"] Suc(3) \<open>s + 1 \<le> e\<close> show ?thesis by simp
    qed (use assms in simp)
  qed (use assms in simp)
  then show ?thesis using assms by (simp add: ulp_exp_def)
qed

lemma round_abs_mono:
  assumes "a \<le> b"
  shows "round_abs a \<le> round_abs b"
proof -
  let ?e = "ulp_exp a" and ?f = "ulp_exp b"
  have ef: "?e \<le> ?f" using assms ulp_search_mono by (simp add: ulp_exp_def)
  show ?thesis
  proof (cases "?e = ?f")
    case True
    have "a / pow2 ?f \<le> b / pow2 ?f" using assms by (simp add: divide_right_mono)
    then have "round_even (a / pow2 ?f) \<le> round_even (b / pow2 ?f)" by (rule round_even_mono)
    then show ?thesis using True by (simp add: round_abs_def)
  next
    case False
    with ef have lt: "?e + 1 \<le> ?f" by simp
    have "?f \<le> 104" using ulp_search_range [of "- 149" 24 253 b] by (simp add: ulp_exp_def)
    with lt have "a < 2 ^ 24 * pow2 ?e" using ulp_search_fits [of 24 253 a "- 149"] by (simp add: ulp_exp_def)
    then have "a / pow2 ?e \<le> of_int (2 ^ 24)" by (simp add: field_simps)
    from round_even_mono [OF this] have "round_even (a / pow2 ?e) \<le> 2 ^ 24" by (simp only: round_even_of_int)
    then have "of_int (round_even (a / pow2 ?e)) \<le> (2 ^ 24 :: rat)"
      by (metis of_int_le_iff of_int_numeral of_int_power)
    then have "round_abs a \<le> 2 ^ 24 * pow2 ?e" by (simp add: round_abs_def mult_right_mono)
    also have "\<dots> = 2 ^ 23 * pow2 (?e + 1)" by (simp add: pow2_Suc)
    also have "\<dots> \<le> 2 ^ 23 * pow2 ?f" using pow2_mono [OF lt] by simp
    also have "\<dots> \<le> round_abs b"
    proof -
      have "- 149 \<le> ?e" using ulp_search_range [of "- 149" 24 253 a] by (simp add: ulp_exp_def)
      with lt have "2 ^ 23 * pow2 ?f \<le> b" using ulp_search_least [of 23 253 b "- 149"] by (simp add: ulp_exp_def)
      then have "of_int (2 ^ 23) \<le> b / pow2 ?f" by (simp add: field_simps)
      from round_even_mono [OF this] have "2 ^ 23 \<le> round_even (b / pow2 ?f)" by (simp only: round_even_of_int)
      then have "(2 ^ 23 :: rat) \<le> of_int (round_even (b / pow2 ?f))"
        by (metis of_int_le_iff of_int_numeral of_int_power)
      then show ?thesis by (simp add: round_abs_def mult_right_mono)
    qed
    finally show ?thesis .
  qed
qed

lemma round_abs_0 [simp]: "round_abs 0 = 0"
  using round_even_of_int [of 0] by (simp add: round_abs_def)

lemma round_abs_nonneg: "0 \<le> a \<Longrightarrow> 0 \<le> round_abs a"
  using round_abs_mono [of 0 a] by simp

text \<open>Values that need no rounding.\<close>

lemma round_abs_exact:
  assumes "2 ^ 23 \<le> m" "m < 2 ^ 24" "- 149 \<le> e" "e \<le> 104"
  shows "round_abs (of_int m * pow2 e) = of_int m * pow2 e"
proof -
  have "(2 ^ 23 :: rat) \<le> of_int m" "of_int m < (2 ^ 24 :: rat)"
    using assms(1,2) by (metis of_int_le_iff of_int_numeral of_int_power)
      (metis assms(2) of_int_less_iff of_int_numeral of_int_power)
  then have "ulp_exp (of_int m * pow2 e) = e" using assms(3,4) by (intro ulp_exp_eq) simp_all
  then show ?thesis by (simp add: round_abs_def)
qed

subsection \<open>Operations\<close>

fun f32_neg :: "f32 \<Rightarrow> f32" where
  "f32_neg NaN = NaN"
| "f32_neg (Inf s) = Inf (\<not> s)"
| "f32_neg (Fin x) = Fin (- x)"

fun f32_add :: "f32 \<Rightarrow> f32 \<Rightarrow> f32" where
  "f32_add (Fin x) (Fin y) = round_f32 (x + y)"
| "f32_add (Inf s) (Fin y) = Inf s"
| "f32_add (Fin x) (Inf s) = Inf s"
| "f32_add (Inf s) (Inf t) = (if s = t then Inf s else NaN)"
| "f32_add _ _ = NaN"

definition f32_sub :: "f32 \<Rightarrow> f32 \<Rightarrow> f32" where
  "f32_sub x y = f32_add x (f32_neg y)"

fun f32_mul :: "f32 \<Rightarrow> f32 \<Rightarrow> f32" where
  "f32_mul (Fin x) (Fin y) = round_f32 (x * y)"
| "f32_mul (Inf s) (Fin y) = (if y = 0 then NaN else Inf (s \<noteq> (y < 0)))"
| "f32_mul (Fin x) (Inf s) = (if x = 0 then NaN else Inf (s \<noteq> (x < 0)))"
| "f32_mul (Inf s) (Inf t) = Inf (s \<noteq> t)"
| "f32_mul _ _ = NaN"

text \<open>The comparison \<^verbatim>\<open><\<close>, false on NaN, and its reflexive closure on numbers.\<close>

fun f32_less :: "f32 \<Rightarrow> f32 \<Rightarrow> bool" where
  "f32_less (Fin x) (Fin y) \<longleftrightarrow> x < y"
| "f32_less (Inf s) (Fin y) \<longleftrightarrow> s"
| "f32_less (Fin x) (Inf s) \<longleftrightarrow> \<not> s"
| "f32_less (Inf s) (Inf t) \<longleftrightarrow> s \<and> \<not> t"
| "f32_less _ _ \<longleftrightarrow> False"

definition f32_le :: "f32 \<Rightarrow> f32 \<Rightarrow> bool" where
  "f32_le x y \<longleftrightarrow> x \<noteq> NaN \<and> y \<noteq> NaN \<and> \<not> f32_less y x"

text \<open>\<^verbatim>\<open>f32::min\<close> ignores a NaN; \<^verbatim>\<open>f32::clamp\<close> keeps it.\<close>

definition f32_min :: "f32 \<Rightarrow> f32 \<Rightarrow> f32" where
  "f32_min x y = (if x = NaN then y else if y = NaN then x else if f32_less y x then y else x)"

definition f32_clamp :: "f32 \<Rightarrow> f32 \<Rightarrow> f32 \<Rightarrow> f32" where
  "f32_clamp x lo hi =
     (let x = (if f32_less x lo then lo else x) in if f32_less hi x then hi else x)"

definition f32_of_u32 :: "u32 \<Rightarrow> f32" where
  "f32_of_u32 n = round_f32 (of_nat (unat n))"

text \<open>\<^verbatim>\<open>as u32\<close>: truncation, saturating; NaN becomes 0.\<close>

fun as_u32 :: "f32 \<Rightarrow> u32" where
  "as_u32 NaN = 0"
| "as_u32 (Inf s) = (if s then 0 else - 1)"
| "as_u32 (Fin x) = (if x \<le> 0 then 0 else if 2 ^ 32 \<le> x then - 1 else word_of_int \<lfloor>x\<rfloor>)"

definition valid_f32 :: "f32 \<Rightarrow> bool" where
  "valid_f32 x \<longleftrightarrow> (case x of Fin r \<Rightarrow> \<bar>r\<bar> < 2 ^ 128 | _ \<Rightarrow> True)"

lemma round_f32_not_NaN [simp]: "round_f32 x \<noteq> NaN" "NaN \<noteq> round_f32 x"
  by (auto simp: round_f32_def Let_def)

lemma round_f32_cases:
  obtains "2 ^ 128 \<le> round_abs \<bar>x\<bar>" "round_f32 x = Inf (x < 0)"
  | "round_abs \<bar>x\<bar> < 2 ^ 128" "round_f32 x = Fin (if x < 0 then - round_abs \<bar>x\<bar> else round_abs \<bar>x\<bar>)"
  by (cases "2 ^ 128 \<le> round_abs \<bar>x\<bar>") (simp_all add: round_f32_def)

lemma f32_le_simps [simp]:
  "f32_le (Fin r) (Fin q) \<longleftrightarrow> r \<le> q"
  "f32_le (Inf True) y \<longleftrightarrow> y \<noteq> NaN" "f32_le x (Inf False) \<longleftrightarrow> x \<noteq> NaN"
  "\<not> f32_le (Inf False) (Fin q)" "\<not> f32_le (Fin r) (Inf True)" "\<not> f32_le (Inf False) (Inf True)"
  "\<not> f32_le NaN y" "\<not> f32_le x NaN"
  subgoal by (auto simp: f32_le_def)
  subgoal by (cases y) (auto simp: f32_le_def)
  subgoal by (cases x) (auto simp: f32_le_def)
  subgoal by (simp add: f32_le_def)
  subgoal by (simp add: f32_le_def)
  subgoal by (simp add: f32_le_def)
  subgoal by (simp add: f32_le_def)
  subgoal by (simp add: f32_le_def)
  done

lemma round_f32_mono: "x \<le> y \<Longrightarrow> f32_le (round_f32 x) (round_f32 y)"
proof -
  assume xy: "x \<le> y"
  have n: "0 \<le> round_abs \<bar>x\<bar>" "0 \<le> round_abs \<bar>y\<bar>" by (simp_all add: round_abs_nonneg)
  consider "y < 0" | "x < 0" "0 \<le> y" | "0 \<le> x" by linarith
  then show ?thesis
  proof cases
    case 1
    then have "round_abs \<bar>y\<bar> \<le> round_abs \<bar>x\<bar>" using xy by (intro round_abs_mono) simp
    with 1 xy n show ?thesis by (simp add: round_f32_def Let_def)
  next
    case 2
    with n show ?thesis by (simp add: round_f32_def Let_def)
  next
    case 3
    then have "round_abs \<bar>x\<bar> \<le> round_abs \<bar>y\<bar>" using xy by (intro round_abs_mono) simp
    with 3 xy n show ?thesis by (simp add: round_f32_def Let_def)
  qed
qed

lemma f32_cases:
  obtains "x = NaN" | "x = Inf True" | "x = Inf False" | r where "x = Fin r"
  by (cases x) (metis (full_types))+

lemma f32_le_neg: "f32_le x y \<Longrightarrow> f32_le (f32_neg y) (f32_neg x)"
  by (cases x rule: f32_cases; cases y rule: f32_cases) auto

lemma f32_add_mono:
  "f32_le x x' \<Longrightarrow> f32_le y y' \<Longrightarrow> f32_add x y \<noteq> NaN \<Longrightarrow> f32_add x' y' \<noteq> NaN \<Longrightarrow>
     f32_le (f32_add x y) (f32_add x' y')"
  by (cases x rule: f32_cases; cases y rule: f32_cases; cases x' rule: f32_cases; cases y' rule: f32_cases)
    (simp_all add: round_f32_mono)

lemma f32_mul_mono: "0 < c \<Longrightarrow> f32_le x x' \<Longrightarrow> f32_le (f32_mul x (Fin c)) (f32_mul x' (Fin c))"
  by (cases x rule: f32_cases; cases x' rule: f32_cases) (auto intro: round_f32_mono)

lemma f32_clamp_range:
  assumes "lo \<le> hi" "x \<noteq> NaN"
  shows "\<exists>r. f32_clamp x (Fin lo) (Fin hi) = Fin r \<and> lo \<le> r \<and> r \<le> hi"
  using assms by (cases x) (auto simp: f32_clamp_def Let_def)

lemma f32_clamp_mono:
  assumes "lo \<le> hi" "f32_le x y"
  shows "f32_le (f32_clamp x (Fin lo) (Fin hi)) (f32_clamp y (Fin lo) (Fin hi))"
  using assms by (cases x rule: f32_cases; cases y rule: f32_cases) (auto simp: f32_clamp_def Let_def)

lemma f32_clamp_NaN [simp]: "f32_clamp NaN lo hi = NaN"
  by (simp add: f32_clamp_def)

lemma as_u32_small:
  assumes "0 \<le> r" "r < 2 ^ 32"
  shows "unat (as_u32 (Fin r)) = nat \<lfloor>r\<rfloor>"
proof -
  have "\<lfloor>r\<rfloor> < 2 ^ 32" using assms(2) by (simp add: floor_less_iff)
  then show ?thesis using assms
    by (auto simp: unsigned_of_int take_bit_int_eq_self)
qed

lemma scale_finite:
  assumes "valid_f32 (Fin x)" "0 \<le> c" "c \<le> 1 / 2"
  shows "\<exists>y. f32_mul (Fin x) (Fin c) = Fin y"
proof -
  have "\<bar>x * c\<bar> \<le> 2 ^ 128 * (1 / 2)"
    unfolding abs_mult using assms by (intro mult_mono) (auto simp: valid_f32_def)
  also have "(2 ^ 128 * (1 / 2) :: rat) = of_int (2 ^ 23) * pow2 104" by (simp add: pow2_def)
  finally have "round_abs \<bar>x * c\<bar> \<le> of_int (2 ^ 23) * pow2 104"
    using round_abs_mono round_abs_exact [of "2 ^ 23" 104] by fastforce
  then have "round_abs \<bar>x * c\<bar> < 2 ^ 128" by (simp add: pow2_def)
  then show ?thesis by (simp add: round_f32_def Let_def)
qed

text \<open>The error of rounding: half a unit in the last place, relative to the number or that of the least ones.\<close>

lemma round_even_error: "\<bar>of_int (round_even x) - x\<bar> \<le> 1 / 2"
proof -
  have "of_int \<lfloor>x\<rfloor> \<le> x" "x < of_int \<lfloor>x\<rfloor> + 1" by linarith+
  then show ?thesis unfolding round_even_def Let_def by (auto simp: abs_le_iff simp del: of_int_floor_le)
qed

lemma round_error:
  assumes "0 \<le> a"
  shows "\<bar>of_int (round_even (a / pow2 (ulp_search (Suc p) n a e))) * pow2 (ulp_search (Suc p) n a e) - a\<bar>
    \<le> a / 2 ^ Suc p + pow2 e / 2"
proof -
  let ?u = "pow2 (ulp_search (Suc p) n a e)"
  have "\<bar>of_int (round_even (a / ?u)) * ?u - a\<bar> = \<bar>of_int (round_even (a / ?u)) - a / ?u\<bar> * ?u"
    using pow2_pos(1) [of "ulp_search (Suc p) n a e"] abs_mult [of "of_int (round_even (a / ?u)) - a / ?u" ?u]
    by (simp add: left_diff_distrib)
  also have "\<dots> \<le> 1 / 2 * ?u" by (rule mult_right_mono [OF round_even_error]) simp
  also have "\<dots> \<le> a / 2 ^ Suc p + pow2 e / 2"
    using ulp_search_least [of p n a e]
  proof
    assume "2 ^ p * ?u \<le> a"
    then have "1 / 2 * ?u \<le> a / 2 ^ Suc p" by (simp add: field_simps)
    with pow2_pos(2) [of e] show ?thesis by linarith
  qed (use assms in simp)
  finally show ?thesis .
qed

lemma round_abs_error: "0 \<le> a \<Longrightarrow> \<bar>round_abs a - a\<bar> \<le> a / 2 ^ 24 + 1 / 2 ^ 150"
  using round_error [of a 23 253 "- 149"] by (simp add: round_abs_def ulp_exp_def pow2_def)

lemma round_f32_close:
  assumes "\<bar>x\<bar> \<le> 2 ^ 40"
  shows "\<exists>y. round_f32 x = Fin y \<and> \<bar>y - x\<bar> \<le> \<bar>x\<bar> / 2 ^ 24 + 1 / 2 ^ 150"
proof -
  have "round_abs \<bar>x\<bar> \<le> \<bar>x\<bar> + \<bar>x\<bar> / 2 ^ 24 + 1 / 2 ^ 150"
    using round_abs_error [of "\<bar>x\<bar>"] unfolding abs_le_iff by simp
  also have "\<dots> < 2 ^ 128" using assms by simp
  finally have "round_abs \<bar>x\<bar> < 2 ^ 128" .
  then show ?thesis using round_abs_error [of "\<bar>x\<bar>"] by (auto simp: round_f32_def Let_def)
qed

end
