(* ===== verification/Haproxy_Runtime.thy ===== *)
theory Haproxy_Runtime
  imports Haproxy_Config
begin

text \<open>
  \<^verbatim>\<open>haproxy-manager/src/runtime.rs\<close>: the commands sent to HAProxy's admin socket, and the
  contract of the HAProxy process they rely on. The process is not part of the program: what it
  does is a hypothesis (\<open>haproxy_host\<close>), stated over a view of the servers it routes to.
\<close>

subsection \<open>Commands\<close>

datatype runtime_error = Io io_error | Response string | Unsupported

text \<open>\<^verbatim>\<open>Display\<close>, as derived from the \<^verbatim>\<open>#[error]\<close> attributes.\<close>

fun runtime_error_text :: "runtime_error \<Rightarrow> string" where
  "runtime_error_text (Io e) = ''io error: '' @ e"
| "runtime_error_text (Response r) = ''haproxy returned an error response: '' @ r"
| "runtime_error_text Unsupported = ''unix sockets are not supported on this platform''"

definition ERROR_PREFIXES :: "string list" where
  "ERROR_PREFIXES = [''Can'' @ [CHR 0x27] @ ''t'', ''No such'', ''Unknown'', ''Invalid'', ''Alert'', ''error'']"

definition send_command :: "'h host \<Rightarrow> string \<Rightarrow> 'h \<Rightarrow> (runtime_error + string) \<times> 'h" where
  "send_command x cmd =
     tryE (map_errE Io (h_socket x (cmd @ [NL]))) (\<lambda>response.
       let response = trim response
       in if list_ex (\<lambda>p. prefix p response) ERROR_PREFIXES then errE (Response response)
          else okE response)"

definition add_server :: "'h host \<Rightarrow> string \<Rightarrow> string \<Rightarrow> string \<Rightarrow> 'h \<Rightarrow> (runtime_error + unit) \<times> 'h" where
  "add_server x backend server_name addr =
     tryE (send_command x (''add server '' @ backend @ ''/'' @ server_name @ '' '' @ addr)) (\<lambda>_. okE ())"

definition remove_server :: "'h host \<Rightarrow> string \<Rightarrow> string \<Rightarrow> 'h \<Rightarrow> (runtime_error + unit) \<times> 'h" where
  "remove_server x backend server_name =
     tryE (send_command x (''del server '' @ backend @ ''/'' @ server_name)) (\<lambda>_. okE ())"

definition set_weight :: "'h host \<Rightarrow> string \<Rightarrow> string \<Rightarrow> u32 \<Rightarrow> 'h \<Rightarrow> (runtime_error + unit) \<times> 'h" where
  "set_weight x backend server_name weight =
     tryE (send_command x (''set weight '' @ backend @ ''/'' @ server_name @ '' '' @ show_nat (unat weight)))
       (\<lambda>_. okE ())"

definition set_state :: "'h host \<Rightarrow> string \<Rightarrow> string \<Rightarrow> string \<Rightarrow> 'h \<Rightarrow> (runtime_error + unit) \<times> 'h" where
  "set_state x backend server_name state =
     tryE (send_command x (''set server '' @ backend @ ''/'' @ server_name @ '' state '' @ state)) (\<lambda>_. okE ())"

text \<open>\<^verbatim>\<open>str::rsplit_once\<close>.\<close>

definition rsplit_once :: "char \<Rightarrow> string \<Rightarrow> (string \<times> string) option" where
  "rsplit_once c s =
     (if c \<in> set s
      then Some (rev (tl (dropWhile (\<lambda>d. d \<noteq> c) (rev s))), rev (takeWhile (\<lambda>d. d \<noteq> c) (rev s)))
      else None)"

definition set_addr :: "'h host \<Rightarrow> string \<Rightarrow> string \<Rightarrow> string \<Rightarrow> 'h \<Rightarrow> (runtime_error + unit) \<times> 'h" where
  "set_addr x backend server_name addr =
     (case rsplit_once (CHR '':'') addr of
        None \<Rightarrow> errE (Response (''invalid addr (expected ip:port): '' @ addr))
      | Some (ip, port) \<Rightarrow>
          tryE (send_command x (''set server '' @ backend @ ''/'' @ server_name @ '' addr '' @ ip @ '' port '' @ port))
            (\<lambda>_. okE ()))"

lemma split_before:
  "c \<notin> set xs \<Longrightarrow> takeWhile (\<lambda>d. d \<noteq> c) (xs @ c # ys) = xs"
  "c \<notin> set xs \<Longrightarrow> dropWhile (\<lambda>d. d \<noteq> c) (xs @ c # ys) = c # ys"
  by (induction xs) auto

lemma rsplit_once_addr: "CHR '':'' \<notin> set port \<Longrightarrow> rsplit_once (CHR '':'') (ip @ '':'' @ port) = Some (ip, port)"
  using split_before [of "CHR '':''" "rev port" "rev ip"] by (simp add: rsplit_once_def)

subsection \<open>The contract of the HAProxy process\<close>

text \<open>What HAProxy knows: its backends, and for each of them the servers added at run time.\<close>

record srv =
  srv_addr :: string
  srv_weight :: u32
  srv_state :: string

record proxy =
  known_backend :: "string \<Rightarrow> bool"
  servers :: "string \<times> string \<Rightarrow> srv option"

datatype api_cmd =
  Add_server string string string string
| Del_server string string
| Set_weight string string u32
| Set_state string string string
| Set_addr string string string string

fun api_text :: "api_cmd \<Rightarrow> string" where
  "api_text (Add_server b s ip port) = ''add server '' @ b @ ''/'' @ s @ '' '' @ ip @ '':'' @ port"
| "api_text (Del_server b s) = ''del server '' @ b @ ''/'' @ s"
| "api_text (Set_weight b s w) = ''set weight '' @ b @ ''/'' @ s @ '' '' @ show_nat (unat w)"
| "api_text (Set_state b s st) = ''set server '' @ b @ ''/'' @ s @ '' state '' @ st"
| "api_text (Set_addr b s ip port) = ''set server '' @ b @ ''/'' @ s @ '' addr '' @ ip @ '' port '' @ port"

text \<open>
  The answers the code tells apart: an answer that reports an error starts with one of the
  prefixes; a command for a server that does not exist is answered with "No such server".
\<close>

definition error_answer :: "string \<Rightarrow> bool" where
  "error_answer resp \<longleftrightarrow> list_ex (\<lambda>p. prefix p (trim resp)) ERROR_PREFIXES"

definition missing_answer :: "string \<Rightarrow> bool" where
  "missing_answer resp \<longleftrightarrow> prefix ''No such server'' (trim resp)"

text \<open>
  A command on a server that exists applies \<open>upd\<close>; otherwise nothing changes, and the answer says
  that the server is missing or, when the backend is unknown, reports some other error.
\<close>

definition on_server :: "string \<Rightarrow> string \<Rightarrow> (srv \<Rightarrow> srv) \<Rightarrow> proxy \<Rightarrow> string \<Rightarrow> proxy \<Rightarrow> bool" where
  "on_server b s upd p resp p' \<longleftrightarrow>
     (if \<not> known_backend p b
      then p' = p \<and> error_answer resp \<and> \<not> contains ''No such server'' (trim resp)
      else case servers p (b, s) of
             None \<Rightarrow> p' = p \<and> missing_answer resp
           | Some v \<Rightarrow> \<not> error_answer resp \<and> p' = p\<lparr>servers := (servers p)((b, s) \<mapsto> upd v)\<rparr>)"

text \<open>
  What a command may do. A server is only deleted in maintenance, and even then the deletion may be
  cancelled (the server still has connections, or a queue); nothing is assumed of the answer then,
  which the program may take for a success.
\<close>

fun api_outcome :: "api_cmd \<Rightarrow> proxy \<Rightarrow> string \<Rightarrow> proxy \<Rightarrow> bool" where
  "api_outcome (Add_server b s ip port) p resp p' =
     (if \<not> known_backend p b
      then p' = p \<and> error_answer resp \<and> \<not> contains ''No such server'' (trim resp)
      else if servers p (b, s) \<noteq> None then p' = p
      else \<not> error_answer resp \<and>
           (\<exists>w. p' = p\<lparr>servers := (servers p)((b, s) \<mapsto>
                    \<lparr>srv_addr = ip @ '':'' @ port, srv_weight = w, srv_state = ''maint''\<rparr>)\<rparr>))"
| "api_outcome (Del_server b s) p resp p' =
     (case servers p (b, s) of
        Some v \<Rightarrow>
          p' = p \<or> srv_state v = ''maint'' \<and> \<not> error_answer resp \<and> p' = p\<lparr>servers := (servers p)((b, s) := None)\<rparr>
      | None \<Rightarrow> p' = p \<and> error_answer resp)"
| "api_outcome (Set_weight b s w) p resp p' = on_server b s (srv_weight_update (\<lambda>_. w)) p resp p'"
| "api_outcome (Set_state b s st) p resp p' = on_server b s (srv_state_update (\<lambda>_. st)) p resp p'"
| "api_outcome (Set_addr b s ip port) p resp p' = on_server b s (srv_addr_update (\<lambda>_. ip @ '':'' @ port)) p resp p'"

text \<open>The commands the contract covers: single words, weights and states HAProxy accepts.\<close>

definition api_word :: "string \<Rightarrow> bool" where
  "api_word s \<longleftrightarrow> word s \<and> CHR ''/'' \<notin> set s"

definition api_addr :: "(string \<Rightarrow> bool) \<Rightarrow> string \<Rightarrow> string \<Rightarrow> bool" where
  "api_addr is_ip ip port \<longleftrightarrow> is_ip ip \<and> api_word ip \<and> CHR '':'' \<notin> set ip \<and>
     port \<noteq> [] \<and> list_all is_digit port"

fun cmd_ok :: "(string \<Rightarrow> bool) \<Rightarrow> api_cmd \<Rightarrow> bool" where
  "cmd_ok is_ip (Add_server b s ip port) \<longleftrightarrow> api_word b \<and> api_word s \<and> api_addr is_ip ip port"
| "cmd_ok is_ip (Del_server b s) \<longleftrightarrow> api_word b \<and> api_word s"
| "cmd_ok is_ip (Set_weight b s w) \<longleftrightarrow> api_word b \<and> api_word s \<and> unat w \<le> 256"
| "cmd_ok is_ip (Set_state b s st) \<longleftrightarrow> api_word b \<and> api_word s \<and> st \<in> {''ready'', ''maint''}"
| "cmd_ok is_ip (Set_addr b s ip port) \<longleftrightarrow> api_word b \<and> api_word s \<and> api_addr is_ip ip port"

definition haproxy_admin :: "(string \<Rightarrow> bool) \<Rightarrow> 'h host \<Rightarrow> ('h \<Rightarrow> proxy) \<Rightarrow> bool" where
  "haproxy_admin is_ip x view \<longleftrightarrow>
     (\<forall>c h. cmd_ok is_ip c \<longrightarrow>
        (\<exists>resp h'. h_socket x (api_text c @ [NL]) h = (Inr resp, h') \<and> api_outcome c (view h) resp (view h')))"

text \<open>
  With the file: the socket does not touch it, and the check and the file operations, whether they
  succeed or fail, do not touch the running process. Whether the check passes and whether a signal
  arrives is left open. A signal that arrives starts a worker on the file: it knows the backends of
  the file and none of the servers added to the worker it replaces.
\<close>

definition backends_in :: "string \<Rightarrow> string \<Rightarrow> bool" where
  "backends_in content b \<longleftrightarrow> list_ex (\<lambda>l. trim l = ''backend '' @ b \<and> starts_section l) (str_lines content)"

definition haproxy_host ::
  "(string \<Rightarrow> bool) \<Rightarrow> 'h host \<Rightarrow> ('h \<Rightarrow> string) \<Rightarrow> ('h \<Rightarrow> proxy) \<Rightarrow> bool" where
  "haproxy_host is_ip x file view \<longleftrightarrow>
     config_files x file \<and> haproxy_admin is_ip x view \<and>
     (\<forall>t h. file (snd (h_socket x t h)) = file h) \<and>
     (\<forall>h. view (snd (h_read_cfg x h)) = view h) \<and>
     (\<forall>t h. view (snd (h_write_cfg x t h)) = view h) \<and>
     (\<forall>h. view (snd (h_check_cfg x h)) = view h) \<and>
     (\<forall>h. view (snd (h_read_pid x h)) = view h) \<and>
     (\<forall>pid h. case h_sigusr2 x pid h of
        (Inl _, h') \<Rightarrow> view h' = view h
      | (Inr _, h') \<Rightarrow> view h' = \<lparr>known_backend = backends_in (file h), servers = Map.empty\<rparr>)"

subsection \<open>Each operation under the contract\<close>

lemma missing_is_error: "missing_answer r \<Longrightarrow> error_answer r"
  by (auto simp: missing_answer_def error_answer_def ERROR_PREFIXES_def prefix_def)

lemma contains_prefix: "prefix p s \<Longrightarrow> contains p s"
  by (cases s) auto

lemma contains_append_left: "contains p s \<Longrightarrow> contains p (t @ s)"
  by (induction t) auto

lemma missing_contains: "missing_answer r \<Longrightarrow> contains ''No such server'' (trim r)"
  by (simp add: missing_answer_def contains_prefix)

lemma send_command_api:
  assumes "haproxy_admin is_ip x view" and "cmd_ok is_ip c"
  obtains resp h' where "api_outcome c (view h) resp (view h')"
    and "send_command x (api_text c) h =
      (if error_answer resp then Inl (Response (trim resp)) else Inr (trim resp), h')"
proof -
  obtain resp h' where "h_socket x (api_text c @ [NL]) h = (Inr resp, h')"
    and "api_outcome c (view h) resp (view h')"
    using assms unfolding haproxy_admin_def by blast
  then show ?thesis
    using that [of resp h'] by (simp add: send_command_def error_answer_def Let_def okE_def errE_def)
qed

text \<open>The two outcomes of a command on a server.\<close>

lemma on_server_done:
  "on_server b s upd p resp p' \<Longrightarrow> known_backend p b \<Longrightarrow> servers p (b, s) = Some v \<Longrightarrow>
     \<not> error_answer resp \<and> p' = p\<lparr>servers := (servers p)((b, s) \<mapsto> upd v)\<rparr>"
  by (simp add: on_server_def)

lemma on_server_missing:
  "on_server b s upd p resp p' \<Longrightarrow> known_backend p b \<Longrightarrow> servers p (b, s) = None \<Longrightarrow>
     error_answer resp \<and> missing_answer resp \<and> p' = p"
  by (simp add: on_server_def missing_is_error)

lemma on_server_unknown:
  "on_server b s upd p resp p' \<Longrightarrow> \<not> known_backend p b \<Longrightarrow>
     error_answer resp \<and> \<not> contains ''No such server'' (trim resp) \<and> p' = p"
  by (simp add: on_server_def)

lemmas on_server_cases = on_server_done on_server_missing on_server_unknown

subsection \<open>A simulated HAProxy\<close>

text \<open>
  An executable process that meets the contract, for the witnesses: it reads the text of a command
  back and answers as HAProxy does. Its state is the file and what the worker knows.
\<close>

function split_at :: "char \<Rightarrow> string \<Rightarrow> string list" where
  "split_at c s =
     (case dropWhile (\<lambda>d. d \<noteq> c) s of
        [] \<Rightarrow> [s]
      | _ # r \<Rightarrow> takeWhile (\<lambda>d. d \<noteq> c) s # split_at c r)"
  by pat_completeness auto
termination
proof (relation "measure (\<lambda>(c, s). length s)", simp_all)
  fix c x :: char and s r :: string
  assume "dropWhile (\<lambda>d. d \<noteq> c) s = x # r"
  then have "length (x # r) \<le> length s" by (metis length_dropWhile_le)
  then show "length r < length s" by simp
qed

declare split_at.simps [simp del]

lemma split_at_last: "c \<notin> set s \<Longrightarrow> split_at c s = [s]"
proof -
  assume "c \<notin> set s"
  then have "dropWhile (\<lambda>d. d \<noteq> c) s = []" by (auto simp: dropWhile_eq_Nil_conv)
  then show ?thesis by (simp add: split_at.simps del: dropWhile_eq_Nil_conv)
qed

lemma split_at_step: "c \<notin> set s \<Longrightarrow> split_at c (s @ c # r) = s # split_at c r"
  by (subst split_at.simps) (simp add: split_before)

definition sim_parse :: "string \<Rightarrow> api_cmd option" where
  "sim_parse t =
     (case split_at (CHR 0x20) (butlast t) of
        [v, k, bs] \<Rightarrow>
          if v = ''del'' then
            (case split_at (CHR ''/'') bs of [b, s] \<Rightarrow> Some (Del_server b s) | _ \<Rightarrow> None)
          else None
      | [v, k, bs, a] \<Rightarrow>
          (case split_at (CHR ''/'') bs of
             [b, s] \<Rightarrow>
               if v = ''add'' then
                 (case split_at (CHR '':'') a of [ip, port] \<Rightarrow> Some (Add_server b s ip port) | _ \<Rightarrow> None)
               else (case parse_u32 a of Some w \<Rightarrow> Some (Set_weight b s w) | None \<Rightarrow> None)
           | _ \<Rightarrow> None)
      | [v, k, bs, q, st] \<Rightarrow>
          (case split_at (CHR ''/'') bs of [b, s] \<Rightarrow> Some (Set_state b s st) | _ \<Rightarrow> None)
      | [v, k, bs, q, ip, r, port] \<Rightarrow>
          (case split_at (CHR ''/'') bs of [b, s] \<Rightarrow> Some (Set_addr b s ip port) | _ \<Rightarrow> None)
      | _ \<Rightarrow> None)"

lemma no_space:
  "word s \<Longrightarrow> CHR 0x20 \<notin> set s"
  "list_all is_digit p \<Longrightarrow> CHR 0x20 \<notin> set p"
  "list_all is_digit p \<Longrightarrow> CHR '':'' \<notin> set p"
  by (auto simp: word_def is_ws_def is_digit_def list_all_iff)

lemma split_two: "c \<notin> set v \<Longrightarrow> c \<notin> set k \<Longrightarrow> split_at c (v @ c # k @ c # t) = v # k # split_at c t"
  by (simp add: split_at_step)

lemma split_verb:
  "split_at (CHR 0x20) (''add server '' @ t) = ''add'' # ''server'' # split_at (CHR 0x20) t"
  "split_at (CHR 0x20) (''del server '' @ t) = ''del'' # ''server'' # split_at (CHR 0x20) t"
  "split_at (CHR 0x20) (''set weight '' @ t) = ''set'' # ''weight'' # split_at (CHR 0x20) t"
  "split_at (CHR 0x20) (''set server '' @ t) = ''set'' # ''server'' # split_at (CHR 0x20) t"
  subgoal using split_two [of "CHR 0x20" "''add''" "''server''" t] by simp
  subgoal using split_two [of "CHR 0x20" "''del''" "''server''" t] by simp
  subgoal using split_two [of "CHR 0x20" "''set''" "''weight''" t] by simp
  subgoal using split_two [of "CHR 0x20" "''set''" "''server''" t] by simp
  done

lemma split_word: "CHR 0x20 \<notin> set w \<Longrightarrow> split_at (CHR 0x20) (w @ '' '' @ t) = w # split_at (CHR 0x20) t"
  using split_at_step [of "CHR 0x20" w t] by simp

lemma split_path:
  assumes "api_word b" "api_word s"
  shows "split_at (CHR 0x20) (b @ ''/'' @ s @ '' '' @ t) = (b @ ''/'' @ s) # split_at (CHR 0x20) t"
    "split_at (CHR 0x20) (b @ ''/'' @ s) = [b @ ''/'' @ s]"
    "split_at (CHR ''/'') (b @ ''/'' @ s) = [b, s]"
proof -
  have n: "CHR 0x20 \<notin> set (b @ ''/'' @ s)" and d: "CHR ''/'' \<notin> set b" "CHR ''/'' \<notin> set s"
    using assms by (auto simp: api_word_def no_space)
  show "split_at (CHR 0x20) (b @ ''/'' @ s @ '' '' @ t) = (b @ ''/'' @ s) # split_at (CHR 0x20) t"
    using split_word [OF n, of t] by simp
  show "split_at (CHR 0x20) (b @ ''/'' @ s) = [b @ ''/'' @ s]" using n by (rule split_at_last)
  show "split_at (CHR ''/'') (b @ ''/'' @ s) = [b, s]"
    using split_at_step [OF d(1), of s] split_at_last [OF d(2)] by simp
qed

lemma split_addr:
  assumes "api_addr is_ip ip port"
  shows "split_at (CHR '':'') (ip @ '':'' @ port) = [ip, port]"
    "split_at (CHR 0x20) (ip @ '':'' @ port) = [ip @ '':'' @ port]"
    "split_at (CHR 0x20) (ip @ '' '' @ t) = ip # split_at (CHR 0x20) t"
    "split_at (CHR 0x20) port = [port]"
proof -
  have *: "CHR '':'' \<notin> set ip" "CHR '':'' \<notin> set port" "CHR 0x20 \<notin> set ip" "CHR 0x20 \<notin> set port"
    using assms no_space by (auto simp: api_addr_def api_word_def)
  show "split_at (CHR '':'') (ip @ '':'' @ port) = [ip, port]"
    using split_at_step [OF *(1), of port] split_at_last [OF *(2)] by simp
  show "split_at (CHR 0x20) (ip @ '':'' @ port) = [ip @ '':'' @ port]"
    by (rule split_at_last) (use * in auto)
  show "split_at (CHR 0x20) (ip @ '' '' @ t) = ip # split_at (CHR 0x20) t" using *(3) by (rule split_word)
  show "split_at (CHR 0x20) port = [port]" using *(4) by (rule split_at_last)
qed

lemma split_cmd:
  "api_word b \<Longrightarrow> api_word s \<Longrightarrow> api_addr is_ip ip port \<Longrightarrow>
     split_at (CHR 0x20) (api_text (Add_server b s ip port)) = [''add'', ''server'', b @ ''/'' @ s, ip @ '':'' @ port]"
  "api_word b \<Longrightarrow> api_word s \<Longrightarrow>
     split_at (CHR 0x20) (api_text (Del_server b s)) = [''del'', ''server'', b @ ''/'' @ s]"
  "api_word b \<Longrightarrow> api_word s \<Longrightarrow>
     split_at (CHR 0x20) (api_text (Set_weight b s w)) = [''set'', ''weight'', b @ ''/'' @ s, show_nat (unat w)]"
  "api_word b \<Longrightarrow> api_word s \<Longrightarrow> CHR 0x20 \<notin> set st \<Longrightarrow>
     split_at (CHR 0x20) (api_text (Set_state b s st)) = [''set'', ''server'', b @ ''/'' @ s, ''state'', st]"
  "api_word b \<Longrightarrow> api_word s \<Longrightarrow> api_addr is_ip ip port \<Longrightarrow>
     split_at (CHR 0x20) (api_text (Set_addr b s ip port)) =
       [''set'', ''server'', b @ ''/'' @ s, ''addr'', ip, ''port'', port]"
  subgoal using split_path(1) [of b s "ip @ '':'' @ port"] split_addr(2) [of is_ip ip port]
    by (simp only: api_text.simps split_verb)
  subgoal using split_path(2) [of b s] by (simp only: api_text.simps split_verb)
  subgoal using split_path(1) [of b s "show_nat (unat w)"] split_at_last [OF no_space(2) [OF show_nat_digits]]
    by (simp only: api_text.simps split_verb)
  subgoal using split_path(1) [of b s "''state'' @ '' '' @ st"] split_word [of "''state''" st]
      split_at_last [of "CHR 0x20" st]
    by (simp only: api_text.simps split_verb) simp
  subgoal using split_path(1) [of b s "''addr'' @ '' '' @ ip @ '' '' @ ''port'' @ '' '' @ port"]
      split_word [of "''addr''" "ip @ '' '' @ ''port'' @ '' '' @ port"]
      split_addr(3) [of is_ip ip port "''port'' @ '' '' @ port"] split_word [of "''port''" port]
      split_addr(4) [of is_ip ip port]
    by (simp only: api_text.simps split_verb) simp
  done

lemma sim_parse_text:
  assumes "cmd_ok is_ip c"
  shows "sim_parse (api_text c @ [NL]) = Some c"
proof -
  have s: "CHR 0x20 \<notin> set ''ready''" "CHR 0x20 \<notin> set ''maint''" by simp_all
  note cmds = split_cmd(1,2,3,5) split_cmd(4) [OF _ _ s(1)] split_cmd(4) [OF _ _ s(2)]
  show ?thesis using assms
    by (cases c) (auto simp: sim_parse_def cmds split_path(3) split_addr(1) simp del: api_text.simps append_Cons)
qed

text \<open>The answers, and the host built from them.\<close>

definition sim_on :: "string \<Rightarrow> string \<Rightarrow> (srv \<Rightarrow> srv) \<Rightarrow> proxy \<Rightarrow> string \<times> proxy" where
  "sim_on b s upd p =
     (if \<not> known_backend p b then (''No such backend.'', p)
      else case servers p (b, s) of
             None \<Rightarrow> (''No such server.'', p)
           | Some v \<Rightarrow> ([], p\<lparr>servers := (servers p)((b, s) \<mapsto> upd v)\<rparr>))"

fun sim_step :: "api_cmd \<Rightarrow> proxy \<Rightarrow> string \<times> proxy" where
  "sim_step (Add_server b s ip port) p =
     (if \<not> known_backend p b then (''No such backend.'', p)
      else if servers p (b, s) \<noteq> None then (''Already exists a server with the same name in backend.'', p)
      else (''New server registered.'', p\<lparr>servers := (servers p)((b, s) \<mapsto>
              \<lparr>srv_addr = ip @ '':'' @ port, srv_weight = 1, srv_state = ''maint''\<rparr>)\<rparr>))"
| "sim_step (Del_server b s) p =
     (case servers p (b, s) of
        Some v \<Rightarrow>
          if srv_state v = ''maint'' then (''Server deleted.'', p\<lparr>servers := (servers p)((b, s) := None)\<rparr>)
          else (''Only servers in maintenance mode can be deleted.'', p)
      | None \<Rightarrow> (''No such server.'', p))"
| "sim_step (Set_weight b s w) p = sim_on b s (srv_weight_update (\<lambda>_. w)) p"
| "sim_step (Set_state b s st) p = sim_on b s (srv_state_update (\<lambda>_. st)) p"
| "sim_step (Set_addr b s ip port) p = sim_on b s (srv_addr_update (\<lambda>_. ip @ '':'' @ port)) p"

definition sim_host :: "(string \<times> proxy) host" where
  "sim_host = \<lparr>
     h_read_cfg = (\<lambda>h. (Inr (fst h), h)),
     h_write_cfg = (\<lambda>t h. (Inr (), (t, snd h))),
     h_check_cfg = (\<lambda>h. (Inr (True, []), h)),
     h_pid_path = ''/run/haproxy/haproxy.pid'',
     h_read_pid = (\<lambda>h. (Inr ''17'', h)),
     h_sigusr2 = (\<lambda>pid h. (Inr (), (fst h, \<lparr>known_backend = backends_in (fst h), servers = Map.empty\<rparr>))),
     h_socket = (\<lambda>t h. case sim_parse t of
         None \<Rightarrow> (Inr ''Unknown command.'', h)
       | Some c \<Rightarrow> (Inr (fst (sim_step c (snd h))), (fst h, snd (sim_step c (snd h)))))\<rparr>"

lemma sim_answers:
  "error_answer ''No such backend.''" "error_answer ''No such server.''" "missing_answer ''No such server.''"
  "\<not> contains ''No such server'' (trim ''No such backend.'')"
  "\<not> error_answer ''New server registered.''" "\<not> error_answer ''Server deleted.''" "\<not> error_answer []"
  by (simp_all add: error_answer_def missing_answer_def ERROR_PREFIXES_def trim_def is_ws_def)

lemma sim_on_server: "on_server b s upd p (fst (sim_on b s upd p)) (snd (sim_on b s upd p))"
  by (auto simp: on_server_def sim_on_def sim_answers split: option.splits)

lemma sim_step_outcome: "api_outcome c p (fst (sim_step c p)) (snd (sim_step c p))"
  by (cases c) (auto simp: sim_on_server sim_answers split: option.splits)

lemma sim_host_ok: "haproxy_host is_ip sim_host fst snd"
proof -
  have "haproxy_admin is_ip sim_host snd"
    unfolding haproxy_admin_def
  proof (intro allI impI)
    fix c and h :: "string \<times> proxy"
    assume "cmd_ok is_ip c"
    then have "h_socket sim_host (api_text c @ [NL]) h =
        (Inr (fst (sim_step c (snd h))), (fst h, snd (sim_step c (snd h))))"
      by (simp add: sim_host_def sim_parse_text)
    then show "\<exists>resp h'. h_socket sim_host (api_text c @ [NL]) h = (Inr resp, h') \<and>
        api_outcome c (snd h) resp (snd h')"
      by (auto intro: sim_step_outcome)
  qed
  moreover have "config_files sim_host fst" by (simp add: config_files_def sim_host_def)
  ultimately show ?thesis
    unfolding haproxy_host_def by (auto simp: sim_host_def split: option.splits)
qed

end
