(* ===== verification/Haproxy_Manager.thy ===== *)
theory Haproxy_Manager
  imports Haproxy_Runtime
begin

text \<open>
  \<^verbatim>\<open>haproxy-manager/src/lib.rs\<close>: the operations the registrar calls, built from the edits of the
  configuration and the commands of the admin socket. The pure functions of third-party crates
  (UUID and time formats) are a record of parameters, \<open>crates\<close>.
\<close>

subsection \<open>The operations\<close>

type_synonym uuid = "128 word"

record crates =
  uuid_simple :: "uuid \<Rightarrow> string"
  uuid_text :: "uuid \<Rightarrow> string"
  uuid_parse :: "string \<Rightarrow> uuid option"
  to_rfc3339 :: "int \<Rightarrow> string"
  parse_rfc3339 :: "string \<Rightarrow> int option"

datatype error = Runtime runtime_error | Config config_error | Subdomain string

fun config_error_text :: "config_error \<Rightarrow> string" where
  "config_error_text (config_error.Io e) = ''io error: '' @ e"
| "config_error_text FrontendNotFound =
     ''frontend section not found in haproxy config '' @ [CHR 0xE2, CHR 0x80, CHR 0x94] @ '' cannot insert ACL''"
| "config_error_text (ValidationFailed e) = ''haproxy config validation failed: '' @ e"
| "config_error_text (ReloadFailed e) = ''haproxy reload failed: '' @ e"

fun error_text :: "error \<Rightarrow> string" where
  "error_text (Runtime e) = ''runtime API error: '' @ runtime_error_text e"
| "error_text (Config e) = ''config error: '' @ config_error_text e"
| "error_text (Subdomain e) = ''subdomain error: '' @ e"

definition server_name_for :: "crates \<Rightarrow> uuid \<Rightarrow> string" where
  "server_name_for k vid = uuid_simple k vid"

definition add_volunteer ::
  "'h host \<Rightarrow> crates \<Rightarrow> string \<Rightarrow> uuid \<Rightarrow> string \<Rightarrow> u32 \<Rightarrow> 'h \<Rightarrow> (error + unit) \<times> 'h" where
  "add_volunteer x k service_name volunteer_id addr weight =
     (let server_name = server_name_for k volunteer_id
      in tryE (map_errE Runtime (add_server x service_name server_name addr)) (\<lambda>_.
         tryE (map_errE Runtime (set_weight x service_name server_name weight)) (\<lambda>_.
         tryE (map_errE Runtime (set_state x service_name server_name ''ready'')) (\<lambda>_. okE ()))))"

definition remove_volunteer :: "'h host \<Rightarrow> crates \<Rightarrow> string \<Rightarrow> uuid \<Rightarrow> 'h \<Rightarrow> (error + unit) \<times> 'h" where
  "remove_volunteer x k service_name volunteer_id =
     (let server_name = server_name_for k volunteer_id
      in tryE (map_errE Runtime (set_state x service_name server_name ''maint'')) (\<lambda>_.
         tryE (map_errE Runtime (remove_server x service_name server_name)) (\<lambda>_. okE ())))"

definition upsert_server ::
  "'h host \<Rightarrow> string \<Rightarrow> string \<Rightarrow> string \<Rightarrow> u32 \<Rightarrow> 'h \<Rightarrow> (error + unit) \<times> 'h" where
  "upsert_server x backend server_name addr weight =
     tryE (\<lambda>h. case set_addr x backend server_name addr h of
         (Inr _, h') \<Rightarrow> (Inr (), h')
       | (Inl e, h') \<Rightarrow>
           if contains ''No such server'' (runtime_error_text e)
           then map_errE Runtime (add_server x backend server_name addr) h'
           else (Inl (Runtime e), h')) (\<lambda>_.
     tryE (map_errE Runtime (set_weight x backend server_name weight)) (\<lambda>_.
     tryE (map_errE Runtime (set_state x backend server_name ''ready'')) (\<lambda>_. okE ())))"

definition upsert_volunteer ::
  "'h host \<Rightarrow> crates \<Rightarrow> string \<Rightarrow> uuid \<Rightarrow> string \<Rightarrow> u32 \<Rightarrow> 'h \<Rightarrow> (error + unit) \<times> 'h" where
  "upsert_volunteer x k service_name volunteer_id addr weight =
     tryE (upsert_server x service_name (server_name_for k volunteer_id) addr weight) (\<lambda>_. okE ())"

definition set_volunteer_weight ::
  "'h host \<Rightarrow> crates \<Rightarrow> string \<Rightarrow> uuid \<Rightarrow> u32 \<Rightarrow> 'h \<Rightarrow> (error + unit) \<times> 'h" where
  "set_volunteer_weight x k service_name volunteer_id weight =
     tryE (map_errE Runtime (set_weight x service_name (server_name_for k volunteer_id) weight)) (\<lambda>_. okE ())"

definition ensure_service_config :: "'h host \<Rightarrow> string \<Rightarrow> string \<Rightarrow> 'h \<Rightarrow> (error + unit) \<times> 'h" where
  "ensure_service_config x service_name domain =
     tryE (map_errE Config (add_service x (''svc_'' @ service_name) domain)) (\<lambda>_. okE ())"

definition upsert_svc_server :: "'h host \<Rightarrow> string \<Rightarrow> string \<Rightarrow> 'h \<Rightarrow> (error + unit) \<times> 'h" where
  "upsert_svc_server x service_name tunnel_addr =
     upsert_server x (''svc_'' @ service_name) ''primary'' tunnel_addr 100"

definition restore_service_server :: "'h host \<Rightarrow> string \<Rightarrow> uuid \<Rightarrow> string \<Rightarrow> 'h \<Rightarrow> (error + unit) \<times> 'h" where
  "restore_service_server x service_name volunteer_id tunnel_addr = upsert_svc_server x service_name tunnel_addr"

definition assign_service ::
  "'h host \<Rightarrow> string \<Rightarrow> string \<Rightarrow> uuid \<Rightarrow> string \<Rightarrow> 'h \<Rightarrow> (error + unit) \<times> 'h" where
  "assign_service x service_name domain volunteer_id tunnel_addr =
     tryE (map_errE Config (add_service x (''svc_'' @ service_name) domain)) (\<lambda>_.
     tryE (upsert_svc_server x service_name tunnel_addr) (\<lambda>_. okE ()))"

definition register_service :: "'h host \<Rightarrow> string \<Rightarrow> string \<Rightarrow> 'h \<Rightarrow> (error + unit) \<times> 'h" where
  "register_service x service_name domain =
     tryE (map_errE Config (add_service x service_name domain)) (\<lambda>_. okE ())"

definition ensure_service :: "'h host \<Rightarrow> string \<Rightarrow> string \<Rightarrow> 'h \<Rightarrow> (error + unit) \<times> 'h" where
  "ensure_service x service_name domain =
     tryE (map_errE Config (add_service x service_name domain)) (\<lambda>_. okE ())"

definition unregister_service :: "'h host \<Rightarrow> string \<Rightarrow> 'h \<Rightarrow> (error + unit) \<times> 'h" where
  "unregister_service x service_name = tryE (map_errE Config (remove_service x service_name)) (\<lambda>_. okE ())"

definition list_backends :: "'h host \<Rightarrow> 'h \<Rightarrow> (error + string list) \<times> 'h" where
  "list_backends x = tryE (map_errE Config (list_services x)) okE"

text \<open>Maintenance, new address, ready again: for one server.\<close>

definition move_server :: "'h host \<Rightarrow> string \<Rightarrow> string \<Rightarrow> string \<Rightarrow> 'h \<Rightarrow> (error + unit) \<times> 'h" where
  "move_server x backend server_name addr =
     tryE (map_errE Runtime (set_state x backend server_name ''maint'')) (\<lambda>_.
     tryE (map_errE Runtime (set_addr x backend server_name addr)) (\<lambda>_.
     tryE (map_errE Runtime (set_state x backend server_name ''ready'')) (\<lambda>_. okE ())))"

definition update_volunteer_addr ::
  "'h host \<Rightarrow> crates \<Rightarrow> uuid \<Rightarrow> string \<Rightarrow> (string \<times> string) option \<Rightarrow> 'h \<Rightarrow> (error + unit) \<times> 'h" where
  "update_volunteer_addr x k volunteer_id new_volunteers_addr assigned_service =
     tryE (move_server x ''volunteers'' (server_name_for k volunteer_id) new_volunteers_addr) (\<lambda>_.
       case assigned_service of
         Some (service_name, tunnel_addr) \<Rightarrow>
           tryE (move_server x (''svc_'' @ service_name) ''primary'' tunnel_addr) (\<lambda>_. okE ())
       | None \<Rightarrow> okE ())"

subsection \<open>The runtime operations under the contract\<close>

text \<open>Each operation is one command of the contract.\<close>

lemma run_cmds:
  "remove_server x b s = tryE (send_command x (api_text (Del_server b s))) (\<lambda>_. okE ())"
  "set_weight x b s w = tryE (send_command x (api_text (Set_weight b s w))) (\<lambda>_. okE ())"
  "set_state x b s st = tryE (send_command x (api_text (Set_state b s st))) (\<lambda>_. okE ())"
  "add_server x b s (ip @ '':'' @ port) = tryE (send_command x (api_text (Add_server b s ip port))) (\<lambda>_. okE ())"
  "api_addr is_ip ip port \<Longrightarrow>
     set_addr x b s (ip @ '':'' @ port) = tryE (send_command x (api_text (Set_addr b s ip port))) (\<lambda>_. okE ())"
  using rsplit_once_addr [of port ip]
  by (simp_all add: remove_server_def set_weight_def set_state_def add_server_def set_addr_def
      api_addr_def no_space)

text \<open>
  \<open>succeeds view m p q\<close>: run where the process is at \<open>p\<close>, the operation \<open>m\<close> returns without error
  and leaves it at \<open>q\<close>; \<open>fails\<close>: it returns an error and leaves it at \<open>q\<close>.
\<close>

definition succeeds :: "('h \<Rightarrow> 'p) \<Rightarrow> ('h \<Rightarrow> ('e + unit) \<times> 'h) \<Rightarrow> 'p \<Rightarrow> 'p \<Rightarrow> bool" where
  "succeeds view m p q \<longleftrightarrow> (\<forall>h. view h = p \<longrightarrow> (\<exists>h'. m h = (Inr (), h') \<and> view h' = q))"

definition fails :: "('h \<Rightarrow> 'p) \<Rightarrow> ('h \<Rightarrow> ('e + unit) \<times> 'h) \<Rightarrow> 'p \<Rightarrow> 'p \<Rightarrow> bool" where
  "fails view m p q \<longleftrightarrow> (\<forall>h. view h = p \<longrightarrow> (\<exists>e h'. m h = (Inl e, h') \<and> view h' = q))"

lemma succeeds_tryE [intro]:
  "succeeds view m p q \<Longrightarrow> succeeds view m' q r \<Longrightarrow> succeeds view (tryE m (\<lambda>_. m')) p r"
  unfolding succeeds_def by fastforce

lemma succeeds_okE [simp]: "succeeds view (okE ()) p p"
  by (auto simp: succeeds_def okE_def)

lemma succeeds_map_err [simp]: "succeeds view (map_errE g m) p q \<longleftrightarrow> succeeds view m p q"
  unfolding succeeds_def map_errE_def
  by (intro all_cong1 imp_cong refl) (auto split: prod.split sum.split)

lemma succeeds_then_ok: "succeeds view m p q \<Longrightarrow> succeeds view (tryE m (\<lambda>_. okE ())) p q"
  by (erule succeeds_tryE) (rule succeeds_okE)

lemma fails_tryE: "fails view m p q \<Longrightarrow> fails view (tryE m (\<lambda>_. m')) p q"
  unfolding fails_def by fastforce

lemma fails_later: "succeeds view m p q \<Longrightarrow> fails view m' q r \<Longrightarrow> fails view (tryE m (\<lambda>_. m')) p r"
  unfolding fails_def succeeds_def by fastforce

lemma fails_map_err [simp]: "fails view (map_errE g m) p q \<longleftrightarrow> fails view m p q"
  unfolding fails_def map_errE_def
  by (intro all_cong1 imp_cong refl) (auto split: prod.split sum.split)

lemma succeedsD: "succeeds view m (view h) q \<Longrightarrow> \<exists>h'. m h = (Inr (), h') \<and> view h' = q"
  by (simp add: succeeds_def)

lemma failsD: "fails view m (view h) q \<Longrightarrow> \<exists>e h'. m h = (Inl e, h') \<and> view h' = q"
  by (simp add: fails_def)

text \<open>A command that HAProxy accepts, or answers with an error, whatever it answers exactly.\<close>

lemma cmd_succeeds:
  assumes "haproxy_admin is_ip x view" and "cmd_ok is_ip c"
    and "\<And>resp p'. api_outcome c p resp p' \<Longrightarrow> \<not> error_answer resp \<and> p' = q"
  shows "succeeds view (tryE (send_command x (api_text c)) (\<lambda>_. okE ())) p q"
  unfolding succeeds_def
proof (intro allI impI)
  fix h assume p: "view h = p"
  obtain resp h' where 1: "api_outcome c (view h) resp (view h')"
    and 2: "send_command x (api_text c) h =
      (if error_answer resp then Inl (Response (trim resp)) else Inr (trim resp), h')"
    by (rule send_command_api [OF assms(1,2)])
  with assms(3) [OF 1 [unfolded p]]
  show "\<exists>h'. tryE (send_command x (api_text c)) (\<lambda>_. okE ()) h = (Inr (), h') \<and> view h' = q"
    by (simp add: okE_def tryE_def)
qed

lemma cmd_fails:
  assumes "haproxy_admin is_ip x view" and "cmd_ok is_ip c"
    and "\<And>resp p'. api_outcome c p resp p' \<Longrightarrow> error_answer resp \<and> P (trim resp) \<and> p' = q"
    and "view h = p"
  shows "\<exists>r h'. tryE (send_command x (api_text c)) (\<lambda>_. okE ()) h = (Inl (Response r), h') \<and> P r \<and> view h' = q"
proof -
  obtain resp h' where 1: "api_outcome c (view h) resp (view h')"
    and 2: "send_command x (api_text c) h =
      (if error_answer resp then Inl (Response (trim resp)) else Inr (trim resp), h')"
    by (rule send_command_api [OF assms(1,2)])
  with assms(3) [OF 1 [unfolded assms(4)]] show ?thesis by (simp add: tryE_def)
qed

definition put_srv :: "string \<times> string \<Rightarrow> srv option \<Rightarrow> proxy \<Rightarrow> proxy" where
  "put_srv bs v p = p\<lparr>servers := (servers p)(bs := v)\<rparr>"

lemma put_srv_simps [simp]:
  "known_backend (put_srv bs v p) = known_backend p"
  "servers (put_srv bs v p) = (servers p)(bs := v)"
  "put_srv bs v (put_srv bs w p) = put_srv bs v p"
  by (simp_all add: put_srv_def)

lemma set_existing:
  assumes "haproxy_admin is_ip x view" "api_word b" "api_word s" "known_backend p b"
    "servers p (b, s) = Some v"
  shows "unat w \<le> 256 \<Longrightarrow> succeeds view (set_weight x b s w) p (put_srv (b, s) (Some (v\<lparr>srv_weight := w\<rparr>)) p)"
    and "st \<in> {''ready'', ''maint''} \<Longrightarrow>
      succeeds view (set_state x b s st) p (put_srv (b, s) (Some (v\<lparr>srv_state := st\<rparr>)) p)"
    and "api_addr is_ip ip port \<Longrightarrow> succeeds view (set_addr x b s (ip @ '':'' @ port)) p
      (put_srv (b, s) (Some (v\<lparr>srv_addr := ip @ '':'' @ port\<rparr>)) p)"
  subgoal unfolding run_cmds
    by (rule cmd_succeeds [OF assms(1)]) (use assms in \<open>auto simp: on_server_def put_srv_def\<close>)
  subgoal unfolding run_cmds
    by (rule cmd_succeeds [OF assms(1)]) (use assms in \<open>auto simp: on_server_def put_srv_def\<close>)
  subgoal unfolding run_cmds(5)
    by (rule cmd_succeeds [OF assms(1)]) (use assms in \<open>auto simp: on_server_def put_srv_def\<close>)
  done

lemma add_new:
  assumes "haproxy_admin is_ip x view" "api_word b" "api_word s" "known_backend p b"
    "servers p (b, s) = None" "api_addr is_ip ip port" "view h = p"
  shows "\<exists>h' w. add_server x b s (ip @ '':'' @ port) h = (Inr (), h') \<and>
    view h' = put_srv (b, s) (Some \<lparr>srv_addr = ip @ '':'' @ port, srv_weight = w, srv_state = ''maint''\<rparr>) p"
proof -
  obtain resp h' where 1: "api_outcome (Add_server b s ip port) (view h) resp (view h')"
    and 2: "send_command x (api_text (Add_server b s ip port)) h =
      (if error_answer resp then Inl (Response (trim resp)) else Inr (trim resp), h')"
    by (rule send_command_api [OF assms(1), of "Add_server b s ip port" h]) (use assms in auto)
  from 1 assms have "\<not> error_answer resp"
    "\<exists>w. view h' = put_srv (b, s) (Some \<lparr>srv_addr = ip @ '':'' @ port, srv_weight = w, srv_state = ''maint''\<rparr>) p"
    by (auto simp: put_srv_def)
  with 2 show ?thesis unfolding run_cmds(4) by (simp add: tryE_def okE_def)
qed

text \<open>A command for a server that is missing, or in a backend that is not known.\<close>

lemma set_missing:
  assumes "haproxy_admin is_ip x view" "api_word b" "api_word s" "servers p (b, s) = None \<or> \<not> known_backend p b"
    "view h = p"
  defines "reports m \<equiv> (\<exists>r h'. m h = (Inl (Response r), h') \<and>
      (contains ''No such server'' r \<longleftrightarrow> known_backend p b) \<and> view h' = p)"
  shows "unat w \<le> 256 \<Longrightarrow> reports (set_weight x b s w)"
    and "st \<in> {''ready'', ''maint''} \<Longrightarrow> reports (set_state x b s st)"
    and "api_addr is_ip ip port \<Longrightarrow> reports (set_addr x b s (ip @ '':'' @ port))"
  subgoal unfolding run_cmds reports_def
    by (rule cmd_fails [OF assms(1)])
      (use assms missing_contains missing_is_error in \<open>auto simp: on_server_def split: if_splits\<close>)
  subgoal unfolding run_cmds reports_def
    by (rule cmd_fails [OF assms(1)])
      (use assms missing_contains missing_is_error in \<open>auto simp: on_server_def split: if_splits\<close>)
  subgoal unfolding run_cmds(5) reports_def
    by (rule cmd_fails [OF assms(1)])
      (use assms missing_contains missing_is_error in \<open>auto simp: on_server_def split: if_splits\<close>)
  done

subsection \<open>The operations under the contract\<close>

text \<open>
  \<open>upsert_server\<close> makes the server exist, with the address and weight given and ready, whether or
  not it was there; for an unknown backend it reports an error and changes nothing.
\<close>

lemma upsert_server_done:
  assumes adm: "haproxy_admin is_ip x view" "api_word b" "api_word s" "api_addr is_ip ip port" "unat w \<le> 256"
    and known: "known_backend p b"
  shows "succeeds view (upsert_server x b s (ip @ '':'' @ port) w) p
    (put_srv (b, s) (Some \<lparr>srv_addr = ip @ '':'' @ port, srv_weight = w, srv_state = ''ready''\<rparr>) p)"
proof -
  let ?addr = "ip @ '':'' @ port"
  let ?first = "\<lambda>h. case set_addr x b s ?addr h of
         (Inr _, h') \<Rightarrow> (Inr (), h')
       | (Inl e, h') \<Rightarrow>
           if contains ''No such server'' (runtime_error_text e)
           then map_errE Runtime (add_server x b s ?addr) h'
           else (Inl (Runtime e), h')"
  have rest: "succeeds view (tryE (map_errE Runtime (set_weight x b s w)) (\<lambda>_.
      tryE (map_errE Runtime (set_state x b s ''ready'')) (\<lambda>_. okE ()))) (put_srv (b, s) (Some v) p)
      (put_srv (b, s) (Some (v\<lparr>srv_weight := w, srv_state := ''ready''\<rparr>)) p)" for v
    using set_existing(1) [OF adm(1-3), of "put_srv (b, s) (Some v) p" v w]
      set_existing(2) [OF adm(1-3), of "put_srv (b, s) (Some (v\<lparr>srv_weight := w\<rparr>)) p" "v\<lparr>srv_weight := w\<rparr>" "''ready''"]
      known adm(5)
    by (intro succeeds_tryE succeeds_then_ok) simp_all
  have first: "\<exists>v. srv_addr v = ?addr \<and> (\<exists>h'. ?first h = (Inr (), h') \<and> view h' = put_srv (b, s) (Some v) p)"
    if h: "view h = p" for h
  proof (cases "servers p (b, s)")
    case (Some v)
    from set_existing(3) [OF adm(1-3) known Some adm(4)] h show ?thesis
      by (intro exI [of _ "v\<lparr>srv_addr := ?addr\<rparr>"]) (auto simp: succeeds_def)
  next
    case None
    from set_missing(3) [OF adm(1-3) _ h adm(4)] None known obtain r h1 where
      1: "set_addr x b s ?addr h = (Inl (Response r), h1)" "contains ''No such server'' r" "view h1 = p" by auto
    from add_new [OF adm(1-3) known None adm(4) 1(3)] obtain h' u where
      "add_server x b s ?addr h1 = (Inr (), h')"
      "view h' = put_srv (b, s) (Some \<lparr>srv_addr = ?addr, srv_weight = u, srv_state = ''maint''\<rparr>) p" by auto
    with 1 contains_append_left [OF 1(2), of "''haproxy returned an error response: ''"] show ?thesis
      by (intro exI [of _ "\<lparr>srv_addr = ?addr, srv_weight = u, srv_state = ''maint''\<rparr>"])
        (simp del: append_Cons contains.simps)
  qed
  show ?thesis
    unfolding succeeds_def upsert_server_def
  proof (intro allI impI)
    fix h assume "view h = p"
    from first [OF this] obtain v h' where v: "srv_addr v = ?addr" "?first h = (Inr (), h')"
      "view h' = put_srv (b, s) (Some v) p" by (elim exE conjE)
    from rest [of v] v(3) obtain h'' where "(tryE (map_errE Runtime (set_weight x b s w)) (\<lambda>_.
        tryE (map_errE Runtime (set_state x b s ''ready'')) (\<lambda>_. okE ()))) h' = (Inr (), h'')"
      "view h'' = put_srv (b, s) (Some \<lparr>srv_addr = ?addr, srv_weight = w, srv_state = ''ready''\<rparr>) p"
      using v(1) by (cases v) (auto simp: succeeds_def)
    with v(2) show "\<exists>h''. tryE ?first (\<lambda>_. tryE (map_errE Runtime (set_weight x b s w)) (\<lambda>_.
        tryE (map_errE Runtime (set_state x b s ''ready'')) (\<lambda>_. okE ()))) h = (Inr (), h'') \<and>
        view h'' = put_srv (b, s) (Some \<lparr>srv_addr = ?addr, srv_weight = w, srv_state = ''ready''\<rparr>) p"
      by (simp only: tryE_Inr) blast
  qed
qed

lemma upsert_server_unknown:
  assumes adm: "haproxy_admin is_ip x view" "api_word b" "api_word s" "api_addr is_ip ip port"
    and known: "\<not> known_backend p b"
  shows "fails view (upsert_server x b s (ip @ '':'' @ port) w) p p"
  unfolding fails_def
proof (intro allI impI)
  fix h assume h: "view h = p"
  have pre: "\<not> contains ''No such server'' (''haproxy returned an error response: '' @ r)"
    if "\<not> contains ''No such server'' r" for r using that by simp
  from set_missing(3) [OF adm(1-3) _ h adm(4)] known obtain r h1 where
    "set_addr x b s (ip @ '':'' @ port) h = (Inl (Response r), h1)"
    "\<not> contains ''No such server'' r" "view h1 = p" by auto
  with pre [of r] show "\<exists>e h'. upsert_server x b s (ip @ '':'' @ port) w h = (Inl e, h') \<and> view h' = p"
    by (simp add: upsert_server_def tryE_def del: append_Cons contains.simps)
qed

text \<open>Removing a server that exists: it is gone, or it stays in maintenance, when HAProxy cancels the
  deletion; the answer tells the program nothing of the second case.\<close>

lemma remove_volunteer_done:
  assumes adm: "haproxy_admin is_ip x view" "api_word b" "api_word (server_name_for k i)"
    and known: "known_backend (view h) b" "servers (view h) (b, server_name_for k i) = Some v"
  shows "\<exists>r h'. remove_volunteer x k b i h = (r, h') \<and>
    (r = Inr () \<and> view h' = put_srv (b, server_name_for k i) None (view h) \<or>
     view h' = put_srv (b, server_name_for k i) (Some (v\<lparr>srv_state := ''maint''\<rparr>)) (view h))"
proof -
  let ?s = "server_name_for k i"
  from succeedsD [OF set_existing(2) [OF adm(1-3) known, of "''maint''"]] obtain h1 where
    1: "set_state x b ?s ''maint'' h = (Inr (), h1)"
    "view h1 = put_srv (b, ?s) (Some (v\<lparr>srv_state := ''maint''\<rparr>)) (view h)" by auto
  obtain resp h2 where o: "api_outcome (Del_server b ?s) (view h1) resp (view h2)"
    and 2: "send_command x (api_text (Del_server b ?s)) h1 =
      (if error_answer resp then Inl (Response (trim resp)) else Inr (trim resp), h2)"
    by (rule send_command_api [OF adm(1), of "Del_server b ?s" h1]) (use adm in auto)
  have r: "remove_volunteer x k b i h =
      (if error_answer resp then Inl (Runtime (Response (trim resp))) else Inr (), h2)"
    using 1(1) 2 by (simp add: remove_volunteer_def Let_def run_cmds(1) map_errE_def okE_def tryE_def)
  from o 1(2) have "view h2 = view h1 \<or> \<not> error_answer resp \<and> view h2 = put_srv (b, ?s) None (view h)"
    by (auto simp: put_srv_def)
  with r 1(2) show ?thesis by auto
qed

lemma set_state_fails:
  assumes adm: "haproxy_admin is_ip x view" "api_word b" "api_word s"
    and "servers p (b, s) = None \<or> \<not> known_backend p b"
  shows "fails view (set_state x b s ''maint'') p p"
  unfolding fails_def
proof (intro allI impI)
  fix h assume "view h = p"
  from set_missing(2) [OF assms this, of "''maint''"]
  show "\<exists>e h'. set_state x b s ''maint'' h = (Inl e, h') \<and> view h' = p" by blast
qed

lemma remove_volunteer_missing:
  assumes adm: "haproxy_admin is_ip x view" "api_word b" "api_word (server_name_for k i)"
    and "servers p (b, server_name_for k i) = None \<or> \<not> known_backend p b"
  shows "fails view (remove_volunteer x k b i) p p"
proof -
  have "fails view (set_state x b (server_name_for k i) ''maint'') p p"
    by (rule set_state_fails [OF assms])
  then show ?thesis unfolding remove_volunteer_def Let_def by (intro fails_tryE) simp
qed

lemma move_server_done:
  assumes adm: "haproxy_admin is_ip x view" "api_word b" "api_word s" "api_addr is_ip ip port"
    and known: "known_backend p b" "servers p (b, s) = Some v"
  shows "succeeds view (move_server x b s (ip @ '':'' @ port)) p
    (put_srv (b, s) (Some (v\<lparr>srv_addr := ip @ '':'' @ port, srv_state := ''ready''\<rparr>)) p)"
proof -
  let ?v1 = "v\<lparr>srv_state := ''maint''\<rparr>" and ?v2 = "v\<lparr>srv_state := ''maint'', srv_addr := ip @ '':'' @ port\<rparr>"
  note ops = set_existing [OF adm(1-3)]
  have "succeeds view (set_addr x b s (ip @ '':'' @ port)) (put_srv (b, s) (Some ?v1) p) (put_srv (b, s) (Some ?v2) p)"
    using ops(3) [of "put_srv (b, s) (Some ?v1) p" ?v1 ip port] known adm(4) by simp
  moreover have "succeeds view (set_state x b s ''ready'') (put_srv (b, s) (Some ?v2) p)
      (put_srv (b, s) (Some (v\<lparr>srv_addr := ip @ '':'' @ port, srv_state := ''ready''\<rparr>)) p)"
    using ops(2) [of "put_srv (b, s) (Some ?v2) p" ?v2 "''ready''"] known by simp
  ultimately show ?thesis using ops(2) [OF known, of "''maint''"]
    unfolding move_server_def by (intro succeeds_tryE succeeds_then_ok) simp_all
qed

lemma move_server_missing:
  assumes adm: "haproxy_admin is_ip x view" "api_word b" "api_word s"
    and "servers p (b, s) = None \<or> \<not> known_backend p b"
  shows "fails view (move_server x b s addr) p p"
proof -
  have "fails view (set_state x b s ''maint'') p p" by (rule set_state_fails [OF assms])
  then show ?thesis unfolding move_server_def by (intro fails_tryE) simp
qed

subsection \<open>File and process together\<close>

text \<open>The admin socket does not touch the file.\<close>

definition keeps :: "('h \<Rightarrow> 'p) \<Rightarrow> ('h \<Rightarrow> ('e + 'a) \<times> 'h) \<Rightarrow> bool" where
  "keeps file m \<longleftrightarrow> (\<forall>h. file (snd (m h)) = file h)"

lemma keepsD: "keeps file m \<Longrightarrow> m h = (r, h') \<Longrightarrow> file h' = file h"
  unfolding keeps_def by (metis snd_conv)

lemma keeps_tryE [intro]: "keeps file m \<Longrightarrow> (\<And>a. keeps file (f a)) \<Longrightarrow> keeps file (tryE m f)"
  unfolding keeps_def tryE_def by (auto split: prod.splits sum.splits) (metis snd_conv)+

lemma keeps_basic [simp]: "keeps file (okE a)" "keeps file (errE e)"
  "keeps file m \<Longrightarrow> keeps file (map_errE g m)"
  unfolding keeps_def by (auto simp: okE_def errE_def map_errE_def split: prod.splits sum.splits) (metis snd_conv)+

lemma keeps_socket: "haproxy_host is_ip x file view \<Longrightarrow> keeps file (h_socket x t)"
  by (simp add: haproxy_host_def keeps_def)

lemma keeps_send: "haproxy_host is_ip x file view \<Longrightarrow> keeps file (send_command x cmd)"
  unfolding send_command_def by (intro keeps_tryE) (simp_all add: keeps_socket Let_def)

lemma keeps_runtime:
  assumes "haproxy_host is_ip x file view"
  shows "keeps file (add_server x b s a)" "keeps file (remove_server x b s)" "keeps file (set_weight x b s w)"
    "keeps file (set_state x b s st)" "keeps file (set_addr x b s a)"
  using assms
  by (auto simp: add_server_def remove_server_def set_weight_def set_state_def set_addr_def
      keeps_send split: option.splits)

lemma keeps_upsert:
  assumes "haproxy_host is_ip x file view"
  shows "keeps file (upsert_server x b s a w)"
proof -
  have "keeps file (\<lambda>h. case set_addr x b s a h of
         (Inr _, h') \<Rightarrow> (Inr (), h')
       | (Inl e, h') \<Rightarrow>
           if contains ''No such server'' (runtime_error_text e)
           then map_errE Runtime (add_server x b s a) h'
           else (Inl (Runtime e), h'))"
    using keeps_runtime(1,5) [OF assms, of b s a]
    unfolding keeps_def
    by (auto simp: map_errE_def split: prod.splits sum.splits) (metis snd_conv)+
  then show ?thesis unfolding upsert_server_def
    using keeps_runtime [OF assms] by (intro keeps_tryE) simp_all
qed

text \<open>A change of the configuration that returns without error started a worker on the new file.\<close>

lemma reload_view:
  assumes "haproxy_host is_ip x file view" "reload_haproxy x h = (Inr (), h')"
  shows "view h' = \<lparr>known_backend = backends_in (file h), servers = Map.empty\<rparr>"
proof -
  obtain t h1 where 1: "h_read_pid x h = (Inr t, h1)"
    using assms(2) by (cases "h_read_pid x h"; cases "fst (h_read_pid x h)") (auto simp: reload_haproxy_def)
  then obtain pid where 2: "parse_u32 (trim t) = Some pid"
    using assms(2) by (cases "parse_u32 (trim t)") (auto simp: reload_haproxy_def errE_def)
  with 1 have 3: "h_sigusr2 x pid h1 = (Inr (), h')"
    using assms(2) by (cases "h_sigusr2 x pid h1"; cases "fst (h_sigusr2 x pid h1)") (auto simp: reload_haproxy_def)
  have "file h1 = file h"
    using assms(1) 1 unfolding haproxy_host_def config_files_def by (metis snd_conv)
  moreover have "case h_sigusr2 x pid h1 of
        (Inl _, h') \<Rightarrow> view h' = view h1
      | (Inr _, h') \<Rightarrow> view h' = \<lparr>known_backend = backends_in (file h1), servers = Map.empty\<rparr>"
    using assms(1) by (simp add: haproxy_host_def)
  ultimately show ?thesis using 3 by simp
qed

text \<open>Reading, writing and checking the file, and a reload that fails, leave the running process as it
  was, whether they succeed or not.\<close>

lemma keeps_view:
  assumes "haproxy_host is_ip x file view"
  shows "keeps view (read_config x)" "keeps view (write_config x t)" "keeps view (validate_config x)"
  unfolding read_config_def write_config_def validate_config_def
  using assms by (auto simp: haproxy_host_def keeps_def [of view "h_read_cfg x"] keeps_def [of view "h_write_cfg x t"]
      keeps_def [of view "h_check_cfg x"] intro!: keeps_tryE split: if_splits)

lemma failed_reload_view:
  assumes "haproxy_host is_ip x file view" "reload_haproxy x h = (Inl e, h')"
  shows "view h' = view h"
proof -
  have pid: "keeps view (h_read_pid x)" using assms(1) by (simp add: haproxy_host_def keeps_def)
  have sig: "view h2 = view h1" if "h_sigusr2 x p h1 = (Inl m, h2)" for p m h1 h2
  proof -
    have "case h_sigusr2 x p h1 of
        (Inl _, h') \<Rightarrow> view h' = view h1
      | (Inr _, h') \<Rightarrow> view h' = \<lparr>known_backend = backends_in (file h1), servers = Map.empty\<rparr>"
      using assms(1) by (simp add: haproxy_host_def)
    with that show ?thesis by simp
  qed
  obtain t h1 where 1: "h_read_pid x h = (t, h1)" by (cases "h_read_pid x h")
  note v1 = keepsD [OF pid 1]
  show ?thesis
  proof (cases t)
    case (Inl m)
    with 1 v1 assms(2) show ?thesis by (auto simp: reload_haproxy_def)
  next
    case (Inr u)
    show ?thesis
    proof (cases "parse_u32 (trim u)")
      case None
      with Inr 1 v1 assms(2) show ?thesis by (auto simp: reload_haproxy_def errE_def)
    next
      case (Some p)
      with Inr 1 assms(2) have "\<exists>m. h_sigusr2 x p h1 = (Inl m, h')"
        by (cases "h_sigusr2 x p h1"; cases "fst (h_sigusr2 x p h1)") (auto simp: reload_haproxy_def)
      with sig v1 show ?thesis by auto
    qed
  qed
qed

lemma commit_view:
  assumes "haproxy_host is_ip x file view" "commit_config x c new h = (r, h')"
  shows "view h' = (case r of Inr _ \<Rightarrow> \<lparr>known_backend = backends_in new, servers = Map.empty\<rparr> | Inl _ \<Rightarrow> view h)"
proof -
  have ff: "config_files x file" using assms(1) by (simp add: haproxy_host_def)
  note keep = keeps_view [OF assms(1)]
  obtain q1 h1 where w: "write_config x new h = (q1, h1)" by (cases "write_config x new h")
  note v1 = keepsD [OF keep(2) w]
  obtain v h2 where v: "validate_config x h1 = (v, h2)" by (cases "validate_config x h1")
  note v2 = keepsD [OF keep(3) v]
  obtain q3 h3 where b: "write_config x c h2 = (q3, h3)" by (cases "write_config x c h2")
  note v3 = keepsD [OF keep(2) b]
  obtain q h4 where q: "reload_haproxy x h2 = (q, h4)" by (cases "reload_haproxy x h2")
  consider (w) e where "q1 = Inl e" | (c) e where "q1 = Inr ()" "v = Inl e" | (r) "q1 = Inr ()" "v = Inr ()"
    by (cases q1; cases v) auto
  then show ?thesis
  proof cases
    case w
    with \<open>write_config x new h = (q1, h1)\<close> assms(2) v1 show ?thesis by (auto simp: commit_config_def)
  next
    case c
    with w v b assms(2) have "\<exists>e. r = Inl e" "h' = h3"
      by (cases q3; auto simp: commit_config_def errE_def)+
    with v1 v2 v3 show ?thesis by auto
  next
    case r
    with file_write [OF ff w] file_validate [OF ff v] have f: "file h2 = new" by simp
    show ?thesis
    proof (cases q)
      case (Inl e)
      with r w v q assms(2) have "r = Inl e" "h' = h4" by (auto simp: commit_config_def)
      with failed_reload_view [OF assms(1), of h2 e h4] q Inl v1 v2 show ?thesis by simp
    next
      case (Inr u)
      with r w v q assms(2) have "r = Inr ()" "h' = h4" by (auto simp: commit_config_def okE_def)
      with reload_view [OF assms(1), of h2 h4] q Inr f show ?thesis by simp
    qed
  qed
qed

lemma add_service_view:
  assumes "haproxy_host is_ip x file view" "add_service x n d h = (r, h')"
  shows "view h' =
    (if isl r \<or> service_exists (file h) n then view h
     else \<lparr>known_backend = backends_in (file h'), servers = Map.empty\<rparr>)"
proof -
  have ff: "config_files x file" using assms(1) by (simp add: haproxy_host_def)
  obtain q h1 where q: "read_config x h = (q, h1)" by (cases "read_config x h")
  note v1 = keepsD [OF keeps_view(1) [OF assms(1)] q] and f1 = file_read [OF ff q]
  show ?thesis
  proof (cases "\<exists>new. q = Inr (file h) \<and> \<not> service_exists (file h) n \<and> add_service_text (file h) n d = Some new")
    case True
    then obtain new where new: "q = Inr (file h)" "\<not> service_exists (file h) n"
      "add_service_text (file h) n d = Some new" by blast
    with q assms(2) have c: "commit_config x (file h) new h1 = (r, h')" by (simp add: add_service_def)
    from commit_view [OF assms(1) c] commit_config_spec [OF ff c] new(2) v1 show ?thesis
      by (cases r) auto
  next
    case False
    with q f1 assms(2) have "h' = h1" "isl r \<or> service_exists (file h) n"
      by (cases q; cases "add_service_text (file h) n d";
          auto simp: add_service_def okE_def errE_def split: if_splits)+
    with v1 show ?thesis by simp
  qed
qed

lemma backends_after_add:
  assumes "add_service_text c n d = Some c'" "CR \<notin> set c" "word n" "plain_line d"
  shows "backends_in c' n"
proof -
  obtain j where "str_lines c' = take j (str_lines c) @ [acl_line n d, use_line n] @
      drop j (str_lines c) @ backend_lines n"
    using add_service_lines [OF assms] by metis
  then have "''backend '' @ n \<in> set (str_lines c')" by (simp add: backend_lines_def)
  moreover have "trim (''backend '' @ n) = ''backend '' @ n" "starts_section (''backend '' @ n)"
    using trim_header [OF assms(3)] by (simp_all add: starts_section_def backend_header_def)
  ultimately show ?thesis unfolding backends_in_def list_ex_iff by blast
qed

text \<open>A call that answers Ok: the file is the edited text, and if the service is new the running
  process knows its backend; nothing is said of when it answers Ok.\<close>

lemma add_service_ok:
  assumes "haproxy_host is_ip x file view" "cfg_ok (file h)" "word n" "plain_line d"
    and "add_service x n d h = (Inr (), h')"
  shows "file h' = ensure_text (n, d) (file h)" "cfg_ok (file h')" "service_exists (file h') n"
    "if service_exists (file h) n then view h' = view h
     else view h' = \<lparr>known_backend = backends_in (file h'), servers = Map.empty\<rparr> \<and>
       backends_in (file h') n \<and> domain_routed (file h') n d"
proof -
  have ff: "config_files x file" using assms(1) by (simp add: haproxy_host_def)
  show f: "file h' = ensure_text (n, d) (file h)" using add_service_outcome [OF ff assms(5)] by simp
  show "cfg_ok (file h')" using cfg.inv_ensure [OF assms(2,3), of d] assms(4) f by simp
  show "service_exists (file h') n" using cfg.has_ensure [OF assms(2-4,3)] f by simp
  obtain new where new: "add_service_text (file h) n d = Some new" using cfg_ok_add [OF assms(2)] by blast
  have "CR \<notin> set (file h)" using assms(2) by (simp add: cfg_ok_def)
  from backends_after_add [OF new this assms(3,4)] routed_after_ensure(1) [OF assms(2-4)]
  show "if service_exists (file h) n then view h' = view h
     else view h' = \<lparr>known_backend = backends_in (file h'), servers = Map.empty\<rparr> \<and>
       backends_in (file h') n \<and> domain_routed (file h') n d"
    using add_service_view [OF assms(1,5)] new f by (simp add: ensure_text_def)
qed

text \<open>On the simulated host every call succeeds.\<close>

lemma sim_add_service:
  assumes "cfg_ok (fst h)" "word n" "plain_line d"
  shows "\<exists>h'. add_service sim_host n d h = (Inr (), h') \<and> fst h' = ensure_text (n, d) (fst h) \<and>
    (if service_exists (fst h) n then h' = h
     else snd h' = \<lparr>known_backend = backends_in (fst h'), servers = Map.empty\<rparr> \<and> backends_in (fst h') n)"
proof -
  obtain new where new: "add_service_text (fst h) n d = Some new" using cfg_ok_add [OF assms(1)] by blast
  have pid: "parse_u32 (trim ''17'') = Some 17"
    by (simp add: parse_u32_def trim_def is_ws_def is_digit_def read_digits_def digit_val_def)
  obtain r h' where r: "add_service sim_host n d h = (r, h')" by (cases "add_service sim_host n d h")
  have "r = Inr ()" "service_exists (fst h) n \<longrightarrow> h' = h"
    using r new pid
    by (auto simp: add_service_def read_config_def sim_host_def commit_config_def write_config_def validate_config_def
        reload_haproxy_def map_errE_def tryE_def okE_def split: if_splits)
  with r add_service_ok [OF sim_host_ok assms, of h'] show ?thesis by auto
qed

lemma svc_word: "api_word n \<Longrightarrow> api_word (''svc_'' @ n)" "word n \<Longrightarrow> word (''svc_'' @ n)"
  by (auto simp: api_word_def word_def is_ws_def)

lemma primary_word: "api_word ''primary''" "api_word ''volunteers''"
  by (simp_all add: api_word_def word_def is_ws_def)

lemma assign_service_cases:
  assumes host: "haproxy_host is_ip x file view" and n: "api_word n" and addr: "api_addr is_ip ip port"
    and add: "add_service x (''svc_'' @ n) d h = (Inr (), h1)"
  shows "\<exists>r h'. assign_service x n d i (ip @ '':'' @ port) h = (r, h') \<and> file h' = file h1 \<and>
    (if known_backend (view h1) (''svc_'' @ n)
     then r = Inr () \<and> view h' = put_srv (''svc_'' @ n, ''primary'')
       (Some \<lparr>srv_addr = ip @ '':'' @ port, srv_weight = 100, srv_state = ''ready''\<rparr>) (view h1)
     else isl r \<and> view h' = view h1)"
proof -
  have adm: "haproxy_admin is_ip x view" using host by (simp add: haproxy_host_def)
  let ?b = "''svc_'' @ n" and ?a = "ip @ '':'' @ port"
  obtain r h2 where r: "upsert_server x ?b ''primary'' ?a 100 h1 = (r, h2)"
    by (cases "upsert_server x ?b ''primary'' ?a 100 h1")
  have "if known_backend (view h1) ?b
     then r = Inr () \<and> view h2 = put_srv (?b, ''primary'')
       (Some \<lparr>srv_addr = ?a, srv_weight = 100, srv_state = ''ready''\<rparr>) (view h1)
     else isl r \<and> view h2 = view h1"
    using succeedsD [OF upsert_server_done [OF adm svc_word(1) [OF n] primary_word(1) addr, of 100 "view h1"]]
      failsD [OF upsert_server_unknown [OF adm svc_word(1) [OF n] primary_word(1) addr, of "view h1" 100]] r
    by auto
  moreover have "file h2 = file h1" using keeps_upsert [OF host] r by (rule keepsD)
  moreover have "assign_service x n d i ?a h = (r, h2)"
    using add r by (cases r) (simp_all add: assign_service_def upsert_svc_server_def okE_def tryE_def)
  ultimately show ?thesis by auto
qed

subsection \<open>Properties\<close>

text \<open>C34 Under HAProxy's contract, while the admin socket answers, \<open>upsert_server\<close> leaves the server in the
  backend with exactly the given address and weight and ready, whether it existed or not, and touches no
  other server; when HAProxy does not know the backend it reports an error and changes nothing.\<close>

theorem upsert_server_spec:
  assumes "haproxy_admin is_ip x view" "api_word b" "api_word s" "api_addr is_ip ip port" "unat w \<le> 256"
  shows "\<exists>r h'. upsert_server x b s (ip @ '':'' @ port) w h = (r, h') \<and>
    (if known_backend (view h) b
     then r = Inr () \<and> view h' = (view h)\<lparr>servers := (servers (view h))((b, s) \<mapsto>
            \<lparr>srv_addr = ip @ '':'' @ port, srv_weight = w, srv_state = ''ready''\<rparr>)\<rparr>
     else isl r \<and> view h' = view h)"
  using succeedsD [OF upsert_server_done [OF assms, of "view h"]]
    failsD [OF upsert_server_unknown [OF assms(1-4), of "view h" w]]
  by (cases "known_backend (view h) b") (auto simp: put_srv_def)

definition volunteers_only :: proxy where
  "volunteers_only = \<lparr>known_backend = (\<lambda>b. b = ''volunteers''), servers = Map.empty\<rparr>"

lemma sim_admin: "haproxy_admin is_ip sim_host snd"
  using sim_host_ok by (simp add: haproxy_host_def)

lemma sim_words: "api_word ''n1''" "api_addr (\<lambda>_. True) ''10.0.0.1'' ''30000''"
  by (simp_all add: api_word_def word_def is_ws_def api_addr_def is_digit_def)

theorem upsert_server_spec_witness:
  "\<exists>h'. upsert_server sim_host ''volunteers'' ''n1'' ''10.0.0.1:30000'' 100 ([], volunteers_only) = (Inr (), h') \<and>
     servers (snd h') = [(''volunteers'', ''n1'') \<mapsto>
       \<lparr>srv_addr = ''10.0.0.1:30000'', srv_weight = 100, srv_state = ''ready''\<rparr>]"
  using upsert_server_spec [OF sim_admin primary_word(2) sim_words, of 100 "([], volunteers_only)"]
  by (auto simp: volunteers_only_def)

text \<open>A volunteer that was upserted and removed takes no more requests: it is gone, and removing it
  once more reports an error and changes nothing, or HAProxy cancelled the deletion and it stays in
  maintenance. In both cases upserting it again makes it ready as before. No other server is touched.\<close>

theorem volunteer_lifecycle:
  assumes "haproxy_admin is_ip x view" "api_word b" "api_word (uuid_simple k i)" "api_addr is_ip ip port"
    and "unat w \<le> 256" and "known_backend (view h) b"
  shows "\<exists>h1 r h2 h3. upsert_volunteer x k b i (ip @ '':'' @ port) w h = (Inr (), h1) \<and>
    remove_volunteer x k b i h1 = (r, h2) \<and>
    (r = Inr () \<and> view h2 = (view h)\<lparr>servers := (servers (view h))((b, uuid_simple k i) := None)\<rparr> \<and>
       (\<exists>e h3. remove_volunteer x k b i h2 = (Inl e, h3) \<and> view h3 = view h2) \<or>
     view h2 = (view h)\<lparr>servers := (servers (view h))((b, uuid_simple k i) \<mapsto>
       \<lparr>srv_addr = ip @ '':'' @ port, srv_weight = w, srv_state = ''maint''\<rparr>)\<rparr>) \<and>
    upsert_volunteer x k b i (ip @ '':'' @ port) w h2 = (Inr (), h3) \<and> view h3 = view h1"
proof -
  let ?s = "server_name_for k i" and ?up = "upsert_volunteer x k b i (ip @ '':'' @ port) w"
  let ?v = "\<lparr>srv_addr = ip @ '':'' @ port, srv_weight = w, srv_state = ''ready''\<rparr>"
  have s: "api_word ?s" using assms(3) by (simp add: server_name_for_def)
  have up: "\<exists>g'. ?up g = (Inr (), g') \<and> view g' = put_srv (b, ?s) (Some ?v) (view g)"
    if "known_backend (view g) b" for g
    unfolding upsert_volunteer_def
    by (intro succeedsD succeeds_then_ok upsert_server_done [OF assms(1,2) s assms(4,5)] that)
  from up [OF assms(6)] obtain h1 where 1: "?up h = (Inr (), h1)" "view h1 = put_srv (b, ?s) (Some ?v) (view h)"
    by blast
  then have "known_backend (view h1) b" "servers (view h1) (b, ?s) = Some ?v" using assms(6) by simp_all
  from remove_volunteer_done [OF assms(1,2) s this] obtain r h2 where
    2: "remove_volunteer x k b i h1 = (r, h2)" and v2: "r = Inr () \<and> view h2 = put_srv (b, ?s) None (view h) \<or>
      view h2 = put_srv (b, ?s) (Some (?v\<lparr>srv_state := ''maint''\<rparr>)) (view h)" using 1(2) by auto
  then have "known_backend (view h2) b" using assms(6) by auto
  from up [OF this] v2 obtain h3 where 3: "?up h2 = (Inr (), h3)" "view h3 = view h1" using 1(2) by auto
  have "\<exists>e h3. remove_volunteer x k b i h2 = (Inl e, h3) \<and> view h3 = view h2"
    if "view h2 = put_srv (b, ?s) None (view h)"
    using failsD [OF remove_volunteer_missing [OF assms(1,2) s, of "view h2"]] that by auto
  with 1(1) 2 3 v2 show ?thesis by (auto simp: put_srv_def server_name_for_def)
qed

theorem volunteer_lifecycle_witness:
  "let k = \<lparr>uuid_simple = \<lambda>_. ''n1'', uuid_text = \<lambda>_. [], uuid_parse = \<lambda>_. None,
        to_rfc3339 = \<lambda>_. [], parse_rfc3339 = \<lambda>_. None\<rparr>
   in \<exists>h1 r h2 h3. upsert_volunteer sim_host k ''volunteers'' 1 ''10.0.0.1:30000'' 100 ([], volunteers_only) = (Inr (), h1) \<and>
     remove_volunteer sim_host k ''volunteers'' 1 h1 = (r, h2) \<and>
     upsert_volunteer sim_host k ''volunteers'' 1 ''10.0.0.1:30000'' 100 h2 = (Inr (), h3) \<and> snd h3 = snd h1"
proof -
  let ?k = "\<lparr>uuid_simple = \<lambda>_. ''n1'', uuid_text = \<lambda>_. [], uuid_parse = \<lambda>_. None,
        to_rfc3339 = \<lambda>_. [], parse_rfc3339 = \<lambda>_. None\<rparr>"
  from volunteer_lifecycle [OF sim_admin primary_word(2) _ sim_words(2), of ?k 1 100 "([], volunteers_only)"]
  show ?thesis by (auto simp: volunteers_only_def sim_words Let_def)
qed

text \<open>Moving a volunteer to a new tunnel address: with both servers present they get the new
  addresses, are ready and keep their weights; when the server of the service is not there the call
  reports an error although the volunteer itself was moved.\<close>

theorem update_volunteer_addr_spec:
  assumes "haproxy_admin is_ip x view" "api_word (uuid_simple k i)" "api_word n" "api_addr is_ip ip port"
    and "known_backend (view h) ''volunteers''" "servers (view h) (''volunteers'', uuid_simple k i) = Some v"
  shows "\<exists>r h'. update_volunteer_addr x k i (ip @ '':'' @ port) (Some (n, ip @ '':'' @ port)) h = (r, h') \<and>
    (let moved = (servers (view h))((''volunteers'', uuid_simple k i) \<mapsto>
                   v\<lparr>srv_addr := ip @ '':'' @ port, srv_state := ''ready''\<rparr>)
     in case servers (view h) (''svc_'' @ n, ''primary'') of
          Some u \<Rightarrow>
            if known_backend (view h) (''svc_'' @ n)
            then r = Inr () \<and> servers (view h') = moved((''svc_'' @ n, ''primary'') \<mapsto>
                   u\<lparr>srv_addr := ip @ '':'' @ port, srv_state := ''ready''\<rparr>)
            else isl r \<and> servers (view h') = moved
        | None \<Rightarrow> isl r \<and> servers (view h') = moved)"
proof -
  let ?s = "server_name_for k i" and ?b = "''svc_'' @ n" and ?a = "ip @ '':'' @ port"
  have s: "api_word ?s" using assms(2) by (simp add: server_name_for_def)
  have v: "servers (view h) (''volunteers'', ?s) = Some v" using assms(6) by (simp add: server_name_for_def)
  from succeedsD [OF move_server_done [OF assms(1) primary_word(2) s assms(4,5) v]] obtain h1 where
    1: "move_server x ''volunteers'' ?s ?a h = (Inr (), h1)"
    and v1: "view h1 = put_srv (''volunteers'', ?s) (Some (v\<lparr>srv_addr := ?a, srv_state := ''ready''\<rparr>)) (view h)"
    by blast
  obtain r h2 where 2: "move_server x ?b ''primary'' ?a h1 = (r, h2)"
    by (cases "move_server x ?b ''primary'' ?a h1")
  have svc: "servers (view h1) (?b, ''primary'') = servers (view h) (?b, ''primary'')"
    "known_backend (view h1) ?b \<longleftrightarrow> known_backend (view h) ?b" using v1 by simp_all
  have "update_volunteer_addr x k i ?a (Some (n, ?a)) h = (r, h2)"
    using 1 2 by (cases r) (simp_all add: update_volunteer_addr_def okE_def tryE_def)
  moreover have "case servers (view h1) (?b, ''primary'') of
      Some u \<Rightarrow> if known_backend (view h1) ?b
        then r = Inr () \<and> view h2 = put_srv (?b, ''primary'') (Some (u\<lparr>srv_addr := ?a, srv_state := ''ready''\<rparr>)) (view h1)
        else isl r \<and> view h2 = view h1
    | None \<Rightarrow> isl r \<and> view h2 = view h1"
    using succeedsD [OF move_server_done [OF assms(1) svc_word(1) [OF assms(3)] primary_word(1) assms(4), of "view h1"]]
      failsD [OF move_server_missing [OF assms(1) svc_word(1) [OF assms(3)] primary_word(1), of "view h1" ?a]] 2
    by (fastforce split: option.splits)
  ultimately show ?thesis
    using v1 svc by (auto simp: Let_def server_name_for_def split: option.splits)
qed

definition one_volunteer :: proxy where
  "one_volunteer = \<lparr>known_backend = (\<lambda>b. b = ''volunteers'' \<or> b = ''svc_a''),
     servers = [(''volunteers'', ''n1'') \<mapsto> \<lparr>srv_addr = ''10.0.0.1:30000'', srv_weight = 7, srv_state = ''ready''\<rparr>]\<rparr>"

theorem update_volunteer_addr_spec_witness:
  "\<exists>r h'. update_volunteer_addr sim_host \<lparr>uuid_simple = \<lambda>_. ''n1'', uuid_text = \<lambda>_. [], uuid_parse = \<lambda>_. None,
        to_rfc3339 = \<lambda>_. [], parse_rfc3339 = \<lambda>_. None\<rparr> 1 ''10.0.0.1:30001'' (Some (''a'', ''10.0.0.1:30001''))
        ([], one_volunteer) = (r, h') \<and> isl r \<and>
     servers (snd h') (''volunteers'', ''n1'') =
       Some \<lparr>srv_addr = ''10.0.0.1:30001'', srv_weight = 7, srv_state = ''ready''\<rparr>"
proof -
  let ?v = "\<lparr>srv_addr = ''10.0.0.1:30000'', srv_weight = 7, srv_state = ''ready''\<rparr>"
  have "api_word ''a''" "api_addr (\<lambda>_. True) ''10.0.0.1'' ''30001''"
    by (simp_all add: api_word_def word_def is_ws_def api_addr_def is_digit_def)
  from update_volunteer_addr_spec [OF sim_admin _ this, of "\<lparr>uuid_simple = \<lambda>_. ''n1'', uuid_text = \<lambda>_. [],
      uuid_parse = \<lambda>_. None, to_rfc3339 = \<lambda>_. [], parse_rfc3339 = \<lambda>_. None\<rparr>" 1 "([], one_volunteer)" ?v]
  show ?thesis by (auto simp: one_volunteer_def sim_words)
qed

lemma assign_service_outcome:
  assumes "haproxy_host is_ip x file view" "cfg_ok (file h)" "api_word n" "plain_line d"
    and "api_addr is_ip ip port"
    and "assign_service x n d i (ip @ '':'' @ port) h = (r, h')"
  shows "(r = Inr () \<longleftrightarrow> fst (add_service x (''svc_'' @ n) d h) = Inr () \<and>
      (service_exists (file h) (''svc_'' @ n) \<longrightarrow> known_backend (view h) (''svc_'' @ n))) \<and>
    (case r of
      Inr _ \<Rightarrow>
        (if service_exists (file h) (''svc_'' @ n)
         then file h' = file h \<and> view h' = (view h)\<lparr>servers := (servers (view h))((''svc_'' @ n, ''primary'') \<mapsto>
             \<lparr>srv_addr = ip @ '':'' @ port, srv_weight = 100, srv_state = ''ready''\<rparr>)\<rparr>
         else add_service_text (file h) (''svc_'' @ n) d = Some (file h') \<and>
           domain_routed (file h') (''svc_'' @ n) d \<and> known_backend (view h') (''svc_'' @ n) \<and>
           known_backend (view h') = backends_in (file h') \<and>
           servers (view h') = [(''svc_'' @ n, ''primary'') \<mapsto>
             \<lparr>srv_addr = ip @ '':'' @ port, srv_weight = 100, srv_state = ''ready''\<rparr>])
    | Inl _ \<Rightarrow> view h' = view h)"
proof -
  let ?n = "''svc_'' @ n"
  have w: "word ?n" using assms(3) svc_word(2) by (simp add: api_word_def)
  have ff: "config_files x file" using assms(1) by (simp add: haproxy_host_def)
  obtain q h1 where q: "add_service x ?n d h = (q, h1)" by (cases "add_service x ?n d h")
  show ?thesis
  proof (cases q)
    case (Inl e)
    with q assms(6) have "isl r" "h' = h1"
      by (auto simp: assign_service_def map_errE_def tryE_def split: prod.splits sum.splits)
    with q Inl add_service_view [OF assms(1) q] show ?thesis by (cases r) auto
  next
    case (Inr u)
    with q have a: "add_service x ?n d h = (Inr (), h1)" by simp
    note ok = add_service_ok [OF assms(1,2) w assms(4) a]
    have cases: "file h' = file h1" "if known_backend (view h1) ?n
       then r = Inr () \<and> view h' = put_srv (?n, ''primary'')
         (Some \<lparr>srv_addr = ip @ '':'' @ port, srv_weight = 100, srv_state = ''ready''\<rparr>) (view h1)
       else isl r \<and> view h' = view h1"
      using assign_service_cases [OF assms(1,3,5) a, of i] assms(6) by auto
    show ?thesis
    proof (cases "service_exists (file h) ?n")
      case True
      with ok(1,4) cases a show ?thesis
        by (cases "known_backend (view h1) ?n"; cases r) (auto simp: ensure_text_def put_srv_def)
    next
      case False
      obtain new where "add_service_text (file h) ?n d = Some new" using cfg_ok_add [OF assms(2)] by blast
      with False ok(1,4) cases a show ?thesis by (auto simp: ensure_text_def put_srv_def)
    qed
  qed
qed

text \<open>C18 Assigning a service, on every outcome, under HAProxy's contract and as long as the admin
  socket answers. The call answers Ok exactly when its edit of the configuration does and HAProxy
  knows the backend of a name that is in the file already. Then, for a new name, the file is the
  edited text, it routes the domain to the backend, and the reload has left that backend's server, at
  the volunteer's tunnel address with weight 100 and ready, as the only server of all; for a name
  that was in the file, whatever its domain there, the file is as it was and that server is as above,
  all others as they were. When the call answers an error, no server has changed.\<close>

theorem assign_service_spec:
  assumes "haproxy_host is_ip x file view" "cfg_ok (file h)" "api_word n" "plain_line d"
    and "api_addr is_ip ip port"
    and "assign_service x n d i (ip @ '':'' @ port) h = (r, h')"
  shows "(r = Inr () \<longleftrightarrow> fst (add_service x (''svc_'' @ n) d h) = Inr () \<and>
      (service_exists (file h) (''svc_'' @ n) \<longrightarrow> known_backend (view h) (''svc_'' @ n))) \<and>
    (case r of
      Inr _ \<Rightarrow>
        (if service_exists (file h) (''svc_'' @ n)
         then file h' = file h \<and> view h' = (view h)\<lparr>servers := (servers (view h))((''svc_'' @ n, ''primary'') \<mapsto>
             \<lparr>srv_addr = ip @ '':'' @ port, srv_weight = 100, srv_state = ''ready''\<rparr>)\<rparr>
         else add_service_text (file h) (''svc_'' @ n) d = Some (file h') \<and>
           domain_routed (file h') (''svc_'' @ n) d \<and> known_backend (view h') (''svc_'' @ n) \<and>
           known_backend (view h') = backends_in (file h') \<and>
           servers (view h') = [(''svc_'' @ n, ''primary'') \<mapsto>
             \<lparr>srv_addr = ip @ '':'' @ port, srv_weight = 100, srv_state = ''ready''\<rparr>])
    | Inl _ \<Rightarrow> view h' = view h)"
  using assms by (rule assign_service_outcome)

theorem assign_service_spec_witness:
  "\<exists>h'. assign_service sim_host ''a'' ''a.org'' 1 ''10.0.0.1:30000'' (''default_backend v'', volunteers_only) = (Inr (), h') \<and>
     domain_routed (fst h') ''svc_a'' ''a.org'' \<and>
     servers (snd h') = [(''svc_a'', ''primary'') \<mapsto>
       \<lparr>srv_addr = ''10.0.0.1:30000'', srv_weight = 100, srv_state = ''ready''\<rparr>]"
proof -
  let ?h = "(''default_backend v'', volunteers_only)"
  have n: "\<not> service_exists (fst ?h) (''svc_'' @ ''a'')"
    by (simp add: service_exists_def acl_marker_def str_lines_last trim_def is_ws_def)
  have w: "api_word ''a''" "plain_line ''a.org''" "word (''svc_'' @ ''a'')"
    by (simp_all add: api_word_def word_def is_ws_def plain_line_def)
  have c: "cfg_ok (fst ?h)" by (simp add: default_backend_cfg)
  obtain r h' where r: "assign_service sim_host ''a'' ''a.org'' 1 (''10.0.0.1'' @ '':'' @ ''30000'') ?h = (r, h')"
    by (cases "assign_service sim_host ''a'' ''a.org'' 1 (''10.0.0.1'' @ '':'' @ ''30000'') ?h")
  note spec = assign_service_spec [OF sim_host_ok c w(1,2) sim_words(2) r]
  from spec sim_add_service [OF c w(3,2)] n have "r = Inr ()" by auto
  with spec n r show ?thesis by auto
qed

text \<open>A reload forgets the servers added at run time, and assigning a service that is new to the
  file reloads: after any such call that returns success, every server of every other backend is gone,
  the volunteers and the services assigned before among them.\<close>

theorem new_service_wipes_servers:
  assumes "haproxy_host is_ip x file view" "api_word n" "api_addr is_ip ip port"
    and "\<not> service_exists (file h) (''svc_'' @ n)"
    and "assign_service x n d i (ip @ '':'' @ port) h = (Inr (), h')"
  shows "(b, s) \<noteq> (''svc_'' @ n, ''primary'') \<Longrightarrow> servers (view h') (b, s) = None"
proof -
  obtain h1 where 1: "add_service x (''svc_'' @ n) d h = (Inr (), h1)"
    using assms(5) by (auto simp: assign_service_def tryE_eq_Inr_iff map_errE_def split: prod.splits sum.splits)
  have "servers (view h1) = Map.empty" using add_service_view [OF assms(1) 1] assms(4) by simp
  with assign_service_cases [OF assms(1-3) 1, of i] assms(5)
  have "servers (view h') = [(''svc_'' @ n, ''primary'') \<mapsto>
      \<lparr>srv_addr = ip @ '':'' @ port, srv_weight = 100, srv_state = ''ready''\<rparr>]"
    by (auto split: if_splits)
  then show "(b, s) \<noteq> (''svc_'' @ n, ''primary'') \<Longrightarrow> servers (view h') (b, s) = None" by auto
qed

theorem new_service_wipes_servers_witness:
  "\<exists>h'. assign_service sim_host ''b'' ''b.org'' 1 ''10.0.0.1:30000'' (''default_backend v'', one_volunteer) = (Inr (), h') \<and>
     servers (snd (''default_backend v'', one_volunteer)) (''volunteers'', ''n1'') \<noteq> None \<and>
     servers (snd h') (''volunteers'', ''n1'') = None"
proof -
  let ?h = "(''default_backend v'', one_volunteer)"
  have n: "\<not> service_exists (fst ?h) (''svc_'' @ ''b'')"
    by (simp add: service_exists_def acl_marker_def str_lines_last trim_def is_ws_def)
  have w: "api_word ''b''" "word ''svc_b''" "plain_line ''b.org''"
    by (simp_all add: api_word_def word_def is_ws_def plain_line_def)
  from sim_add_service [OF _ w(2,3), of ?h] n obtain h1 where
    "add_service sim_host (''svc_'' @ ''b'') ''b.org'' ?h = (Inr (), h1)" "known_backend (snd h1) (''svc_'' @ ''b'')"
    by (auto simp: default_backend_cfg)
  with assign_service_cases [OF sim_host_ok w(1) sim_words(2), of "''b.org''" ?h h1 1] obtain h' where
    r: "assign_service sim_host ''b'' ''b.org'' 1 (''10.0.0.1'' @ '':'' @ ''30000'') ?h = (Inr (), h')" by auto
  from new_service_wipes_servers [OF sim_host_ok w(1) sim_words(2) n r, of "''volunteers''" "''n1''"] r
  show ?thesis by (simp add: one_volunteer_def)
qed

end
