(* ===== verification/Registrar_State.thy ===== *)
theory Registrar_State
  imports F32 Stores Haproxy_Manager
begin

text \<open>
  \<^verbatim>\<open>registrar/src/state.rs\<close>: what the registrar knows of a volunteer, the weight computed from
  its metrics, and the list of live volunteers ordered by it. Points in time are nanoseconds.
\<close>

subsection \<open>Data\<close>

definition HEARTBEAT_TIMEOUT_SECS :: int where "HEARTBEAT_TIMEOUT_SECS = 45"
definition HEARTBEAT_INTERVAL_SECS :: nat where "HEARTBEAT_INTERVAL_SECS = 15"

record handshake_info =
  hostname :: string
  os :: string
  arch :: string
  cpu_cores :: u32
  cpu_model :: string
  memory_total_mb :: u64
  disk_free_gb :: u64
  docker_version :: string
  tunnel_version :: string
  service_addr :: string

record metrics =
  cpu_pct :: f32
  mem_pct :: f32
  load_avg :: f32
  active_requests :: u32

record service_assignment =
  service_name :: string
  domain :: string
  image :: string
  service_port :: u16
  assigned_at :: int

record pending_service =
  p_name :: string
  p_domain :: string
  p_image :: string
  p_service_port :: u16
  registered_at :: int

record volunteer_state =
  vid :: uuid
  info :: handshake_info
  metrics :: metrics
  enrolled_at :: int
  last_heartbeat :: int
  assigned_service :: "service_assignment option"
  service_running :: "bool option"
  service_image :: "string option"

subsection \<open>Weight\<close>

text \<open>The literals of the source are rounded to single precision.\<close>

definition score :: "metrics \<Rightarrow> f32" where
  "score m =
     (let req_pressure = f32_min (f32_of_u32 (active_requests m)) (round_f32 20)
      in f32_sub (round_f32 100)
           (f32_add (f32_add (f32_mul (cpu_pct m) (round_f32 (1 / 2))) (f32_mul (mem_pct m) (round_f32 (3 / 10))))
             req_pressure))"

definition weight :: "metrics \<Rightarrow> u32" where
  "weight m = as_u32 (f32_clamp (score m) (round_f32 1) (round_f32 100))"

lemma round_lit:
  assumes "2 ^ 23 \<le> m" "m < 2 ^ 24" "- 149 \<le> e" "e \<le> 0" "x = of_int m * pow2 e"
  shows "round_f32 x = Fin x"
proof -
  have "(0 :: rat) \<le> of_int m" "of_int m < (2 ^ 24 :: rat)"
    using assms(1,2) by (simp) (metis assms(2) of_int_less_iff of_int_numeral of_int_power)
  moreover have "pow2 e \<le> 1" using pow2_mono [OF assms(4)] by (simp add: pow2_def)
  ultimately have "of_int m * pow2 e < 2 ^ 24 * 1" "0 \<le> of_int m * pow2 e"
    using mult_less_le_imp_less [of "of_int m" "2 ^ 24" "pow2 e" 1] by simp_all
  then have "x < 2 ^ 128" "0 \<le> x" "round_abs \<bar>x\<bar> = x"
    using round_abs_exact [OF assms(1-3), of] assms(4,5) by simp_all
  then show ?thesis by (simp add: round_f32_def)
qed

lemma literals [simp]:
  "round_f32 1 = Fin 1" "round_f32 20 = Fin 20" "round_f32 100 = Fin 100" "round_f32 (1 / 2) = Fin (1 / 2)"
  using round_lit [of "2 ^ 23" "- 23" 1] round_lit [of "5 * 2 ^ 21" "- 19" 20]
    round_lit [of "25 * 2 ^ 19" "- 17" 100] round_lit [of "2 ^ 23" "- 24" "1 / 2"]
  by (simp_all add: pow2_def)

lemma literal_03: "round_f32 (3 / 10) = Fin (10066330 / 33554432)"
proof -
  have "ulp_exp (3 / 10) = - 25" by (rule ulp_exp_eq) (simp_all add: pow2_def)
  moreover have "\<lfloor>(3 / 10 * 2 ^ 25 :: rat)\<rfloor> = 10066329" by (simp add: floor_eq_iff)
  ultimately have "round_abs (3 / 10) = 10066330 / 33554432"
    by (simp add: round_abs_def pow2_def round_even_def Let_def)
  then show ?thesis by (simp add: round_f32_def)
qed

lemma req_pressure: "\<exists>p. 0 \<le> p \<and> p \<le> 20 \<and> f32_min (f32_of_u32 n) (round_f32 20) = Fin p"
proof -
  have "f32_le (round_f32 0) (f32_of_u32 n)"
    unfolding f32_of_u32_def by (intro round_f32_mono of_nat_0_le_iff)
  then have "f32_le (Fin 0) (f32_of_u32 n)" by (simp add: round_f32_def)
  then show ?thesis by (cases "f32_of_u32 n" rule: f32_cases) (auto simp: f32_min_def)
qed

lemma req_pressure_mono:
  "m \<le> n \<Longrightarrow> f32_le (f32_min (f32_of_u32 m) (round_f32 20)) (f32_min (f32_of_u32 n) (round_f32 20))"
proof -
  assume "m \<le> n"
  then have "f32_le (f32_of_u32 m) (f32_of_u32 n)"
    unfolding f32_of_u32_def word_le_nat_alt by (intro round_f32_mono of_nat_mono)
  then show ?thesis
    by (cases "f32_of_u32 m" rule: f32_cases; cases "f32_of_u32 n" rule: f32_cases) (auto simp: f32_min_def)
qed

lemma weight_of_score:
  "score m \<noteq> NaN \<Longrightarrow> 1 \<le> unat (weight m) \<and> unat (weight m) \<le> 100"
  "score m = NaN \<Longrightarrow> weight m = 0"
proof -
  assume "score m \<noteq> NaN"
  then obtain r where r: "f32_clamp (score m) (Fin 1) (Fin 100) = Fin r" "1 \<le> r" "r \<le> 100"
    using f32_clamp_range [of 1 100 "score m"] by auto
  then have "unat (weight m) = nat \<lfloor>r\<rfloor>" by (simp add: weight_def as_u32_small del: as_u32.simps)
  moreover have "1 \<le> \<lfloor>r\<rfloor>" "\<lfloor>r\<rfloor> \<le> 100" using r(2,3) by (linarith, linarith)
  ultimately show "1 \<le> unat (weight m) \<and> unat (weight m) \<le> 100" by linarith
qed (simp add: weight_def)

lemma weight_le_100: "unat (weight m) \<le> 100"
  using weight_of_score [of m] by (cases "score m = NaN") auto

subsection \<open>Live volunteers\<close>

text \<open>\<^verbatim>\<open>chrono::Duration::num_seconds\<close> truncates towards zero.\<close>

definition num_seconds :: "int \<Rightarrow> int" where
  "num_seconds d = (if 0 \<le> d then d div 10 ^ 9 else - (- d div 10 ^ 9))"

definition is_alive :: "int \<Rightarrow> volunteer_state \<Rightarrow> bool" where
  "is_alive now v \<longleftrightarrow> num_seconds (now - last_heartbeat v) < HEARTBEAT_TIMEOUT_SECS"

lemma is_alive_iff: "is_alive now v \<longleftrightarrow> now - last_heartbeat v < 45 * 10 ^ 9"
  unfolding is_alive_def num_seconds_def HEARTBEAT_TIMEOUT_SECS_def by (cases "0 \<le> now - last_heartbeat v") auto

definition active_volunteers :: "int \<Rightarrow> (uuid, volunteer_state) hash_map \<Rightarrow> volunteer_state list" where
  "active_volunteers now vols =
     sort_key (\<lambda>v. - int (unat (weight (metrics v)))) (filter (is_alive now) (hm_values vols))"

subsection \<open>Properties\<close>

lemma load_finite:
  assumes "valid_f32 (cpu_pct m)" "valid_f32 (mem_pct m)"
  shows "score m = NaN \<longleftrightarrow>
     cpu_pct m = NaN \<or> mem_pct m = NaN \<or> (\<exists>s. cpu_pct m = Inf s \<and> mem_pct m = Inf (\<not> s))"
proof -
  obtain p where p: "f32_min (f32_of_u32 (active_requests m)) (Fin 20) = Fin p"
    using req_pressure [of "active_requests m"] by auto
  have nan: "f32_add x (Fin p) = NaN \<longleftrightarrow> x = NaN" "f32_sub (Fin 100) x = NaN \<longleftrightarrow> x = NaN" for x
    by (cases x; simp add: f32_sub_def)+
  have c: "\<exists>y. f32_mul (Fin x) (Fin (1 / 2)) = Fin y" if "cpu_pct m = Fin x" for x
    using scale_finite [of x "1 / 2"] assms(1) that by simp
  have d: "\<exists>y. f32_mul (Fin x) (Fin (10066330 / 33554432)) = Fin y" if "mem_pct m = Fin x" for x
    using scale_finite [of x "10066330 / 33554432"] assms(2) that by simp
  have "score m = NaN \<longleftrightarrow>
      f32_add (f32_mul (cpu_pct m) (Fin (1 / 2))) (f32_mul (mem_pct m) (Fin (10066330 / 33554432))) = NaN"
    by (simp add: score_def literal_03 p nan)
  also have "\<dots> \<longleftrightarrow> cpu_pct m = NaN \<or> mem_pct m = NaN \<or> (\<exists>s. cpu_pct m = Inf s \<and> mem_pct m = Inf (\<not> s))"
  proof (cases "cpu_pct m")
    case (Fin x)
    then show ?thesis using c [OF Fin] d
      by (cases "mem_pct m") (auto simp del: f32_mul.simps(1))
  next
    case (Inf s)
    then show ?thesis using d by (cases "mem_pct m") (auto simp del: f32_mul.simps(1))
  qed simp
  finally show ?thesis .
qed

text \<open>The weight is between 1 and 100 for every pair of loads a volunteer can report, except that it is
  0 when the two weighted loads are infinities of opposite signs or one of them is not a number;
  then HAProxy is told to send the volunteer no traffic.\<close>

theorem weight_range:
  assumes "valid_f32 (cpu_pct m)" "valid_f32 (mem_pct m)"
  shows "unat (weight m) \<le> 100 \<and>
    (weight m = 0 \<longleftrightarrow>
       cpu_pct m = NaN \<or> mem_pct m = NaN \<or> (\<exists>s. cpu_pct m = Inf s \<and> mem_pct m = Inf (\<not> s)))"
proof -
  have "weight m = 0 \<longleftrightarrow> score m = NaN"
    using weight_of_score [of m] by (cases "score m = NaN") auto
  with load_finite [OF assms] weight_le_100 [of m] show ?thesis by simp
qed

theorem weight_range_witness:
  "weight \<lparr>cpu_pct = Inf False, mem_pct = Inf True, load_avg = Fin 0, active_requests = 0\<rparr> = 0 \<and>
   weight \<lparr>cpu_pct = Fin 50, mem_pct = Fin (1 / 4), load_avg = Fin 0, active_requests = 7\<rparr> \<noteq> 0"
  using weight_range [of "\<lparr>cpu_pct = Inf False, mem_pct = Inf True, load_avg = Fin 0, active_requests = 0\<rparr>"]
    weight_range [of "\<lparr>cpu_pct = Fin 50, mem_pct = Fin (1 / 4), load_avg = Fin 0, active_requests = 7\<rparr>"]
  by (auto simp: valid_f32_def intro: exI [of _ False])

lemma score_antitone:
  assumes "f32_le (cpu_pct m) (cpu_pct m')" "f32_le (mem_pct m) (mem_pct m')"
    and "active_requests m \<le> active_requests m'" and nn: "score m \<noteq> NaN" "score m' \<noteq> NaN"
  shows "f32_le (score m') (score m)"
proof -
  let ?load = "\<lambda>m. f32_add (f32_add (f32_mul (cpu_pct m) (round_f32 (1 / 2))) (f32_mul (mem_pct m) (round_f32 (3 / 10))))
             (f32_min (f32_of_u32 (active_requests m)) (round_f32 20))"
  have score: "score k = f32_sub (round_f32 100) (?load k)" for k by (simp add: score_def)
  have n1: "?load k \<noteq> NaN" if "k \<in> {m, m'}" for k
    using that nn unfolding score by (auto simp: f32_sub_def)
  then have n2: "f32_add (f32_mul (cpu_pct k) (round_f32 (1 / 2))) (f32_mul (mem_pct k) (round_f32 (3 / 10))) \<noteq> NaN"
    if "k \<in> {m, m'}" for k using that by fastforce
  have "f32_le (f32_mul (cpu_pct m) (round_f32 (1 / 2))) (f32_mul (cpu_pct m') (round_f32 (1 / 2)))"
    "f32_le (f32_mul (mem_pct m) (round_f32 (3 / 10))) (f32_mul (mem_pct m') (round_f32 (3 / 10)))"
    using f32_mul_mono assms(1,2) by (simp_all add: literal_03)
  then have "f32_le (?load m) (?load m')"
    by (intro f32_add_mono req_pressure_mono [OF assms(3)]) (use n1 n2 in auto)
  from f32_le_neg [OF this] show ?thesis
    using nn unfolding score f32_sub_def by (intro f32_add_mono) simp_all
qed

lemma weight_score_mono:
  assumes "f32_le (score m') (score m)"
  shows "weight m' \<le> weight m"
proof -
  have nn: "score m \<noteq> NaN" "score m' \<noteq> NaN" using assms by (auto simp: f32_le_def)
  from f32_clamp_mono [OF _ assms, of 1 100]
  have le: "f32_le (f32_clamp (score m') (Fin 1) (Fin 100)) (f32_clamp (score m) (Fin 1) (Fin 100))" by simp
  obtain r q where rq: "f32_clamp (score m') (Fin 1) (Fin 100) = Fin r" "1 \<le> r" "r \<le> 100"
    "f32_clamp (score m) (Fin 1) (Fin 100) = Fin q" "1 \<le> q" "q \<le> 100"
    using f32_clamp_range [of 1 100 "score m"] f32_clamp_range [of 1 100 "score m'"] nn by auto
  with le have "r \<le> q" by simp
  then have "nat \<lfloor>r\<rfloor> \<le> nat \<lfloor>q\<rfloor>" by (intro nat_mono floor_mono)
  with rq show ?thesis
    by (simp add: weight_def word_le_nat_alt as_u32_small del: as_u32.simps)
qed

text \<open>C35 More load never means more weight: raising the processor load or the memory load or the number of
  requests, rounding to single precision and truncation included, never raises the weight, as long as
  neither weight is the degenerate 0 of loads whose weighted sum is not a number.\<close>

theorem weight_antitone:
  assumes "f32_le (cpu_pct m) (cpu_pct m')" "f32_le (mem_pct m) (mem_pct m')"
    and "active_requests m \<le> active_requests m'" and "weight m \<noteq> 0" and "weight m' \<noteq> 0"
  shows "weight m' \<le> weight m"
  by (intro weight_score_mono score_antitone [OF assms(1-3)]) (use assms(4,5) weight_of_score(2) in auto)

theorem weight_antitone_witness:
  "weight \<lparr>cpu_pct = Fin 90, mem_pct = Fin 50, load_avg = Fin 0, active_requests = 9\<rparr>
     \<le> weight \<lparr>cpu_pct = Fin 10, mem_pct = Fin 20, load_avg = Fin 0, active_requests = 3\<rparr>"
  (is "weight ?a \<le> weight ?b")
proof -
  have "score ?a \<noteq> NaN" "score ?b \<noteq> NaN" by (subst load_finite; simp add: valid_f32_def)+
  then have "weight ?a \<noteq> 0" "weight ?b \<noteq> 0" using weight_of_score(1) by fastforce+
  then show ?thesis by (intro weight_antitone) simp_all
qed

text \<open>The list of live volunteers, in terms of the map.\<close>

lemma set_active: "set (active_volunteers now vols) = {v \<in> set (hm_values vols). is_alive now v}"
  by (auto simp: active_volunteers_def)

lemma sorted_active: "sorted_wrt (\<lambda>v w. weight (metrics w) \<le> weight (metrics v)) (active_volunteers now vols)"
proof -
  have "sorted (map (\<lambda>v. - int (unat (weight (metrics v)))) (active_volunteers now vols))"
    by (simp add: active_volunteers_def)
  then show ?thesis by (simp add: sorted_map word_le_def)
qed

lemma mset_active: "mset (active_volunteers now vols) = mset (filter (is_alive now) (hm_values vols))"
  by (simp add: active_volunteers_def)

lemma active_first:
  assumes "active_volunteers now vols = v # vs"
  shows "v \<in> set (hm_values vols)" "is_alive now v"
    and "\<And>w. w \<in> set (hm_values vols) \<Longrightarrow> is_alive now w \<Longrightarrow> weight (metrics w) \<le> weight (metrics v)"
proof -
  show "v \<in> set (hm_values vols)" "is_alive now v"
    using set_active [of now vols] assms by auto
  fix w assume "w \<in> set (hm_values vols)" "is_alive now w"
  then have "w \<in> set (active_volunteers now vols)" by (simp add: set_active)
  with assms sorted_active [of now vols] show "weight (metrics w) \<le> weight (metrics v)" by auto
qed

end
