(* ===== verification/Registrar_Db.thy ===== *)
theory Registrar_Db
  imports Registrar_State
begin

text \<open>
  The registrar's state and its database (\<^verbatim>\<open>registrar/src/db.rs\<close>, \<^verbatim>\<open>AppState\<close> of
  \<^verbatim>\<open>state.rs\<close>). A table with a text primary key is a list of rows by key, in the order of
  insertion; a statement may fail, which the list \<open>db_faults\<close> decides, one entry for each
  statement. \<^verbatim>\<open>f32\<close> values go through \<^verbatim>\<open>f64\<close> columns unchanged.
\<close>

subsection \<open>Tables\<close>

type_synonym 'r table = "(string \<times> 'r) list"

definition tbl_valid :: "'r table \<Rightarrow> bool" where
  "tbl_valid t \<longleftrightarrow> distinct (map fst t)"

definition tbl_get :: "'r table \<Rightarrow> string \<Rightarrow> 'r option" where
  "tbl_get t key = map_of t key"

text \<open>\<^verbatim>\<open>DELETE ... WHERE key = ?\<close> and \<^verbatim>\<open>INSERT OR REPLACE\<close>: the new row comes last.\<close>

definition tbl_delete :: "string \<Rightarrow> 'r table \<Rightarrow> 'r table" where
  "tbl_delete key t = filter (\<lambda>r. fst r \<noteq> key) t"

definition tbl_replace :: "string \<Rightarrow> 'r \<Rightarrow> 'r table \<Rightarrow> 'r table" where
  "tbl_replace key r t = tbl_delete key t @ [(key, r)]"

lemma map_of_delete: "map_of (filter (\<lambda>r. fst r \<noteq> key) t) j = (if j = key then None else map_of t j)"
  by (induction t) auto

interpretation tbl: keyed_store tbl_get tbl_replace tbl_delete tbl_valid
proof unfold_locales
  fix t :: "'r table" and key j r
  assume v: "tbl_valid t"
  show "tbl_get (tbl_delete key t) j = (if j = key then None else tbl_get t j)"
    by (simp add: tbl_get_def tbl_delete_def map_of_delete)
  show "tbl_get (tbl_replace key r t) j = (if j = key then Some r else tbl_get t j)"
    by (auto simp: tbl_get_def tbl_replace_def tbl_delete_def map_add_def map_of_delete split: option.splits)
  show "tbl_valid (tbl_delete key t)" using v by (auto simp: tbl_valid_def tbl_delete_def distinct_map_filter)
  show "tbl_valid (tbl_replace key r t)"
    using v by (auto simp: tbl_valid_def tbl_replace_def tbl_delete_def distinct_map_filter)
qed

lemmas tbl_store [store_simps] = tbl.find_put tbl.find_drop tbl.valid_put tbl.valid_drop

lemma tbl_get_in: "tbl_valid t \<Longrightarrow> (key, r) \<in> set t \<longleftrightarrow> tbl_get t key = Some r"
  by (simp add: tbl_get_def tbl_valid_def)

subsection \<open>Rows\<close>

text \<open>The columns of \<^verbatim>\<open>volunteers\<close> and \<^verbatim>\<open>service_assignments\<close> beside the keys.\<close>

record db_row =
  r_hostname :: string
  r_os :: string
  r_arch :: string
  r_cpu_cores :: i64
  r_cpu_model :: string
  r_memory_total_mb :: i64
  r_disk_free_gb :: i64
  r_docker_version :: string
  r_tunnel_version :: string
  r_service_addr :: string
  r_cpu_pct :: f32
  r_mem_pct :: f32
  r_load_avg :: f32
  r_active_requests :: i64
  r_enrolled_at :: string
  r_last_heartbeat :: string

record assignment_row =
  r_service_name :: string
  r_domain :: string
  r_image :: string
  r_service_port :: i64
  r_assigned_at :: string

text \<open>A NaN is bound as NULL, which \<^verbatim>\<open>OR REPLACE\<close> turns into the column's default, 0.\<close>

definition real_column :: "f32 \<Rightarrow> f32" where
  "real_column x = (if x = NaN then Fin 0 else x)"

definition row_of :: "crates \<Rightarrow> volunteer_state \<Rightarrow> db_row" where
  "row_of k v = \<lparr>
     r_hostname = hostname (info v), r_os = os (info v), r_arch = arch (info v),
     r_cpu_cores = ucast (cpu_cores (info v)), r_cpu_model = cpu_model (info v),
     r_memory_total_mb = ucast (memory_total_mb (info v)), r_disk_free_gb = ucast (disk_free_gb (info v)),
     r_docker_version = docker_version (info v), r_tunnel_version = tunnel_version (info v),
     r_service_addr = service_addr (info v),
     r_cpu_pct = real_column (cpu_pct (metrics v)), r_mem_pct = real_column (mem_pct (metrics v)),
     r_load_avg = real_column (load_avg (metrics v)), r_active_requests = ucast (active_requests (metrics v)),
     r_enrolled_at = to_rfc3339 k (enrolled_at v), r_last_heartbeat = to_rfc3339 k (last_heartbeat v)\<rparr>"

text \<open>\<^verbatim>\<open>TryFrom<DbRow> for VolunteerState\<close>; an error is \<open>None\<close>.\<close>

definition volunteer_of_row :: "crates \<Rightarrow> string \<Rightarrow> db_row \<Rightarrow> volunteer_state option" where
  "volunteer_of_row k key r =
     (case (uuid_parse k key, parse_rfc3339 k (r_enrolled_at r), parse_rfc3339 k (r_last_heartbeat r)) of
        (Some i, Some enrolled, Some heartbeat) \<Rightarrow> Some \<lparr>
          vid = i,
          info = \<lparr>hostname = r_hostname r, os = r_os r, arch = r_arch r, cpu_cores = ucast (r_cpu_cores r),
            cpu_model = r_cpu_model r, memory_total_mb = ucast (r_memory_total_mb r),
            disk_free_gb = ucast (r_disk_free_gb r), docker_version = r_docker_version r,
            tunnel_version = r_tunnel_version r, service_addr = r_service_addr r\<rparr>,
          metrics = \<lparr>cpu_pct = r_cpu_pct r, mem_pct = r_mem_pct r, load_avg = r_load_avg r,
            active_requests = ucast (r_active_requests r)\<rparr>,
          enrolled_at = enrolled, last_heartbeat = heartbeat,
          assigned_service = None, service_running = None, service_image = None\<rparr>
      | _ \<Rightarrow> None)"

definition assignment_row_of :: "crates \<Rightarrow> service_assignment \<Rightarrow> assignment_row" where
  "assignment_row_of k a = \<lparr>r_service_name = service_name a, r_domain = domain a, r_image = image a,
     r_service_port = ucast (service_port a), r_assigned_at = to_rfc3339 k (assigned_at a)\<rparr>"

definition assignment_of_row :: "crates \<Rightarrow> assignment_row \<Rightarrow> service_assignment option" where
  "assignment_of_row k r =
     map_option (\<lambda>t. \<lparr>service_name = r_service_name r, domain = r_domain r, image = r_image r,
       service_port = ucast (r_service_port r), assigned_at = t\<rparr>) (parse_rfc3339 k (r_assigned_at r))"

subsection \<open>The registrar's state\<close>

datatype gauge_value = Count nat | Measured f32

datatype metric = Counter_incremented string | Gauge_set string "string option" gauge_value

record 'h reg =
  volunteers :: "(uuid, volunteer_state) hash_map"
  pending_services :: "pending_service list"
  vol_table :: "db_row table"
  asg_table :: "assignment_row table"
  db_faults :: "bool list"
  metric_log :: "metric list"
  host_state :: 'h

definition new_app :: "db_row table \<Rightarrow> assignment_row table \<Rightarrow> bool list \<Rightarrow> 'h \<Rightarrow> 'h reg" where
  "new_app vt asg faults h = \<lparr>volunteers = [], pending_services = [], vol_table = vt, asg_table = asg,
     db_faults = faults, metric_log = [], host_state = h\<rparr>"

definition on_host :: "('h \<Rightarrow> 'a \<times> 'h) \<Rightarrow> 'h reg \<Rightarrow> 'a \<times> 'h reg" where
  "on_host f s = (case f (host_state s) of (r, h) \<Rightarrow> (r, s\<lparr>host_state := h\<rparr>))"

definition emit :: "metric list \<Rightarrow> 'h reg \<Rightarrow> 'h reg" where
  "emit ms s = s\<lparr>metric_log := metric_log s @ ms\<rparr>"

text \<open>One SQL statement: whether it fails, and the state without its entry of the fault list.\<close>

definition db_turn :: "'h reg \<Rightarrow> bool \<times> 'h reg" where
  "db_turn s = (case db_faults s of [] \<Rightarrow> (False, s) | b # bs \<Rightarrow> (b, s\<lparr>db_faults := bs\<rparr>))"

definition db_exec :: "('h reg \<Rightarrow> 'h reg) \<Rightarrow> 'h reg \<Rightarrow> 'h reg" where
  "db_exec f s = (case db_turn s of (failed, s) \<Rightarrow> if failed then s else f s)"

definition db_query :: "('h reg \<Rightarrow> 'a) \<Rightarrow> 'a \<Rightarrow> 'h reg \<Rightarrow> 'a \<times> 'h reg" where
  "db_query q otherwise s = (case db_turn s of (failed, s) \<Rightarrow> (if failed then otherwise else q s, s))"

subsection \<open>Statements\<close>

definition db_upsert_volunteer :: "crates \<Rightarrow> volunteer_state \<Rightarrow> 'h reg \<Rightarrow> 'h reg" where
  "db_upsert_volunteer k v =
     db_exec (\<lambda>s. s\<lparr>vol_table := tbl_replace (uuid_text k (vid v)) (row_of k v) (vol_table s)\<rparr>)"

definition db_remove_volunteer :: "crates \<Rightarrow> uuid \<Rightarrow> 'h reg \<Rightarrow> 'h reg" where
  "db_remove_volunteer k i = db_exec (\<lambda>s. s\<lparr>vol_table := tbl_delete (uuid_text k i) (vol_table s)\<rparr>)"

text \<open>\<^verbatim>\<open>SELECT id FROM volunteers WHERE hostname = ? LIMIT 1\<close>: the first row in table order.\<close>

definition db_find_by_hostname :: "crates \<Rightarrow> string \<Rightarrow> 'h reg \<Rightarrow> uuid option \<times> 'h reg" where
  "db_find_by_hostname k name =
     db_query (\<lambda>s. case List.find (\<lambda>r. r_hostname (snd r) = name) (vol_table s) of
                 Some (key, _) \<Rightarrow> uuid_parse k key
               | None \<Rightarrow> None) None"

definition db_get_assignment :: "crates \<Rightarrow> uuid \<Rightarrow> 'h reg \<Rightarrow> service_assignment option \<times> 'h reg" where
  "db_get_assignment k i =
     db_query (\<lambda>s. Option.bind (tbl_get (asg_table s) (uuid_text k i)) (assignment_of_row k)) None"

definition db_prune_orphan_assignments :: "'h reg \<Rightarrow> nat \<times> 'h reg" where
  "db_prune_orphan_assignments s =
     (case db_turn s of (failed, s) \<Rightarrow>
        if failed then (0, s)
        else let kept = filter (\<lambda>r. fst r \<in> fst ` set (vol_table s)) (asg_table s)
             in (length (asg_table s) - length kept, s\<lparr>asg_table := kept\<rparr>))"

definition db_upsert_assignment :: "crates \<Rightarrow> uuid \<Rightarrow> service_assignment \<Rightarrow> 'h reg \<Rightarrow> 'h reg" where
  "db_upsert_assignment k i a =
     db_exec (\<lambda>s. s\<lparr>asg_table := tbl_replace (uuid_text k i) (assignment_row_of k a) (asg_table s)\<rparr>)"

definition db_remove_assignment :: "crates \<Rightarrow> uuid \<Rightarrow> 'h reg \<Rightarrow> 'h reg" where
  "db_remove_assignment k i = db_exec (\<lambda>s. s\<lparr>asg_table := tbl_delete (uuid_text k i) (asg_table s)\<rparr>)"

text \<open>\<^verbatim>\<open>load_assignments\<close>: rows that do not parse are skipped; later rows win.\<close>

fun collect_assignments :: "crates \<Rightarrow> assignment_row table \<Rightarrow> (uuid, service_assignment) hash_map" where
  "collect_assignments k [] = []"
| "collect_assignments k ((key, r) # rs) =
     (let rest = collect_assignments k rs
      in case (uuid_parse k key, assignment_of_row k r) of
           (Some i, Some a) \<Rightarrow> if hm_get rest i = None then hm_insert i a rest else rest
         | _ \<Rightarrow> rest)"

definition db_load_assignments :: "crates \<Rightarrow> 'h reg \<Rightarrow> (uuid, service_assignment) hash_map \<times> 'h reg" where
  "db_load_assignments k = db_query (\<lambda>s. collect_assignments k (asg_table s)) []"

text \<open>
  \<^verbatim>\<open>load_all\<close>: each row takes its assignment out of the map, so of several rows for the same
  volunteer only the first would get it.
\<close>

fun load_rows :: "crates \<Rightarrow> db_row table \<Rightarrow> (uuid, service_assignment) hash_map \<Rightarrow> volunteer_state list" where
  "load_rows k [] assignments = []"
| "load_rows k ((key, r) # rs) assignments =
     (case uuid_parse k key of
        None \<Rightarrow> load_rows k rs assignments
      | Some i \<Rightarrow>
          let rest = load_rows k rs (hm_remove i assignments)
          in case volunteer_of_row k key r of
               Some v \<Rightarrow> v\<lparr>assigned_service := hm_get assignments i\<rparr> # rest
             | None \<Rightarrow> rest)"

definition db_load_all :: "crates \<Rightarrow> 'h reg \<Rightarrow> volunteer_state list \<times> 'h reg" where
  "db_load_all k s =
     (case db_load_assignments k s of (assignments, s) \<Rightarrow>
        db_query (\<lambda>s. load_rows k (vol_table s) assignments) [] s)"

subsection \<open>Round trips\<close>

text \<open>What the code relies on from the UUID and time crates: printing can be read back.\<close>

definition crates_ok :: "crates \<Rightarrow> bool" where
  "crates_ok k \<longleftrightarrow> (\<forall>i. uuid_parse k (uuid_text k i) = Some i) \<and> (\<forall>i. api_word (uuid_simple k i)) \<and>
     inj (uuid_simple k) \<and> (\<forall>t. parse_rfc3339 k (to_rfc3339 k t) = Some t)"

definition no_nan :: "volunteer_state \<Rightarrow> bool" where
  "no_nan v \<longleftrightarrow> cpu_pct (metrics v) \<noteq> NaN \<and> mem_pct (metrics v) \<noteq> NaN \<and> load_avg (metrics v) \<noteq> NaN"

text \<open>What the database keeps of a volunteer.\<close>

definition persisted :: "volunteer_state \<Rightarrow> volunteer_state" where
  "persisted v = v\<lparr>assigned_service := None, service_running := None, service_image := None\<rparr>"

lemma uuid_text_inj: "crates_ok k \<Longrightarrow> uuid_text k i = uuid_text k j \<longleftrightarrow> i = j"
  unfolding crates_ok_def by (metis option.inject)

lemma volunteer_row_roundtrip:
  assumes "crates_ok k" "no_nan v"
  shows "volunteer_of_row k (uuid_text k (vid v)) (row_of k v) = Some (persisted v)"
  using assms
  by (simp add: volunteer_of_row_def row_of_def crates_ok_def real_column_def no_nan_def persisted_def
      ucast_u32_i64)

lemma assignment_row_roundtrip: "crates_ok k \<Longrightarrow> assignment_of_row k (assignment_row_of k a) = Some a"
  by (simp add: assignment_of_row_def assignment_row_of_def crates_ok_def ucast_u16_i64)

end
