(* ===== verification/Registrar.thy ===== *)
theory Registrar
  imports Registrar_Db
begin

text \<open>
  The handlers of the registrar: \<^verbatim>\<open>enrollment.rs\<close>, \<^verbatim>\<open>services.rs\<close>, \<^verbatim>\<open>churn.rs\<close>,
  \<^verbatim>\<open>dispatch.rs\<close> and the crash recovery of \<^verbatim>\<open>main.rs\<close>. A handler is a function from the
  registrar's state to a response and a new state; what it awaits outside the program (the host,
  the resolver, the clock, fresh UUIDs) are arguments. Where a lock is released between two parts of
  a handler, the parts are definitions of their own, so that other requests can be put between them.
\<close>

subsection \<open>Requests and responses\<close>

record enroll_request =
  er_info :: handshake_info
  tunnel_public_port :: u16

record heartbeat_request =
  hb_volunteer_id :: uuid
  hb_cpu_pct :: f32
  hb_mem_pct :: f32
  hb_load_avg :: f32
  hb_active_requests :: u32
  hb_service_running :: "bool option"
  hb_service_image :: "string option"

record register_request =
  rq_name :: string
  rq_domain :: string
  rq_image :: string
  rq_port :: u16

datatype body =
  Enroll_response string nat "(string \<times> u16) option"
| Heartbeat_response "(string \<times> u16) option"
| Status string
| Error_response string string
| Register_response string string "string option"
| Failure string
| Services "string list"
| Volunteers "volunteer_state list"
| Forwarded "nat list"
| Text string
| Empty

type_synonym response = "nat \<times> body"

definition not_found :: response where
  "not_found = (404, Error_response ''Volunteer not found'' ''VOLUNTEER_NOT_FOUND'')"

definition invalid_id :: response where
  "invalid_id = (400, Error_response ''Invalid UUID'' ''INVALID_ID'')"

text \<open>The environment of one request: \<^verbatim>\<open>TUNNEL_HOST\<close> and what the resolver answers.\<close>

record env =
  env_tunnel_host :: "string option"
  lookup_host :: "string \<Rightarrow> io_error + string list"

definition resolve_tunnel_ip :: "env \<Rightarrow> string \<Rightarrow> string" where
  "resolve_tunnel_ip e tunnel_host =
     (case lookup_host e (tunnel_host @ '':0'') of
        Inr addrs \<Rightarrow> (case addrs of a # _ \<Rightarrow> a | [] \<Rightarrow> tunnel_host)
      | Inl _ \<Rightarrow> tunnel_host)"

definition tunnel_addr :: "env \<Rightarrow> u16 \<Rightarrow> string" where
  "tunnel_addr e port =
     (let tunnel_host = (case env_tunnel_host e of Some t \<Rightarrow> t | None \<Rightarrow> ''tunnel'')
      in resolve_tunnel_ip e tunnel_host @ '':'' @ show_nat (unat port))"

subsection \<open>Enrollment\<close>

definition find_existing :: "crates \<Rightarrow> string \<Rightarrow> 'h reg \<Rightarrow> uuid option \<times> 'h reg" where
  "find_existing k node_key s =
     (if node_key = [] then (None, s)
      else case List.find (\<lambda>v. hostname (info v) = node_key) (hm_values (volunteers s)) of
             Some v \<Rightarrow> (Some (vid v), s)
           | None \<Rightarrow> db_find_by_hostname k node_key s)"

definition find_assignment :: "crates \<Rightarrow> uuid option \<Rightarrow> 'h reg \<Rightarrow> service_assignment option \<times> 'h reg" where
  "find_assignment k existing_id s =
     (case existing_id of
        None \<Rightarrow> (None, s)
      | Some i \<Rightarrow>
          (case Option.bind (hm_get (volunteers s) i) assigned_service of
             Some a \<Rightarrow> (Some a, s)
           | None \<Rightarrow> db_get_assignment k i s))"

text \<open>A returning volunteer keeps its service; a failure of HAProxy is only logged.\<close>

definition reattach :: "'h host \<Rightarrow> crates \<Rightarrow> uuid \<Rightarrow> string \<Rightarrow> service_assignment \<Rightarrow> 'h reg \<Rightarrow> 'h reg" where
  "reattach x k i addr a s =
     db_upsert_assignment k i a (snd (on_host (assign_service x (service_name a) (domain a) i addr) s))"

definition assignment_of :: "pending_service \<Rightarrow> int \<Rightarrow> service_assignment" where
  "assignment_of p now = \<lparr>service_name = p_name p, domain = p_domain p, image = p_image p,
     service_port = p_service_port p, assigned_at = now\<rparr>"

definition take_pending ::
  "'h host \<Rightarrow> crates \<Rightarrow> int \<Rightarrow> uuid \<Rightarrow> string \<Rightarrow> 'h reg \<Rightarrow> service_assignment option \<times> 'h reg" where
  "take_pending x k now i addr s =
     (case pop_front (pending_services s) of
        (None, q) \<Rightarrow> (None, s)
      | (Some p, q) \<Rightarrow>
          (case on_host (assign_service x (p_name p) (p_domain p) i addr) (s\<lparr>pending_services := q\<rparr>) of
             (Inr _, s) \<Rightarrow> (Some (assignment_of p now), db_upsert_assignment k i (assignment_of p now) s)
           | (Inl e, s) \<Rightarrow> (None, s\<lparr>pending_services := push_front p (pending_services s)\<rparr>)))"

definition fresh_volunteer :: "uuid \<Rightarrow> handshake_info \<Rightarrow> int \<Rightarrow> service_assignment option \<Rightarrow> volunteer_state" where
  "fresh_volunteer i hi now a = \<lparr>vid = i, info = hi,
     metrics = \<lparr>cpu_pct = Fin 0, mem_pct = Fin 0, load_avg = Fin 0, active_requests = 0\<rparr>,
     enrolled_at = now, last_heartbeat = now, assigned_service = a, service_running = None, service_image = None\<rparr>"

definition payload :: "service_assignment option \<Rightarrow> (string \<times> u16) option" where
  "payload a = map_option (\<lambda>a. (image a, service_port a)) a"

text \<open>The two reads of the map and the database, and everything after them.\<close>

definition enroll_lookup ::
  "crates \<Rightarrow> enroll_request \<Rightarrow> 'h reg \<Rightarrow> (uuid option \<times> service_assignment option) \<times> 'h reg" where
  "enroll_lookup k req s =
     (let (existing_id, s) = find_existing k (hostname (er_info req)) s;
          (existing_assignment, s) = find_assignment k existing_id s
      in ((existing_id, existing_assignment), s))"

definition enroll_finish ::
  "'h host \<Rightarrow> crates \<Rightarrow> env \<Rightarrow> int \<Rightarrow> uuid \<Rightarrow> enroll_request \<Rightarrow> uuid option \<times> service_assignment option \<Rightarrow>
     'h reg \<Rightarrow> response \<times> 'h reg" where
  "enroll_finish x k e now new_id req found s =
     (let addr = tunnel_addr e (tunnel_public_port req);
          i = (case fst found of Some j \<Rightarrow> j | None \<Rightarrow> new_id);
          (a, s) = (case snd found of
                      Some a \<Rightarrow> (Some a, reattach x k i addr a s)
                    | None \<Rightarrow> take_pending x k now i addr s);
          volunteer = fresh_volunteer i ((er_info req)\<lparr>service_addr := addr\<rparr>) now a;
          s = db_upsert_volunteer k volunteer s;
          s = s\<lparr>volunteers := hm_insert i volunteer (volunteers s)\<rparr>;
          active_count = length (volunteers s);
          s = snd (on_host (upsert_volunteer x k ''volunteers'' i addr 100) s);
          s = emit [Counter_incremented ''openshard_enrollments_total'',
                    Gauge_set ''openshard_volunteers_active'' None (Count active_count)] s
      in ((201, Enroll_response (uuid_text k i) HEARTBEAT_INTERVAL_SECS (payload a)), s))"

definition enroll ::
  "'h host \<Rightarrow> crates \<Rightarrow> env \<Rightarrow> int \<Rightarrow> uuid \<Rightarrow> enroll_request \<Rightarrow> 'h reg \<Rightarrow> response \<times> 'h reg" where
  "enroll x k e now new_id req s =
     (let (found, s) = enroll_lookup k req s in enroll_finish x k e now new_id req found s)"

subsection \<open>Heartbeats\<close>

definition beat :: "int \<Rightarrow> heartbeat_request \<Rightarrow> volunteer_state \<Rightarrow> volunteer_state" where
  "beat now req v = v\<lparr>
     metrics := \<lparr>cpu_pct = hb_cpu_pct req, mem_pct = hb_mem_pct req, load_avg = hb_load_avg req,
       active_requests = hb_active_requests req\<rparr>,
     last_heartbeat := now,
     service_running := (if hb_service_running req \<noteq> None then hb_service_running req else service_running v),
     service_image := (if hb_service_image req \<noteq> None then hb_service_image req else service_image v)\<rparr>"

text \<open>The weight is sent to HAProxy; a server that HAProxy has lost is added again.\<close>

definition push_weight :: "'h host \<Rightarrow> crates \<Rightarrow> volunteer_state \<Rightarrow> 'h reg \<Rightarrow> 'h reg" where
  "push_weight x k v s =
     (case on_host (set_volunteer_weight x k ''volunteers'' (vid v) (weight (metrics v))) s of
        (Inr _, s) \<Rightarrow> s
      | (Inl e, s) \<Rightarrow>
          if contains ''No such server'' (error_text e)
          then snd (on_host (add_volunteer x k ''volunteers'' (vid v) (service_addr (info v)) (weight (metrics v))) s)
          else s)"

definition heartbeat ::
  "'h host \<Rightarrow> crates \<Rightarrow> int \<Rightarrow> heartbeat_request \<Rightarrow> 'h reg \<Rightarrow> response \<times> 'h reg" where
  "heartbeat x k now req s =
     (case hm_get (volunteers s) (hb_volunteer_id req) of
        None \<Rightarrow> (not_found, s)
      | Some v \<Rightarrow>
          let v = beat now req v;
              s = s\<lparr>volunteers := hm_insert (hb_volunteer_id req) v (volunteers s)\<rparr>;
              s = db_upsert_volunteer k v s;
              s = push_weight x k v s;
              h = Some (hostname (info v));
              s = emit [Counter_incremented ''openshard_heartbeats_total'',
                        Gauge_set ''openshard_volunteer_weight'' h (Count (unat (weight (metrics v)))),
                        Gauge_set ''openshard_volunteer_cpu_pct'' h (Measured (hb_cpu_pct req)),
                        Gauge_set ''openshard_volunteer_mem_pct'' h (Measured (hb_mem_pct req))] s
          in ((200, Heartbeat_response (payload (assigned_service v))), s))"

subsection \<open>Disconnecting, listing, moving\<close>

definition disconnect :: "'h host \<Rightarrow> crates \<Rightarrow> string \<Rightarrow> 'h reg \<Rightarrow> response \<times> 'h reg" where
  "disconnect x k id_str s =
     (case uuid_parse k id_str of
        None \<Rightarrow> (invalid_id, s)
      | Some i \<Rightarrow>
          let removed = hm_get (volunteers s) i;
              s = s\<lparr>volunteers := hm_remove i (volunteers s)\<rparr>;
              active_count = length (volunteers s)
          in case removed of
               None \<Rightarrow> (not_found, s)
             | Some v \<Rightarrow>
                 let s = db_remove_volunteer k i s;
                     s = snd (on_host (remove_volunteer x k ''volunteers'' i) s);
                     s = emit [Gauge_set ''openshard_volunteers_active'' None (Count active_count)] s
                 in ((200, Status ''disconnected''), s))"

definition list_volunteers :: "int \<Rightarrow> 'h reg \<Rightarrow> response \<times> 'h reg" where
  "list_volunteers now s = ((200, Volunteers (active_volunteers now (volunteers s))), s)"

definition update_tunnel_port ::
  "'h host \<Rightarrow> crates \<Rightarrow> env \<Rightarrow> string \<Rightarrow> u16 \<Rightarrow> 'h reg \<Rightarrow> response \<times> 'h reg" where
  "update_tunnel_port x k e id_str port s =
     (case uuid_parse k id_str of
        None \<Rightarrow> (invalid_id, s)
      | Some i \<Rightarrow>
          let addr = tunnel_addr e port
          in case hm_get (volunteers s) i of
               None \<Rightarrow> (not_found, s)
             | Some v \<Rightarrow>
                 let v = v\<lparr>info := (info v)\<lparr>service_addr := addr\<rparr>\<rparr>;
                     s = s\<lparr>volunteers := hm_insert i v (volunteers s)\<rparr>;
                     svc_info = map_option (\<lambda>a. (service_name a, addr)) (assigned_service v);
                     s = db_upsert_volunteer k v s;
                     s = snd (on_host (update_volunteer_addr x k i addr svc_info) s)
                 in ((200, Status ''ok''), s))"

subsection \<open>Services\<close>

text \<open>\<^verbatim>\<open>register_service\<close>: the choice, under the read lock; the rest, after HAProxy has answered.\<close>

definition tunnel_addr_for :: "string \<Rightarrow> string" where
  "tunnel_addr_for addr = addr"

definition register_pick :: "int \<Rightarrow> 'h reg \<Rightarrow> volunteer_state option" where
  "register_pick now s = List.find (\<lambda>v. assigned_service v = None) (active_volunteers now (volunteers s))"

definition assignment_for :: "register_request \<Rightarrow> int \<Rightarrow> service_assignment" where
  "assignment_for req now = \<lparr>service_name = rq_name req, domain = rq_domain req, image = rq_image req,
     service_port = rq_port req, assigned_at = now\<rparr>"

definition set_assignment :: "service_assignment \<Rightarrow> volunteer_state \<Rightarrow> volunteer_state" where
  "set_assignment a v = v\<lparr>assigned_service := Some a\<rparr>"

definition register_commit ::
  "crates \<Rightarrow> int \<Rightarrow> volunteer_state \<Rightarrow> register_request \<Rightarrow> 'h reg \<Rightarrow> response \<times> 'h reg" where
  "register_commit k now v req s =
     (let s = db_upsert_assignment k (vid v) (assignment_for req now) s;
          s = (case hm_get (volunteers s) (vid v) of
                 Some w \<Rightarrow> s\<lparr>volunteers := hm_insert (vid v) (set_assignment (assignment_for req now) w) (volunteers s)\<rparr>
               | None \<Rightarrow> s)
      in ((201, Register_response (''svc_'' @ rq_name req) (rq_domain req) (Some (uuid_text k (vid v)))), s))"

definition register_with ::
  "'h host \<Rightarrow> crates \<Rightarrow> int \<Rightarrow> volunteer_state option \<Rightarrow> register_request \<Rightarrow> 'h reg \<Rightarrow> response \<times> 'h reg" where
  "register_with x k now pick req s =
     (case pick of
        Some v \<Rightarrow>
          (case on_host (assign_service x (rq_name req) (rq_domain req) (vid v)
                   (tunnel_addr_for (service_addr (info v)))) s of
             (Inl e, s) \<Rightarrow> ((500, Failure (error_text e)), s)
           | (Inr _, s) \<Rightarrow> register_commit k now v req s)
      | None \<Rightarrow>
          ((201, Register_response (''svc_'' @ rq_name req) (rq_domain req) None),
           s\<lparr>pending_services := push_back \<lparr>p_name = rq_name req, p_domain = rq_domain req, p_image = rq_image req,
              p_service_port = rq_port req, registered_at = now\<rparr> (pending_services s)\<rparr>))"

definition register_service ::
  "'h host \<Rightarrow> crates \<Rightarrow> int \<Rightarrow> int \<Rightarrow> register_request \<Rightarrow> 'h reg \<Rightarrow> response \<times> 'h reg" where
  "register_service x k now now' req s = register_with x k now' (register_pick now s) req s"

definition list_service_backends :: "'h host \<Rightarrow> 'h reg \<Rightarrow> response \<times> 'h reg" where
  "list_service_backends x s =
     (case on_host (list_backends x) s of
        (Inr services, s) \<Rightarrow> ((200, Services services), s)
      | (Inl e, s) \<Rightarrow> ((500, Failure (error_text e)), s))"

subsection \<open>Churn\<close>

definition dead_volunteers :: "int \<Rightarrow> 'h reg \<Rightarrow> (uuid \<times> service_assignment option) list" where
  "dead_volunteers now s =
     map (\<lambda>v. (vid v, assigned_service v)) (filter (\<lambda>v. \<not> is_alive now v) (hm_values (volunteers s)))"

definition pending_of :: "service_assignment \<Rightarrow> int \<Rightarrow> pending_service" where
  "pending_of a now = \<lparr>p_name = service_name a, p_domain = domain a, p_image = image a,
     p_service_port = service_port a, registered_at = now\<rparr>"

definition evict :: "'h host \<Rightarrow> crates \<Rightarrow> int \<Rightarrow> uuid \<times> service_assignment option \<Rightarrow> 'h reg \<Rightarrow> 'h reg" where
  "evict x k now d s =
     (case d of (i, assignment) \<Rightarrow>
        let s = s\<lparr>volunteers := hm_remove i (volunteers s)\<rparr>;
            s = db_remove_volunteer k i s;
            s = snd (on_host (remove_volunteer x k ''volunteers'' i) s);
            s = (case assignment of
                   None \<Rightarrow> s
                 | Some a \<Rightarrow>
                     let s = db_remove_assignment k i s
                     in s\<lparr>pending_services := push_back (pending_of a now) (pending_services s)\<rparr>)
        in emit [Counter_incremented ''openshard_evictions_total''] s)"

definition churn_tick :: "'h host \<Rightarrow> crates \<Rightarrow> int \<Rightarrow> 'h reg \<Rightarrow> 'h reg" where
  "churn_tick x k now s =
     (let dead = dead_volunteers now s
      in if dead = [] then s
         else let s = fold (evict x k now) dead s
              in emit [Gauge_set ''openshard_volunteers_active'' None (Count (length (volunteers s)))] s)"

subsection \<open>Dispatch\<close>

text \<open>The forwarded request goes through an HTTP client, a parameter like the host's other operations.\<close>

record dispatch_request =
  rq_method :: string
  rq_path :: "string option"
  rq_body :: "io_error + nat list"

type_synonym 'h http_client = "string \<Rightarrow> string \<Rightarrow> nat list \<Rightarrow> 'h \<Rightarrow> (io_error + nat \<times> (io_error + nat list)) \<times> 'h"

definition dispatch_url :: "volunteer_state \<Rightarrow> dispatch_request \<Rightarrow> string" where
  "dispatch_url v req =
     ''http://'' @ service_addr (info v) @ (case rq_path req of Some p \<Rightarrow> p | None \<Rightarrow> ''/'')"

definition dispatch ::
  "'h http_client \<Rightarrow> int \<Rightarrow> dispatch_request \<Rightarrow> 'h reg \<Rightarrow> response \<times> 'h reg" where
  "dispatch client now req s =
     (case active_volunteers now (volunteers s) of
        [] \<Rightarrow> ((503, Text ''No volunteers available''), s)
      | v # _ \<Rightarrow>
          (case rq_body req of
             Inl _ \<Rightarrow> ((500, Empty), s)
           | Inr bytes \<Rightarrow>
               (case on_host (client (rq_method req) (dispatch_url v req) bytes) s of
                  (Inl _, s) \<Rightarrow> ((502, Empty), s)
                | (Inr (code, content), s) \<Rightarrow>
                    ((if 100 \<le> code \<and> code \<le> 999 then code else 500,
                      Forwarded (case content of Inr b \<Rightarrow> b | Inl _ \<Rightarrow> [])), s))))"

subsection \<open>Start and crash recovery\<close>

text \<open>At most thirty looks at the file system, half a second apart: the first that finds the socket.\<close>

definition wait_for_haproxy_socket :: "(nat \<Rightarrow> bool) \<Rightarrow> nat option" where
  "wait_for_haproxy_socket exists_at = List.find exists_at [0..<30]"

definition restored :: "int \<Rightarrow> volunteer_state \<Rightarrow> volunteer_state" where
  "restored now v = v\<lparr>last_heartbeat := now\<rparr>"

definition insert_survivor ::
  "int \<Rightarrow> volunteer_state \<Rightarrow> (uuid, volunteer_state) hash_map \<Rightarrow> (uuid, volunteer_state) hash_map" where
  "insert_survivor now v m = hm_insert (vid v) (restored now v) m"

definition recover_config :: "'h host \<Rightarrow> volunteer_state \<Rightarrow> 'h reg \<Rightarrow> 'h reg" where
  "recover_config x v s =
     (case assigned_service v of
        Some a \<Rightarrow> snd (on_host (ensure_service_config x (service_name a) (domain a)) s)
      | None \<Rightarrow> s)"

definition recover_servers :: "'h host \<Rightarrow> crates \<Rightarrow> volunteer_state \<Rightarrow> 'h reg \<Rightarrow> 'h reg" where
  "recover_servers x k v s =
     (let s = snd (on_host (upsert_volunteer x k ''volunteers'' (vid v) (service_addr (info v)) 1) s)
      in case assigned_service v of
           Some a \<Rightarrow> snd (on_host (restore_service_server x (service_name a) (vid v) (service_addr (info v))) s)
         | None \<Rightarrow> s)"

definition start :: "'h host \<Rightarrow> crates \<Rightarrow> int \<Rightarrow> 'h reg \<Rightarrow> 'h reg" where
  "start x k now s =
     (let s = snd (db_prune_orphan_assignments s);
          (survivors, s) = db_load_all k s
      in if survivors = [] then s
         else let s = s\<lparr>volunteers := fold (insert_survivor now) survivors (volunteers s)\<rparr>;
                  s = fold (recover_config x) survivors s;
                  s = fold (recover_servers x k) survivors s
              in emit [Gauge_set ''openshard_volunteers_active'' None (Count (length survivors))] s)"

text \<open>A crash keeps the database and HAProxy; a new process starts on them.\<close>

definition crash_restart :: "'h host \<Rightarrow> crates \<Rightarrow> int \<Rightarrow> 'h reg \<Rightarrow> 'h reg" where
  "crash_restart x k now s = start x k now (new_app (vol_table s) (asg_table s) (db_faults s) (host_state s))"

end
