(* ===== verification/Registrar_Invariant.thy ===== *)
theory Registrar_Invariant
  imports Registrar
begin

text \<open>
  What each operation of the registrar changes (frame lemmas), the invariant of the volunteer map
  and the conservation of services, over every sequence of requests, churn ticks and database
  failures.
\<close>

subsection \<open>Frames\<close>

named_theorems frame

lemma on_host_eq: "on_host f s = (fst (f (host_state s)), s\<lparr>host_state := snd (f (host_state s))\<rparr>)"
  by (simp add: on_host_def split_beta)

lemma on_host_frame [frame]:
  "volunteers (snd (on_host f s)) = volunteers s" "pending_services (snd (on_host f s)) = pending_services s"
  "vol_table (snd (on_host f s)) = vol_table s" "asg_table (snd (on_host f s)) = asg_table s"
  "db_faults (snd (on_host f s)) = db_faults s"
  by (simp_all add: on_host_eq)

lemma emit_frame [frame]:
  "volunteers (emit ms s) = volunteers s" "pending_services (emit ms s) = pending_services s"
  "vol_table (emit ms s) = vol_table s" "asg_table (emit ms s) = asg_table s"
  "db_faults (emit ms s) = db_faults s" "host_state (emit ms s) = host_state s"
  by (simp_all add: emit_def)

lemma db_turn_frame [frame]:
  "volunteers (snd (db_turn s)) = volunteers s" "pending_services (snd (db_turn s)) = pending_services s"
  "vol_table (snd (db_turn s)) = vol_table s" "asg_table (snd (db_turn s)) = asg_table s"
  "host_state (snd (db_turn s)) = host_state s"
  by (simp_all add: db_turn_def split: list.split)

lemma db_query_eq:
  "db_query q d s = (if fst (db_turn s) then d else q (snd (db_turn s)), snd (db_turn s))"
  by (simp add: db_query_def split_beta)

lemma db_exec_eq: "db_exec f s = (if fst (db_turn s) then snd (db_turn s) else f (snd (db_turn s)))"
  by (simp add: db_exec_def split_beta)

lemma db_frame [frame]:
  "volunteers (db_upsert_volunteer k v s) = volunteers s"
  "pending_services (db_upsert_volunteer k v s) = pending_services s"
  "asg_table (db_upsert_volunteer k v s) = asg_table s"
  "host_state (db_upsert_volunteer k v s) = host_state s"
  "volunteers (db_remove_volunteer k i s) = volunteers s"
  "pending_services (db_remove_volunteer k i s) = pending_services s"
  "asg_table (db_remove_volunteer k i s) = asg_table s"
  "host_state (db_remove_volunteer k i s) = host_state s"
  "volunteers (db_upsert_assignment k i a s) = volunteers s"
  "pending_services (db_upsert_assignment k i a s) = pending_services s"
  "vol_table (db_upsert_assignment k i a s) = vol_table s"
  "host_state (db_upsert_assignment k i a s) = host_state s"
  "volunteers (db_remove_assignment k i s) = volunteers s"
  "pending_services (db_remove_assignment k i s) = pending_services s"
  "vol_table (db_remove_assignment k i s) = vol_table s"
  "host_state (db_remove_assignment k i s) = host_state s"
  by (simp_all add: db_upsert_volunteer_def db_remove_volunteer_def db_upsert_assignment_def
      db_remove_assignment_def db_exec_eq frame)

lemma find_frame [frame]:
  "volunteers (snd (find_existing k n s)) = volunteers s"
  "pending_services (snd (find_existing k n s)) = pending_services s"
  "vol_table (snd (find_existing k n s)) = vol_table s"
  "asg_table (snd (find_existing k n s)) = asg_table s"
  "volunteers (snd (find_assignment k j s)) = volunteers s"
  "pending_services (snd (find_assignment k j s)) = pending_services s"
  "vol_table (snd (find_assignment k j s)) = vol_table s"
  "asg_table (snd (find_assignment k j s)) = asg_table s"
  by (simp_all add: find_existing_def find_assignment_def db_find_by_hostname_def db_get_assignment_def
      db_query_eq frame split: option.split)

lemma enroll_lookup_frame [frame]:
  "volunteers (snd (enroll_lookup k req s)) = volunteers s"
  "pending_services (snd (enroll_lookup k req s)) = pending_services s"
  "vol_table (snd (enroll_lookup k req s)) = vol_table s"
  "asg_table (snd (enroll_lookup k req s)) = asg_table s"
  by (simp_all add: enroll_lookup_def split_beta frame)

lemma reattach_frame [frame]:
  "volunteers (reattach x k i addr a s) = volunteers s"
  "pending_services (reattach x k i addr a s) = pending_services s"
  "vol_table (reattach x k i addr a s) = vol_table s"
  by (simp_all add: reattach_def frame)

lemma take_pending_frame [frame]:
  "volunteers (snd (take_pending x k now i addr s)) = volunteers s"
  "vol_table (snd (take_pending x k now i addr s)) = vol_table s"
  by (auto simp: take_pending_def on_host_eq frame split: prod.split option.split sum.split)

lemma push_weight_frame [frame]:
  "volunteers (push_weight x k v s) = volunteers s"
  "pending_services (push_weight x k v s) = pending_services s"
  "vol_table (push_weight x k v s) = vol_table s"
  "asg_table (push_weight x k v s) = asg_table s"
  "db_faults (push_weight x k v s) = db_faults s"
  by (simp_all add: push_weight_def on_host_eq split: sum.split)

text \<open>Taking a job from the queue: the job and the rest, or a failure that leaves the queue as it was.\<close>

lemma take_pending_cases:
  obtains "fst (take_pending x k now i addr s) = None"
      "pending_services (snd (take_pending x k now i addr s)) = pending_services s"
      "asg_table (snd (take_pending x k now i addr s)) = asg_table s"
  | p ps where "pending_services s = p # ps"
      "fst (take_pending x k now i addr s) = Some (assignment_of p now)"
      "pending_services (snd (take_pending x k now i addr s)) = ps"
proof (cases "pending_services s")
  case Nil
  then show ?thesis using that(1) by (simp add: take_pending_def)
next
  case (Cons p ps)
  show ?thesis
  proof (cases "fst (assign_service x (p_name p) (p_domain p) i addr (host_state s))")
    case (Inl e)
    with Cons show ?thesis using that(1) by (simp add: take_pending_def on_host_eq push_front_def)
  next
    case (Inr u)
    with Cons show ?thesis using that(2) by (simp add: take_pending_def on_host_eq frame)
  qed
qed

text \<open>The volunteer that enrollment puts into the map.\<close>

definition enroll_id :: "uuid \<Rightarrow> uuid option \<times> service_assignment option \<Rightarrow> uuid" where
  "enroll_id new_id found = (case fst found of Some j \<Rightarrow> j | None \<Rightarrow> new_id)"

definition enroll_job ::
  "'h host \<Rightarrow> crates \<Rightarrow> env \<Rightarrow> int \<Rightarrow> uuid \<Rightarrow> enroll_request \<Rightarrow> uuid option \<times> service_assignment option \<Rightarrow>
     'h reg \<Rightarrow> service_assignment option \<times> 'h reg" where
  "enroll_job x k e now new_id req found s =
     (let i = enroll_id new_id found; addr = tunnel_addr e (tunnel_public_port req)
      in case snd found of
           Some a \<Rightarrow> (Some a, reattach x k i addr a s)
         | None \<Rightarrow> take_pending x k now i addr s)"

definition enrolled ::
  "'h host \<Rightarrow> crates \<Rightarrow> env \<Rightarrow> int \<Rightarrow> uuid \<Rightarrow> enroll_request \<Rightarrow> uuid option \<times> service_assignment option \<Rightarrow>
     'h reg \<Rightarrow> volunteer_state" where
  "enrolled x k e now new_id req found s =
     fresh_volunteer (enroll_id new_id found)
       ((er_info req)\<lparr>service_addr := tunnel_addr e (tunnel_public_port req)\<rparr>) now
       (fst (enroll_job x k e now new_id req found s))"

lemma enroll_job_frame [frame]:
  "volunteers (snd (enroll_job x k e now new_id req found s)) = volunteers s"
  "vol_table (snd (enroll_job x k e now new_id req found s)) = vol_table s"
  by (simp_all add: enroll_job_def Let_def frame split: option.split)

lemma enroll_finish_frame [frame]:
  "volunteers (snd (enroll_finish x k e now new_id req f s)) =
     hm_insert (enroll_id new_id f) (enrolled x k e now new_id req f s) (volunteers s)"
  "pending_services (snd (enroll_finish x k e now new_id req f s)) =
     pending_services (snd (enroll_job x k e now new_id req f s))"
  "asg_table (snd (enroll_finish x k e now new_id req f s)) = asg_table (snd (enroll_job x k e now new_id req f s))"
  "vol_table (snd (enroll_finish x k e now new_id req f s)) =
     vol_table (db_upsert_volunteer k (enrolled x k e now new_id req f s) (snd (enroll_job x k e now new_id req f s)))"
  by (simp_all add: enroll_finish_def enroll_job_def enrolled_def enroll_id_def Let_def split_beta frame
      split: option.split)

lemma enroll_finish_response:
  "fst (enroll_finish x k e now new_id req f s) =
     (201, Enroll_response (uuid_text k (enroll_id new_id f)) HEARTBEAT_INTERVAL_SECS
        (payload (assigned_service (enrolled x k e now new_id req f s))))"
  by (simp add: enroll_finish_def enroll_job_def enrolled_def enroll_id_def fresh_volunteer_def Let_def split_beta
      split: option.split)

subsection \<open>The invariant of the map\<close>

text \<open>
  Every volunteer stands under its own identifier, no two share a node name, and no metric is NaN.
\<close>

definition map_inv :: "(uuid, volunteer_state) hash_map \<Rightarrow> bool" where
  "map_inv m \<longleftrightarrow> hm_valid m \<and>
     (\<forall>i v. hm_get m i = Some v \<longrightarrow> vid v = i \<and> no_nan v) \<and>
     (\<forall>i j v w. hm_get m i = Some v \<longrightarrow> hm_get m j = Some w \<longrightarrow>
        hostname (info v) = hostname (info w) \<longrightarrow> hostname (info v) \<noteq> [] \<longrightarrow> i = j)"

lemma map_inv_valid: "map_inv m \<Longrightarrow> hm_valid m"
  by (simp add: map_inv_def)

lemma map_inv_get: "map_inv m \<Longrightarrow> hm_get m i = Some v \<Longrightarrow> vid v = i \<and> no_nan v"
  by (simp add: map_inv_def)

lemma map_inv_unique:
  "map_inv m \<Longrightarrow> hm_get m i = Some v \<Longrightarrow> hm_get m j = Some w \<Longrightarrow>
     hostname (info v) = hostname (info w) \<Longrightarrow> hostname (info v) \<noteq> [] \<Longrightarrow> i = j"
  unfolding map_inv_def by (elim conjE) simp

lemma map_inv_value: "map_inv m \<Longrightarrow> v \<in> set (hm_values m) \<longleftrightarrow> hm_get m (vid v) = Some v"
  using map_inv_get [of m] by (auto simp: hm_values_iff map_inv_valid)

lemma map_inv_insert:
  assumes "map_inv m" "vid v = i" "no_nan v"
    and "\<And>j w. hm_get m j = Some w \<Longrightarrow> hostname (info w) = hostname (info v) \<Longrightarrow>
      hostname (info v) \<noteq> [] \<Longrightarrow> j = i"
  shows "map_inv (hm_insert i v m)"
  using assms unfolding map_inv_def
  by (auto simp: store_simps split: if_splits)

lemma map_inv_remove: "map_inv m \<Longrightarrow> map_inv (hm_remove i m)"
  unfolding map_inv_def by (auto simp: store_simps split: if_splits)

text \<open>Changing a volunteer in place.\<close>

lemma map_inv_update:
  assumes "map_inv m" "hm_get m i = Some v" "vid w = vid v" "hostname (info w) = hostname (info v)" "no_nan w"
  shows "map_inv (hm_insert i w m)"
proof (rule map_inv_insert [OF assms(1)])
  show "vid w = i" using map_inv_get [OF assms(1,2)] assms(3) by simp
  fix j u assume "hm_get m j = Some u" "hostname (info u) = hostname (info w)" "hostname (info w) \<noteq> []"
  then show "j = i" using map_inv_unique [OF assms(1) _ assms(2)] assms(4) by simp
qed (rule assms(5))

text \<open>What the two reads of enrollment find.\<close>

lemma find_existing_inv:
  assumes "map_inv (volunteers s)" "fst (find_existing k n s) = r" "hm_get (volunteers s) j = Some w"
    and "hostname (info w) = n" "n \<noteq> []"
  shows "r = Some j"
proof -
  have "w \<in> set (hm_values (volunteers s))"
    using assms(1,3) by (auto simp: hm_values_iff map_inv_valid)
  then obtain v where v: "List.find (\<lambda>v. hostname (info v) = n) (hm_values (volunteers s)) = Some v"
    using assms(4) by (cases "List.find (\<lambda>v. hostname (info v) = n) (hm_values (volunteers s))")
      (auto simp: find_None_iff)
  then have "v \<in> set (hm_values (volunteers s))" "hostname (info v) = n"
    by (auto simp: find_Some_iff)
  then have g: "hm_get (volunteers s) (vid v) = Some v" "hostname (info v) = n"
    by (simp_all add: map_inv_value [OF assms(1)])
  from map_inv_unique [OF assms(1) g(1) assms(3)] g(2) assms(4,5) have "vid v = j" by simp
  with v assms(2,5) show ?thesis by (simp add: find_existing_def)
qed

lemma enrolled_simps [simp]:
  "vid (enrolled x k e now new_id req f s) = enroll_id new_id f"
  "hostname (info (enrolled x k e now new_id req f s)) = hostname (er_info req)"
  "no_nan (enrolled x k e now new_id req f s)"
  "assigned_service (enrolled x k e now new_id req f s) = fst (enroll_job x k e now new_id req f s)"
  by (simp_all add: enrolled_def fresh_volunteer_def no_nan_def)

lemma enroll_eq:
  "enroll x k e now new_id req s =
     enroll_finish x k e now new_id req (fst (enroll_lookup k req s)) (snd (enroll_lookup k req s))"
  by (simp add: enroll_def split_beta)

lemma map_inv_enroll:
  assumes "map_inv (volunteers s)"
  shows "map_inv (volunteers (snd (enroll x k e now new_id req s)))"
proof -
  have f: "fst (fst (enroll_lookup k req s)) = fst (find_existing k (hostname (er_info req)) s)"
    by (simp add: enroll_lookup_def split_beta)
  show ?thesis
    unfolding enroll_eq frame
  proof (rule map_inv_insert [OF assms])
    fix j w
    assume "hm_get (volunteers s) j = Some w"
      "hostname (info w) = hostname (info (enrolled x k e now new_id req (fst (enroll_lookup k req s)) (snd (enroll_lookup k req s))))"
      "hostname (info (enrolled x k e now new_id req (fst (enroll_lookup k req s)) (snd (enroll_lookup k req s)))) \<noteq> []"
    then show "j = enroll_id new_id (fst (enroll_lookup k req s))"
      using find_existing_inv [OF assms refl, of j w "hostname (er_info req)" k] f
      by (simp add: enroll_id_def)
  qed simp_all
qed

subsection \<open>Database and map\<close>

text \<open>
  Without failing statements the database mirrors the map: the same volunteers, each with its row
  (up to the time of the last heartbeat, which a restart resets in memory only) and with its
  assignment. Assignments of volunteers that are gone may be left over.
\<close>

fun agrees :: "crates \<Rightarrow> volunteer_state option \<Rightarrow> db_row option \<Rightarrow> assignment_row option \<Rightarrow> bool" where
  "agrees k None r a \<longleftrightarrow> r = None"
| "agrees k (Some v) r a \<longleftrightarrow>
     (\<exists>t. r = Some (row_of k (v\<lparr>last_heartbeat := t\<rparr>))) \<and>
     a = map_option (assignment_row_of k) (assigned_service v)"

definition mirror ::
  "crates \<Rightarrow> (uuid, volunteer_state) hash_map \<Rightarrow> db_row table \<Rightarrow> assignment_row table \<Rightarrow> bool" where
  "mirror k m vt at' \<longleftrightarrow> tbl_valid vt \<and> tbl_valid at' \<and>
     fst ` set vt \<subseteq> range (uuid_text k) \<and> fst ` set at' \<subseteq> range (uuid_text k) \<and>
     (\<forall>i. agrees k (hm_get m i) (tbl_get vt (uuid_text k i)) (tbl_get at' (uuid_text k i)))"

lemma keys_replace: "fst ` set (tbl_replace key r t) = insert key (fst ` set t)"
  by (auto simp: tbl_replace_def tbl_delete_def image_iff)

lemma keys_delete: "fst ` set (tbl_delete key t) \<subseteq> insert j (fst ` set t)"
  by (auto simp: tbl_delete_def)

lemma agrees_self:
  "agrees k (Some v) (Some (row_of k v)) (map_option (assignment_row_of k) (assigned_service v))"
  by (auto intro: exI [of _ "last_heartbeat v"])

text \<open>A change at one identifier keeps the mirror when it agrees there.\<close>

lemma mirror_change:
  assumes "mirror k m vt at'" "crates_ok k" "hm_valid m"
    and "\<And>j. hm_get m' j = (if j = i then v else hm_get m j)"
    and "tbl_valid vt'" "fst ` set vt' \<subseteq> insert (uuid_text k i) (fst ` set vt)"
    and "\<And>key. tbl_get vt' key = (if key = uuid_text k i then r else tbl_get vt key)"
    and "tbl_valid at''" "fst ` set at'' \<subseteq> insert (uuid_text k i) (fst ` set at')"
    and "\<And>key. tbl_get at'' key = (if key = uuid_text k i then a else tbl_get at' key)"
    and "agrees k v r a"
  shows "mirror k m' vt' at''"
  unfolding mirror_def
proof (intro conjI allI)
  have r: "uuid_text k i \<in> range (uuid_text k)" "fst ` set vt \<subseteq> range (uuid_text k)"
    "fst ` set at' \<subseteq> range (uuid_text k)" using assms(1) unfolding mirror_def by auto
  show "fst ` set vt' \<subseteq> range (uuid_text k)" using assms(6) r(1,2) by (meson insert_subset subset_trans)
  show "fst ` set at'' \<subseteq> range (uuid_text k)" using assms(9) r(1,3) by (meson insert_subset subset_trans)
  fix j
  have "agrees k (hm_get m j) (tbl_get vt (uuid_text k j)) (tbl_get at' (uuid_text k j))"
    using assms(1) unfolding mirror_def by blast
  then show "agrees k (hm_get m' j) (tbl_get vt' (uuid_text k j)) (tbl_get at'' (uuid_text k j))"
    using assms(11) by (simp add: assms(4,7,10) uuid_text_inj [OF assms(2)])
qed (rule assms(5) assms(8))+

lemma no_fault [simp]: "db_faults s = [] \<Longrightarrow> db_turn s = (False, s)"
  by (simp add: db_turn_def)

lemma no_fault_db:
  assumes "db_faults s = []"
  shows "vol_table (db_upsert_volunteer k v s) = tbl_replace (uuid_text k (vid v)) (row_of k v) (vol_table s)"
    "vol_table (db_remove_volunteer k i s) = tbl_delete (uuid_text k i) (vol_table s)"
    "asg_table (db_upsert_assignment k i a s) = tbl_replace (uuid_text k i) (assignment_row_of k a) (asg_table s)"
    "asg_table (db_remove_assignment k i s) = tbl_delete (uuid_text k i) (asg_table s)"
    "db_faults (db_upsert_volunteer k v s) = []" "db_faults (db_remove_volunteer k i s) = []"
    "db_faults (db_upsert_assignment k i a s) = []" "db_faults (db_remove_assignment k i s) = []"
  using assms by (simp_all add: db_upsert_volunteer_def db_remove_volunteer_def db_upsert_assignment_def
      db_remove_assignment_def db_exec_eq)

text \<open>What enrollment finds is what the map knows.\<close>

definition known :: "string \<Rightarrow> (uuid, volunteer_state) hash_map \<Rightarrow> uuid option \<times> service_assignment option" where
  "known n m =
     (if n = [] then (None, None)
      else case List.find (\<lambda>v. hostname (info v) = n) (hm_values m) of
             Some v \<Rightarrow> (Some (vid v), assigned_service v)
           | None \<Rightarrow> (None, None))"

lemma known_Some:
  assumes "map_inv m" "known n m = (Some i, a)"
  shows "\<exists>v. hm_get m i = Some v \<and> assigned_service v = a \<and> hostname (info v) = n \<and> n \<noteq> []"
proof -
  from assms(2) obtain v where v: "List.find (\<lambda>v. hostname (info v) = n) (hm_values m) = Some v"
    "vid v = i" "assigned_service v = a" "n \<noteq> []"
    by (auto simp: known_def split: if_splits option.splits)
  then have "v \<in> set (hm_values m)" "hostname (info v) = n" by (auto simp: find_Some_iff)
  with v map_inv_value [OF assms(1)] show ?thesis by auto
qed

lemma known_None: "known n m = (None, a) \<Longrightarrow> a = None"
  by (auto simp: known_def split: if_splits option.splits)

lemma mirror_row:
  assumes "mirror k m vt at'" "(key, r) \<in> set vt"
  obtains i v t where "key = uuid_text k i" "hm_get m i = Some v" "r = row_of k (v\<lparr>last_heartbeat := t\<rparr>)"
proof -
  from assms have "tbl_valid vt" unfolding mirror_def by blast
  have "key \<in> range (uuid_text k)" using assms unfolding mirror_def by (metis fst_conv imageI subsetD)
  then obtain i where i: "key = uuid_text k i" by blast
  have "tbl_get vt key = Some r" using tbl_get_in [OF \<open>tbl_valid vt\<close>] assms(2) by blast
  moreover have "agrees k (hm_get m i) (tbl_get vt key) (tbl_get at' key)"
    using assms(1) i unfolding mirror_def by blast
  ultimately show ?thesis using that [OF i] by (cases "hm_get m i") auto
qed

lemma lookup_mirror:
  assumes "mirror k (volunteers s) (vol_table s) (asg_table s)" "map_inv (volunteers s)" "db_faults s = []"
  shows "enroll_lookup k req s = (known (hostname (er_info req)) (volunteers s), s)"
proof (cases "hostname (er_info req) = []")
  case True
  then show ?thesis by (simp add: enroll_lookup_def find_existing_def find_assignment_def known_def)
next
  case False
  let ?n = "hostname (er_info req)"
  show ?thesis
  proof (cases "List.find (\<lambda>v. hostname (info v) = ?n) (hm_values (volunteers s))")
    case None
    have "List.find (\<lambda>r. r_hostname (snd r) = ?n) (vol_table s) = None"
    proof (rule ccontr)
      assume "List.find (\<lambda>r. r_hostname (snd r) = ?n) (vol_table s) \<noteq> None"
      then have "\<exists>p \<in> set (vol_table s). r_hostname (snd p) = ?n"
        by (simp add: find_None_iff Bex_def)
      then obtain key r where "(key, r) \<in> set (vol_table s)" "r_hostname r = ?n" by auto
      moreover from this(1) obtain i v t where "hm_get (volunteers s) i = Some v"
        "r = row_of k (v\<lparr>last_heartbeat := t\<rparr>)" by (rule mirror_row [OF assms(1)])
      ultimately have "hostname (info v) = ?n" "v \<in> set (hm_values (volunteers s))"
        using map_inv_valid [OF assms(2)] by (auto simp: row_of_def hm_values_iff)
      with None show False by (auto simp: find_None_iff)
    qed
    with None False assms(3) show ?thesis
      by (simp add: enroll_lookup_def find_existing_def find_assignment_def known_def
          db_find_by_hostname_def db_query_eq)
  next
    case (Some v)
    then have "v \<in> set (hm_values (volunteers s))" by (auto simp: find_Some_iff)
    then have g: "hm_get (volunteers s) (vid v) = Some v" by (simp add: map_inv_value [OF assms(2)])
    then have "tbl_get (asg_table s) (uuid_text k (vid v)) = map_option (assignment_row_of k) (assigned_service v)"
      using assms(1) unfolding mirror_def by (metis agrees.simps(2))
    with Some False g assms(3) show ?thesis
      by (simp add: enroll_lookup_def find_existing_def find_assignment_def known_def
          db_get_assignment_def db_query_eq split: option.splits)
  qed
qed

end
