(* ===== verification/Registrar_Reachable.thy ===== *)
theory Registrar_Reachable
  imports Registrar_Invariant
begin

text \<open>
  The registrar as a whole: one request or churn tick after another, with crashes and restarts
  between them. The invariant of every reachable state, conservation of services, and what a
  restart restores.
\<close>

subsection \<open>Steps\<close>

text \<open>A fresh UUID occurs nowhere; the numbers of a JSON document are never NaN.\<close>

definition fresh_id :: "crates \<Rightarrow> uuid \<Rightarrow> 'h reg \<Rightarrow> bool" where
  "fresh_id k i s \<longleftrightarrow> hm_get (volunteers s) i = None \<and> tbl_get (vol_table s) (uuid_text k i) = None \<and>
     tbl_get (asg_table s) (uuid_text k i) = None"

definition json_metrics :: "heartbeat_request \<Rightarrow> bool" where
  "json_metrics req \<longleftrightarrow> hb_cpu_pct req \<noteq> NaN \<and> hb_mem_pct req \<noteq> NaN \<and> hb_load_avg req \<noteq> NaN"

inductive request_step :: "'h host \<Rightarrow> crates \<Rightarrow> 'h reg \<Rightarrow> 'h reg \<Rightarrow> bool" for x k where
  enroll: "fresh_id k new_id s \<Longrightarrow> request_step x k s (snd (enroll x k e now new_id req s))"
| heartbeat: "json_metrics hb \<Longrightarrow> request_step x k s (snd (heartbeat x k now hb s))"
| disconnect: "request_step x k s (snd (disconnect x k id_str s))"
| move: "request_step x k s (snd (update_tunnel_port x k e id_str port s))"
| register: "request_step x k s (snd (register_service x k now now' rq s))"
| tick: "request_step x k s (churn_tick x k now s)"
| outside: "request_step x k s (s\<lparr>host_state := h\<rparr>)"

inductive reachable :: "'h host \<Rightarrow> crates \<Rightarrow> 'h reg \<Rightarrow> bool" for x k where
  boot: "reachable x k (start x k now (new_app [] [] [] h))"
| request: "reachable x k s \<Longrightarrow> request_step x k s t \<Longrightarrow> reachable x k t"
| restart: "reachable x k s \<Longrightarrow> reachable x k (crash_restart x k now s)"

text \<open>Handlers that only read the map or talk to the host.\<close>

lemma reading_steps:
  "snd (list_volunteers now s) = s"
  "request_step x k s (snd (list_service_backends x s))"
  "request_step x k s (snd (dispatch client now dr s))"
proof -
  show "snd (list_volunteers now s) = s" by (simp add: list_volunteers_def)
  have 1: "snd (list_service_backends x s) = s\<lparr>host_state := snd (list_backends x (host_state s))\<rparr>"
    by (simp add: list_service_backends_def on_host_eq split: sum.split)
  show "request_step x k s (snd (list_service_backends x s))" unfolding 1 by (rule request_step.outside)
  have "\<exists>h. snd (dispatch client now dr s) = s\<lparr>host_state := h\<rparr>"
  proof (cases "active_volunteers now (volunteers s)")
    case Nil
    then show ?thesis by (intro exI [of _ "host_state s"]) (simp add: dispatch_def)
  next
    case (Cons v vs)
    show ?thesis
    proof (cases "rq_body dr")
      case (Inl e)
      with Cons show ?thesis by (intro exI [of _ "host_state s"]) (simp add: dispatch_def)
    next
      case (Inr bytes)
      with Cons show ?thesis
        by (intro exI [of _ "snd (client (rq_method dr) (dispatch_url v dr) bytes (host_state s))"])
          (simp add: dispatch_def on_host_eq split: sum.split prod.split)
    qed
  qed
  then show "request_step x k s (snd (dispatch client now dr s))" using request_step.outside by metis
qed

subsection \<open>The state invariant\<close>

definition reg_inv :: "crates \<Rightarrow> 'h reg \<Rightarrow> bool" where
  "reg_inv k s \<longleftrightarrow> map_inv (volunteers s) \<and> mirror k (volunteers s) (vol_table s) (asg_table s) \<and> db_faults s = []"

lemma reg_invD:
  assumes "reg_inv k s"
  shows "map_inv (volunteers s)" "mirror k (volunteers s) (vol_table s) (asg_table s)" "db_faults s = []"
    "hm_valid (volunteers s)"
  using assms by (simp_all add: reg_inv_def map_inv_valid)

lemma mirror_tables:
  assumes "mirror k m vt at'"
  shows "tbl_valid vt" "tbl_valid at'"
    "hm_get m i = Some v \<Longrightarrow> tbl_get at' (uuid_text k i) = map_option (assignment_row_of k) (assigned_service v)"
    "hm_get m i = Some v \<Longrightarrow> \<exists>t. tbl_get vt (uuid_text k i) = Some (row_of k (v\<lparr>last_heartbeat := t\<rparr>))"
proof -
  show "tbl_valid vt" "tbl_valid at'" using assms by (simp_all add: mirror_def)
  have "agrees k (hm_get m i) (tbl_get vt (uuid_text k i)) (tbl_get at' (uuid_text k i))"
    using assms by (simp add: mirror_def)
  then show
    "hm_get m i = Some v \<Longrightarrow> tbl_get at' (uuid_text k i) = map_option (assignment_row_of k) (assigned_service v)"
    "hm_get m i = Some v \<Longrightarrow> \<exists>t. tbl_get vt (uuid_text k i) = Some (row_of k (v\<lparr>last_heartbeat := t\<rparr>))"
    by simp_all
qed

text \<open>
  The three ways the tables change together with the map: a volunteer is written with or without an
  assignment row, only the assignment is written, or the volunteer is deleted.
\<close>

lemma mirror_write:
  assumes "mirror k m vt at'" "crates_ok k" "hm_valid m"
    and "tbl_get at' (uuid_text k i) = map_option (assignment_row_of k) (assigned_service v)"
  shows "mirror k (hm_insert i v m) (tbl_replace (uuid_text k i) (row_of k v) vt) at'"
  using mirror_tables [OF assms(1)]
  by (intro mirror_change [OF assms(1-3), where i = i and v = "Some v" and r = "Some (row_of k v)"
        and a = "tbl_get at' (uuid_text k i)"])
    (auto simp: store_simps assms(3,4) keys_replace agrees_self simp del: agrees.simps)

lemma mirror_write_assigned:
  assumes "mirror k m vt at'" "crates_ok k" "hm_valid m" "assigned_service v = Some a"
  shows "mirror k (hm_insert i v m) (tbl_replace (uuid_text k i) (row_of k v) vt)
    (tbl_replace (uuid_text k i) (assignment_row_of k a) at')"
  using mirror_tables [OF assms(1)] agrees_self [of k v]
  by (intro mirror_change [OF assms(1-3), where i = i and v = "Some v" and r = "Some (row_of k v)"
        and a = "Some (assignment_row_of k a)"])
    (auto simp: store_simps assms(3,4) keys_replace simp del: agrees.simps)

lemma mirror_assign:
  assumes "mirror k m vt at'" "crates_ok k" "hm_valid m" "hm_get m i = Some v"
  shows "mirror k (hm_insert i (set_assignment a v) m) vt (tbl_replace (uuid_text k i) (assignment_row_of k a) at')"
proof -
  obtain t where t: "tbl_get vt (uuid_text k i) = Some (row_of k (v\<lparr>last_heartbeat := t\<rparr>))"
    using mirror_tables(4) [OF assms(1,4)] by blast
  have "agrees k (Some (set_assignment a v)) (tbl_get vt (uuid_text k i)) (Some (assignment_row_of k a))"
    unfolding t by (auto simp: set_assignment_def row_of_def intro!: exI [of _ t])
  then show ?thesis
    using mirror_tables [OF assms(1)]
    by (intro mirror_change [OF assms(1-3), where i = i and v = "Some (set_assignment a v)"
          and r = "tbl_get vt (uuid_text k i)" and a = "Some (assignment_row_of k a)"])
      (auto simp: store_simps assms(3) keys_replace simp del: agrees.simps)
qed

lemma mirror_drop:
  assumes "mirror k m vt at'" "crates_ok k" "hm_valid m"
  shows "mirror k (hm_remove i m) (tbl_delete (uuid_text k i) vt) at'"
    and "mirror k (hm_remove i m) (tbl_delete (uuid_text k i) vt) (tbl_delete (uuid_text k i) at')"
  subgoal using mirror_tables [OF assms(1)]
    by (intro mirror_change [OF assms, where i = i and v = None and r = None and a = "tbl_get at' (uuid_text k i)"])
      (auto simp: store_simps assms(3) keys_delete simp del: agrees.simps(2))
  subgoal using mirror_tables [OF assms(1)]
    by (intro mirror_change [OF assms, where i = i and v = None and r = None and a = None])
      (auto simp: store_simps assms(3) keys_delete simp del: agrees.simps(2))
  done

subsection \<open>Every request keeps the invariant\<close>

lemma on_host_faults: "db_faults (snd (on_host f s)) = db_faults s" "db_faults (emit ms s) = db_faults s"
  by (simp_all add: frame)

lemma take_pending_tables:
  assumes "db_faults s = []"
  shows "asg_table (snd (take_pending x k now i addr s)) =
      (case fst (take_pending x k now i addr s) of
         Some a \<Rightarrow> tbl_replace (uuid_text k i) (assignment_row_of k a) (asg_table s) | None \<Rightarrow> asg_table s)"
    and "db_faults (snd (take_pending x k now i addr s)) = []"
proof -
  have "asg_table (snd (take_pending x k now i addr s)) =
      (case fst (take_pending x k now i addr s) of
         Some a \<Rightarrow> tbl_replace (uuid_text k i) (assignment_row_of k a) (asg_table s) | None \<Rightarrow> asg_table s) \<and>
    db_faults (snd (take_pending x k now i addr s)) = []"
  proof (cases "pending_services s")
    case Nil
    with assms show ?thesis by (simp add: take_pending_def)
  next
    case (Cons p ps)
    with assms show ?thesis
      by (cases "fst (assign_service x (p_name p) (p_domain p) i addr (host_state s))")
        (simp_all add: take_pending_def on_host_eq no_fault_db)
  qed
  then show "asg_table (snd (take_pending x k now i addr s)) =
      (case fst (take_pending x k now i addr s) of
         Some a \<Rightarrow> tbl_replace (uuid_text k i) (assignment_row_of k a) (asg_table s) | None \<Rightarrow> asg_table s)"
    "db_faults (snd (take_pending x k now i addr s)) = []" by simp_all
qed

lemma enroll_job_tables:
  assumes "db_faults s = []"
  shows "asg_table (snd (enroll_job x k e now n req f s)) =
      (case fst (enroll_job x k e now n req f s) of
         Some a \<Rightarrow> tbl_replace (uuid_text k (enroll_id n f)) (assignment_row_of k a) (asg_table s)
       | None \<Rightarrow> asg_table s)"
    and "db_faults (snd (enroll_job x k e now n req f s)) = []"
  using assms take_pending_tables [OF assms]
  by (simp_all add: enroll_job_def Let_def reattach_def no_fault_db frame split: option.split)

lemma enroll_finish_faults:
  "db_faults s = [] \<Longrightarrow> db_faults (snd (enroll_finish x k e now n req f s)) = []"
  using enroll_job_tables(2) [of s x k e now n req f]
  by (simp add: enroll_finish_def enroll_job_def enroll_id_def Let_def split_beta frame no_fault_db
      split: option.splits)

lemma enroll_known:
  assumes "reg_inv k s"
  shows "enroll x k e now n req s = enroll_finish x k e now n req (known (hostname (er_info req)) (volunteers s)) s"
  using lookup_mirror [OF reg_invD(2,1,3) [OF assms]] by (simp add: enroll_def)

lemma enroll_inv:
  assumes "reg_inv k s" "crates_ok k" "fresh_id k n s"
  shows "reg_inv k (snd (enroll x k e now n req s))"
proof -
  let ?f = "known (hostname (er_info req)) (volunteers s)"
  let ?i = "enroll_id n ?f" and ?v = "enrolled x k e now n req ?f s" and ?job = "enroll_job x k e now n req ?f s"
  note inv = reg_invD [OF assms(1)]
  have v: "assigned_service ?v = fst ?job" "vid ?v = ?i" by simp_all
  have none: "tbl_get (asg_table s) (uuid_text k ?i) = None" if "fst ?job = None"
  proof (cases ?f)
    case (Pair i a)
    with that have a: "a = None" by (cases a) (simp_all add: enroll_job_def Let_def)
    show ?thesis
    proof (cases i)
      case None
      with Pair assms(3) show ?thesis by (simp add: enroll_id_def fresh_id_def)
    next
      case (Some j)
      then obtain w where "hm_get (volunteers s) j = Some w" "assigned_service w = None"
        using known_Some [OF inv(1)] Pair a by blast
      with mirror_tables(3) [OF inv(2)] Some Pair show ?thesis by (simp add: enroll_id_def)
    qed
  qed
  have "mirror k (hm_insert ?i ?v (volunteers s)) (tbl_replace (uuid_text k ?i) (row_of k ?v) (vol_table s))
      (asg_table (snd ?job))"
  proof (cases "fst ?job")
    case None
    with mirror_write [OF inv(2) assms(2) inv(4), of ?i ?v] none v enroll_job_tables(1) [OF inv(3)]
    show ?thesis by simp
  next
    case (Some a)
    with mirror_write_assigned [OF inv(2) assms(2) inv(4), of ?v a ?i] v enroll_job_tables(1) [OF inv(3)]
    show ?thesis by simp
  qed
  then have "mirror k (volunteers (snd (enroll x k e now n req s))) (vol_table (snd (enroll x k e now n req s)))
      (asg_table (snd (enroll x k e now n req s)))"
    using enroll_job_tables(2) [OF inv(3)] by (simp add: enroll_known [OF assms(1)] frame no_fault_db)
  then show ?thesis
    using map_inv_enroll [OF inv(1), of x k e now n req] enroll_finish_faults [OF inv(3)]
    by (simp add: reg_inv_def enroll_known [OF assms(1)])
qed

lemma heartbeat_inv:
  assumes "reg_inv k s" "crates_ok k" "json_metrics req"
  shows "reg_inv k (snd (heartbeat x k now req s))"
proof (cases "hm_get (volunteers s) (hb_volunteer_id req)")
  case None
  with assms show ?thesis by (simp add: heartbeat_def)
next
  case (Some v)
  note inv = reg_invD [OF assms(1)]
  let ?i = "hb_volunteer_id req" and ?w = "beat now req v"
  have v: "vid v = ?i" "no_nan ?w" "assigned_service ?w = assigned_service v" "info ?w = info v" "vid ?w = vid v"
    using map_inv_get [OF inv(1) Some] assms(3) by (simp_all add: beat_def no_nan_def json_metrics_def)
  have "map_inv (hm_insert ?i ?w (volunteers s))" by (rule map_inv_update [OF inv(1) Some]) (simp_all add: v)
  moreover have "mirror k (hm_insert ?i ?w (volunteers s)) (tbl_replace (uuid_text k ?i) (row_of k ?w) (vol_table s))
      (asg_table s)"
    by (rule mirror_write [OF inv(2) assms(2) inv(4)]) (simp add: v mirror_tables(3) [OF inv(2) Some])
  ultimately show ?thesis
    using inv(3) v by (simp add: heartbeat_def Some Let_def reg_inv_def frame no_fault_db)
qed

lemma disconnect_inv:
  assumes "reg_inv k s" "crates_ok k"
  shows "reg_inv k (snd (disconnect x k id_str s))"
proof (cases "uuid_parse k id_str")
  case None
  with assms show ?thesis by (simp add: disconnect_def)
next
  case (Some i)
  note inv = reg_invD [OF assms(1)]
  show ?thesis
  proof (cases "hm_get (volunteers s) i")
    case None
    then have "hm_remove i (volunteers s) = volunteers s" by (rule hm_remove_absent)
    with Some None assms show ?thesis by (simp add: disconnect_def Let_def)
  next
    case v: (Some v)
    with Some inv mirror_drop(1) [OF inv(2) assms(2) inv(4), of i] map_inv_remove [OF inv(1), of i]
    show ?thesis by (simp add: disconnect_def Let_def reg_inv_def frame no_fault_db)
  qed
qed

lemma move_inv:
  assumes "reg_inv k s" "crates_ok k"
  shows "reg_inv k (snd (update_tunnel_port x k e id_str port s))"
proof (cases "uuid_parse k id_str")
  case None
  with assms show ?thesis by (simp add: update_tunnel_port_def)
next
  case (Some i)
  note inv = reg_invD [OF assms(1)]
  show ?thesis
  proof (cases "hm_get (volunteers s) i")
    case None
    with Some assms show ?thesis by (simp add: update_tunnel_port_def Let_def)
  next
    case v: (Some v)
    let ?w = "v\<lparr>info := (info v)\<lparr>service_addr := tunnel_addr e port\<rparr>\<rparr>"
    have w: "vid v = i" "no_nan ?w" using map_inv_get [OF inv(1) v] by (simp_all add: no_nan_def)
    have "map_inv (hm_insert i ?w (volunteers s))" by (rule map_inv_update [OF inv(1) v]) (simp_all add: w)
    moreover have "mirror k (hm_insert i ?w (volunteers s)) (tbl_replace (uuid_text k i) (row_of k ?w) (vol_table s))
        (asg_table s)"
      by (rule mirror_write [OF inv(2) assms(2) inv(4)]) (simp add: mirror_tables(3) [OF inv(2) v])
    ultimately show ?thesis
      using Some v inv(3) w by (simp add: update_tunnel_port_def Let_def reg_inv_def frame no_fault_db)
  qed
qed

lemma register_pick_Some:
  assumes "register_pick now s = Some v"
  shows "v \<in> set (hm_values (volunteers s))" "is_alive now v" "assigned_service v = None"
    and "\<And>w. w \<in> set (hm_values (volunteers s)) \<Longrightarrow> is_alive now w \<Longrightarrow> assigned_service w = None \<Longrightarrow>
      weight (metrics w) \<le> weight (metrics v)"
proof -
  let ?as = "active_volunteers now (volunteers s)"
  from assms obtain n where n: "n < length ?as" "?as ! n = v" "assigned_service v = None"
    and before: "\<And>m. m < n \<Longrightarrow> assigned_service (?as ! m) \<noteq> None"
    by (auto simp: register_pick_def find_Some_iff)
  then have "v \<in> set ?as" by auto
  then show "v \<in> set (hm_values (volunteers s))" "is_alive now v" by (simp_all add: set_active)
  show "assigned_service v = None" by (rule n(3))
  fix w assume "w \<in> set (hm_values (volunteers s))" "is_alive now w" and w: "assigned_service w = None"
  then have "w \<in> set ?as" by (simp add: set_active)
  then obtain m where m: "m < length ?as" "?as ! m = w" by (auto simp: in_set_conv_nth)
  then have "n \<le> m" using before [of m] w by (meson not_le)
  then show "weight (metrics w) \<le> weight (metrics v)"
  proof (cases "n = m")
    case False
    with \<open>n \<le> m\<close> m n show ?thesis using sorted_wrt_nth_less [OF sorted_active, of n m now "volunteers s"] by simp
  qed (use m n in simp)
qed

lemma register_inv:
  assumes "reg_inv k s" "crates_ok k"
  shows "reg_inv k (snd (register_service x k now now' req s))"
proof (cases "register_pick now s")
  case None
  with assms show ?thesis by (simp add: register_service_def register_with_def reg_inv_def)
next
  case (Some v)
  note inv = reg_invD [OF assms(1)]
  have g: "hm_get (volunteers s) (vid v) = Some v"
    using register_pick_Some(1) [OF Some] by (simp add: map_inv_value [OF inv(1)])
  let ?a = "assignment_for req now'"
  have "map_inv (hm_insert (vid v) (set_assignment ?a v) (volunteers s))"
    using map_inv_get [OF inv(1) g]
    by (intro map_inv_update [OF inv(1) g]) (simp_all add: set_assignment_def no_nan_def)
  with Some g mirror_assign [OF inv(2) assms(2) inv(4) g, of ?a] inv show ?thesis
    by (simp add: register_service_def register_with_def register_commit_def on_host_eq Let_def reg_inv_def
        frame no_fault_db split: sum.split)
qed

lemma evict_inv:
  assumes "reg_inv k s" "crates_ok k"
  shows "reg_inv k (evict x k now d s)"
proof -
  obtain i a where d: "d = (i, a)" by (cases d)
  note inv = reg_invD [OF assms(1)]
  show ?thesis
    using inv mirror_drop [OF inv(2) assms(2) inv(4), of i] map_inv_remove [OF inv(1), of i]
    by (cases a) (simp_all add: d evict_def Let_def reg_inv_def frame no_fault_db)
qed

lemma evict_all_inv: "reg_inv k s \<Longrightarrow> crates_ok k \<Longrightarrow> reg_inv k (fold (evict x k now) ds s)"
  by (induction ds arbitrary: s) (simp_all add: evict_inv)

lemma tick_inv: "reg_inv k s \<Longrightarrow> crates_ok k \<Longrightarrow> reg_inv k (churn_tick x k now s)"
  using evict_all_inv [of k s x now "dead_volunteers now s"]
  by (simp add: churn_tick_def Let_def reg_inv_def frame)

lemma request_inv:
  assumes "request_step x k s t" "reg_inv k s" "crates_ok k"
  shows "reg_inv k t"
  using assms
  by (induction rule: request_step.induct)
    (simp_all add: enroll_inv heartbeat_inv disconnect_inv move_inv register_inv tick_inv reg_inv_def [of k "_\<lparr>host_state := _\<rparr>"] reg_invD)

subsection \<open>Restart\<close>

lemma mirror_Nil: "mirror k [] [] []"
  by (simp add: mirror_def tbl_valid_def tbl_get_def)

lemma collect_spec:
  assumes "crates_ok k" "tbl_valid rows" "fst ` set rows \<subseteq> range (uuid_text k)"
  shows "hm_valid (collect_assignments k rows) \<and>
    (\<forall>i. hm_get (collect_assignments k rows) i = Option.bind (tbl_get rows (uuid_text k i)) (assignment_of_row k))"
  using assms(2,3)
proof (induction rows)
  case Nil
  then show ?case by (simp add: tbl_get_def)
next
  case (Cons p rows)
  obtain key r where p: "p = (key, r)" by (cases p)
  from Cons.prems p obtain j where j: "key = uuid_text k j" by auto
  have parse: "uuid_parse k key = Some j" using assms(1) j by (simp add: crates_ok_def)
  have IH: "hm_valid (collect_assignments k rows)"
    "\<And>i. hm_get (collect_assignments k rows) i = Option.bind (tbl_get rows (uuid_text k i)) (assignment_of_row k)"
    using Cons p by (auto simp: tbl_valid_def)
  have "tbl_get rows key = None"
    using Cons.prems p by (auto simp: tbl_valid_def tbl_get_def map_of_eq_None_iff)
  then have new: "hm_get (collect_assignments k rows) j = None" using IH(2) j by simp
  show ?case
    using IH new uuid_text_inj [OF assms(1)]
    by (cases "assignment_of_row k r")
      (auto simp: p j parse [unfolded j] Let_def store_simps tbl_get_def)
qed

lemma load_rows_spec:
  assumes "crates_ok k" "distinct (map fst rows)" "hm_valid asg"
    and "\<And>key r. (key, r) \<in> set rows \<Longrightarrow> \<exists>i v. key = uuid_text k i \<and> vid v = i \<and> no_nan v \<and> r = row_of k v"
  shows "load_rows k rows asg =
    map (\<lambda>(key, r). (the (volunteer_of_row k key r))\<lparr>assigned_service := hm_get asg (the (uuid_parse k key))\<rparr>) rows"
  using assms(2-)
proof (induction rows arbitrary: asg)
  case (Cons p rows)
  obtain key r where p: "p = (key, r)" by (cases p)
  from Cons.prems(3) [of key r] p obtain i v where v: "key = uuid_text k i" "vid v = i" "no_nan v" "r = row_of k v"
    by auto
  have parse: "uuid_parse k key = Some i" "volunteer_of_row k key r = Some (persisted v)"
    using v assms(1) volunteer_row_roundtrip [OF assms(1) v(3)] by (auto simp: crates_ok_def)
  have other: "hm_get (hm_remove i asg) (the (uuid_parse k key')) = hm_get asg (the (uuid_parse k key'))"
    if "(key', r') \<in> set rows" for key' r'
  proof -
    from that Cons.prems(3) p obtain j where "key' = uuid_text k j" by (metis list.set_intros(2))
    moreover have "key' \<noteq> key" using that Cons.prems(1) p by (auto simp: image_iff)
    ultimately show ?thesis
      using v(1) assms(1) Cons.prems(2) by (auto simp: crates_ok_def store_simps)
  qed
  have "load_rows k rows (hm_remove i asg) = map (\<lambda>(key, r). (the (volunteer_of_row k key r))
      \<lparr>assigned_service := hm_get (hm_remove i asg) (the (uuid_parse k key))\<rparr>) rows"
    by (rule Cons.IH) (use Cons.prems in \<open>auto simp: store_simps\<close>)
  also have "\<dots> = map (\<lambda>(key, r). (the (volunteer_of_row k key r))
      \<lparr>assigned_service := hm_get asg (the (uuid_parse k key))\<rparr>) rows"
    using other by auto
  finally show ?case by (simp add: p parse)
qed simp

lemma fold_survivors:
  assumes "distinct (map vid vs)" "hm_valid m"
  shows "hm_valid (fold (insert_survivor now) vs m) \<and>
    (\<forall>i. hm_get (fold (insert_survivor now) vs m) i =
       (case List.find (\<lambda>v. vid v = i) vs of Some v \<Rightarrow> Some (restored now v) | None \<Rightarrow> hm_get m i))"
  using assms
proof (induction vs arbitrary: m)
  case (Cons v vs)
  have "List.find (\<lambda>w. vid w = vid v) vs = None"
    using Cons.prems(1) by (auto simp: find_None_iff image_iff)
  with Cons.IH [of "insert_survivor now v m"] Cons.prems show ?case
    by (auto simp: insert_survivor_def store_simps split: option.splits)
qed simp

lemma fold_host:
  "\<exists>h. fold (recover_config x) vs s = s\<lparr>host_state := h\<rparr>"
  "\<exists>h. fold (recover_servers x k) vs s = s\<lparr>host_state := h\<rparr>"
proof -
  have 1: "\<exists>h. recover_config x v s = s\<lparr>host_state := h\<rparr>" for v s
    by (cases "assigned_service v") (auto simp: recover_config_def on_host_eq intro: exI [of _ "host_state s"])
  show "\<exists>h. fold (recover_config x) vs s = s\<lparr>host_state := h\<rparr>"
  proof (induction vs arbitrary: s)
    case (Cons v vs)
    obtain h where h: "recover_config x v s = s\<lparr>host_state := h\<rparr>" using 1 by blast
    from Cons [of "s\<lparr>host_state := h\<rparr>"] h show ?case by auto
  next
    case (Nil s)
    show ?case by (auto intro: exI [of _ "host_state s"])
  qed
  have 2: "\<exists>h. recover_servers x k v s = s\<lparr>host_state := h\<rparr>" for v s
    by (cases "assigned_service v") (auto simp: recover_servers_def on_host_eq Let_def)
  show "\<exists>h. fold (recover_servers x k) vs s = s\<lparr>host_state := h\<rparr>"
  proof (induction vs arbitrary: s)
    case (Cons v vs)
    obtain h where h: "recover_servers x k v s = s\<lparr>host_state := h\<rparr>" using 2 by blast
    from Cons [of "s\<lparr>host_state := h\<rparr>"] h show ?case by auto
  next
    case (Nil s)
    show ?case by (auto intro: exI [of _ "host_state s"])
  qed
qed

text \<open>What a restart keeps of a volunteer.\<close>

definition survived :: "int \<Rightarrow> volunteer_state \<Rightarrow> volunteer_state" where
  "survived now v = v\<lparr>last_heartbeat := now, service_running := None, service_image := None\<rparr>"

definition kept_assignments :: "db_row table \<Rightarrow> assignment_row table \<Rightarrow> assignment_row table" where
  "kept_assignments vt at' = filter (\<lambda>r. fst r \<in> fst ` set vt) at'"

lemma kept_get:
  "tbl_get (kept_assignments vt at') key = (if key \<in> fst ` set vt then tbl_get at' key else None)"
  unfolding kept_assignments_def tbl_get_def by (induction at') auto

lemma start_fields:
  assumes "db_faults s = []" "vs = fst (db_load_all k (snd (db_prune_orphan_assignments s)))"
  shows "volunteers (start x k now s) = fold (insert_survivor now) vs (volunteers s)"
    "pending_services (start x k now s) = pending_services s"
    "vol_table (start x k now s) = vol_table s"
    "asg_table (start x k now s) = kept_assignments (vol_table s) (asg_table s)"
    "db_faults (start x k now s) = []"
    "vs = load_rows k (vol_table s) (collect_assignments k (kept_assignments (vol_table s) (asg_table s)))"
proof -
  let ?s1 = "s\<lparr>asg_table := kept_assignments (vol_table s) (asg_table s)\<rparr>"
  have 1: "snd (db_prune_orphan_assignments s) = ?s1"
    using assms(1) by (simp add: db_prune_orphan_assignments_def Let_def kept_assignments_def)
  have 2: "db_load_all k ?s1 = (vs, ?s1)"
    "vs = load_rows k (vol_table s) (collect_assignments k (kept_assignments (vol_table s) (asg_table s)))"
    using assms 1 by (simp_all add: db_load_all_def db_load_assignments_def db_query_eq)
  show "vs = load_rows k (vol_table s) (collect_assignments k (kept_assignments (vol_table s) (asg_table s)))"
    by (rule 2)
  have st: "start x k now s = (if vs = [] then ?s1 else
      let s = ?s1\<lparr>volunteers := fold (insert_survivor now) vs (volunteers s)\<rparr>;
          s = fold (recover_config x) vs s;
          s = fold (recover_servers x k) vs s
      in emit [Gauge_set ''openshard_volunteers_active'' None (Count (length vs))] s)"
    by (simp only: start_def 1 2(1) Let_def split_beta fst_conv snd_conv) simp
  let ?s2 = "?s1\<lparr>volunteers := fold (insert_survivor now) vs (volunteers s)\<rparr>"
  obtain h1 where h1: "fold (recover_config x) vs ?s2 = ?s2\<lparr>host_state := h1\<rparr>"
    using fold_host(1) [of x vs ?s2] by (elim exE)
  obtain h2 where h2: "fold (recover_servers x k) vs (?s2\<lparr>host_state := h1\<rparr>) = ?s2\<lparr>host_state := h1\<rparr>\<lparr>host_state := h2\<rparr>"
    using fold_host(2) [of x k vs "?s2\<lparr>host_state := h1\<rparr>"] by (elim exE)
  show "volunteers (start x k now s) = fold (insert_survivor now) vs (volunteers s)"
    "pending_services (start x k now s) = pending_services s" "vol_table (start x k now s) = vol_table s"
    "asg_table (start x k now s) = kept_assignments (vol_table s) (asg_table s)" "db_faults (start x k now s) = []"
    using assms(1) by (auto simp: st Let_def h1 h2 frame)
qed

lemma kept_mirror:
  assumes "mirror k m vt at'"
  shows "tbl_valid (kept_assignments vt at')" "fst ` set (kept_assignments vt at') \<subseteq> range (uuid_text k)"
    "hm_get m i = Some v \<Longrightarrow>
      tbl_get (kept_assignments vt at') (uuid_text k i) = map_option (assignment_row_of k) (assigned_service v)"
proof -
  show "tbl_valid (kept_assignments vt at')"
    using mirror_tables(2) [OF assms] by (simp add: tbl_valid_def kept_assignments_def distinct_map_filter)
  show "fst ` set (kept_assignments vt at') \<subseteq> range (uuid_text k)"
    using assms unfolding mirror_def kept_assignments_def by auto
  assume v: "hm_get m i = Some v"
  from mirror_tables(4) [OF assms this] obtain r where "tbl_get vt (uuid_text k i) = Some r" by blast
  then have "uuid_text k i \<in> fst ` set vt"
    using tbl_get_in [OF mirror_tables(1) [OF assms]] by (metis fst_conv imageI)
  with mirror_tables(3) [OF assms v]
  show "tbl_get (kept_assignments vt at') (uuid_text k i) = map_option (assignment_row_of k) (assigned_service v)"
    by (simp add: kept_get)
qed

lemma loaded_rows:
  assumes "mirror k m vt at'" "map_inv m" "crates_ok k"
    and "vs = load_rows k vt (collect_assignments k (kept_assignments vt at'))"
  shows "distinct (map vid vs)"
    and "u \<in> set vs \<Longrightarrow> \<exists>w. hm_get m (vid u) = Some w \<and> restored now u = survived now w"
    and "hm_get m i = Some w \<Longrightarrow> \<exists>u \<in> set vs. vid u = i"
proof -
  let ?asg = "collect_assignments k (kept_assignments vt at')"
  let ?F = "\<lambda>(key, r). (the (volunteer_of_row k key r))\<lparr>assigned_service := hm_get ?asg (the (uuid_parse k key))\<rparr>"
  note kept = kept_mirror [OF assms(1)]
  note asg = collect_spec [OF assms(3) kept(1,2)]
  have row: "\<exists>i w t. key = uuid_text k i \<and> hm_get m i = Some w \<and> r = row_of k (w\<lparr>last_heartbeat := t\<rparr>) \<and>
      ?F (key, r) = (persisted (w\<lparr>last_heartbeat := t\<rparr>))\<lparr>assigned_service := assigned_service w\<rparr> \<and> vid w = i \<and> no_nan w"
    if kr: "(key, r) \<in> set vt" for key r
  proof -
    obtain i w t where w: "key = uuid_text k i" "hm_get m i = Some w" "r = row_of k (w\<lparr>last_heartbeat := t\<rparr>)"
      by (rule mirror_row [OF assms(1) kr])
    then have v: "vid w = i" "no_nan w" "no_nan (w\<lparr>last_heartbeat := t\<rparr>)"
      using map_inv_get [OF assms(2)] by (simp_all add: no_nan_def)
    have "volunteer_of_row k key r = Some (persisted (w\<lparr>last_heartbeat := t\<rparr>))"
      using volunteer_row_roundtrip [OF assms(3) v(3)] v(1) w(1,3) by simp
    moreover have "hm_get ?asg i = assigned_service w"
      using asg kept(3) [OF w(2)] assignment_row_roundtrip [OF assms(3)] by (cases "assigned_service w") simp_all
    ultimately show ?thesis using w v assms(3) by (auto simp: crates_ok_def)
  qed
  have vt: "distinct (map fst vt)" using mirror_tables(1) [OF assms(1)] by (simp add: tbl_valid_def)
  have "load_rows k vt ?asg = map ?F vt"
  proof (rule load_rows_spec [OF assms(3) vt])
    show "hm_valid ?asg" using asg by simp
    fix key r assume "(key, r) \<in> set vt"
    from row [OF this] obtain i w t where "key = uuid_text k i" "vid w = i" "no_nan w"
      "r = row_of k (w\<lparr>last_heartbeat := t\<rparr>)" by blast
    then show "\<exists>i v. key = uuid_text k i \<and> vid v = i \<and> no_nan v \<and> r = row_of k v"
      by (intro exI [of _ i] exI [of _ "w\<lparr>last_heartbeat := t\<rparr>"]) (simp add: no_nan_def)
  qed
  with assms(4) have vs: "vs = map ?F vt" by simp
  have vid: "uuid_text k (vid (?F p)) = fst p" if "p \<in> set vt" for p
    using row [of "fst p" "snd p"] that by (auto simp: persisted_def)
  then have "map (uuid_text k) (map vid vs) = map fst vt" unfolding vs by simp
  with vt show "distinct (map vid vs)" by (metis distinct_map)
  show "\<exists>w. hm_get m (vid u) = Some w \<and> restored now u = survived now w" if u: "u \<in> set vs"
  proof -
    from u obtain key r where kr: "(key, r) \<in> set vt" "u = ?F (key, r)" unfolding vs by auto
    from row [OF kr(1)] obtain i w t where "hm_get m i = Some w" "vid w = i"
      "u = (persisted (w\<lparr>last_heartbeat := t\<rparr>))\<lparr>assigned_service := assigned_service w\<rparr>"
      unfolding kr(2) by blast
    then show ?thesis by (intro exI [of _ w], cases w) (simp add: persisted_def restored_def survived_def)
  qed
  show "\<exists>u \<in> set vs. vid u = i" if w: "hm_get m i = Some w"
  proof -
    from mirror_tables(4) [OF assms(1) w] obtain r where "tbl_get vt (uuid_text k i) = Some r" by blast
    then have kr: "(uuid_text k i, r) \<in> set vt" using tbl_get_in [OF mirror_tables(1) [OF assms(1)]] by blast
    have "vid (?F (uuid_text k i, r)) = i"
      using vid [OF kr] uuid_text_inj [OF assms(3)] by simp
    moreover have "?F (uuid_text k i, r) \<in> set vs" unfolding vs set_map using kr by (rule imageI)
    ultimately show ?thesis by (rule bexI)
  qed
qed

lemma restart_outcome:
  assumes "reg_inv k s" "crates_ok k"
  shows "hm_get (volunteers (crash_restart x k now s)) i = map_option (survived now) (hm_get (volunteers s) i)"
    and "pending_services (crash_restart x k now s) = []"
    and "reg_inv k (crash_restart x k now s)"
proof -
  note inv = reg_invD [OF assms(1)]
  let ?s0 = "new_app (vol_table s) (asg_table s) (db_faults s) (host_state s)" and ?s' = "crash_restart x k now s"
  define vs where "vs = fst (db_load_all k (snd (db_prune_orphan_assignments ?s0)))"
  have f0: "db_faults ?s0 = []" using inv(3) by (simp add: new_app_def)
  note st = start_fields [OF f0 vs_def]
  have init: "volunteers ?s0 = []" "pending_services ?s0 = []" "vol_table ?s0 = vol_table s" "asg_table ?s0 = asg_table s"
    by (simp_all add: new_app_def)
  have vs: "vs = load_rows k (vol_table s) (collect_assignments k (kept_assignments (vol_table s) (asg_table s)))"
    using st(6) init by simp
  note rows = loaded_rows [OF inv(2,1) assms(2) vs]
  have fold: "hm_valid (volunteers ?s')"
    "hm_get (volunteers ?s') j =
       (case List.find (\<lambda>v. vid v = j) vs of Some v \<Rightarrow> Some (restored now v) | None \<Rightarrow> None)" for j
    using fold_survivors [OF rows(1), of "[]" now] st(1) init(1)
    by (simp_all add: crash_restart_def split: option.split)
  have get: "hm_get (volunteers ?s') j = map_option (survived now) (hm_get (volunteers s) j)" for j
  proof (cases "List.find (\<lambda>v. vid v = j) vs")
    case None
    then have "hm_get (volunteers s) j = None"
      using rows(3) [of j] by (cases "hm_get (volunteers s) j") (auto simp: find_None_iff)
    with None show ?thesis by (simp add: fold)
  next
    case (Some u)
    then have u: "u \<in> set vs" "vid u = j" by (auto simp: find_Some_iff)
    from rows(2) [OF u(1), of now] u(2) Some show ?thesis by (auto simp: fold)
  qed
  then show "hm_get (volunteers ?s') i = map_option (survived now) (hm_get (volunteers s) i)" .
  show "pending_services ?s' = []" using st(2) init(2) by (simp add: crash_restart_def)
  have "map_inv (volunteers ?s')"
    unfolding map_inv_def
  proof (intro conjI allI impI)
    fix i v assume "hm_get (volunteers ?s') i = Some v"
    then obtain w where "hm_get (volunteers s) i = Some w" "v = survived now w" unfolding get by auto
    with map_inv_get [OF inv(1)] show "vid v = i" "no_nan v" by (simp_all add: survived_def no_nan_def)
  next
    fix i j v w
    assume "hm_get (volunteers ?s') i = Some v" "hm_get (volunteers ?s') j = Some w"
      "hostname (info v) = hostname (info w)" "hostname (info v) \<noteq> []"
    then show "i = j" unfolding get using map_inv_unique [OF inv(1)] by (auto simp: survived_def)
  qed (rule fold)
  moreover have "mirror k (volunteers ?s') (vol_table s) (kept_assignments (vol_table s) (asg_table s))"
    unfolding mirror_def
  proof (intro conjI allI)
    show "fst ` set (vol_table s) \<subseteq> range (uuid_text k)" using inv(2) by (simp add: mirror_def)
    fix j
    show "agrees k (hm_get (volunteers ?s') j) (tbl_get (vol_table s) (uuid_text k j))
        (tbl_get (kept_assignments (vol_table s) (asg_table s)) (uuid_text k j))"
    proof (cases "hm_get (volunteers s) j")
      case None
      moreover have "agrees k (hm_get (volunteers s) j) (tbl_get (vol_table s) (uuid_text k j))
          (tbl_get (asg_table s) (uuid_text k j))" using inv(2) by (simp add: mirror_def)
      ultimately show ?thesis by (simp add: get)
    next
      case (Some w)
      with mirror_tables(4) [OF inv(2) Some] kept_mirror(3) [OF inv(2) Some] show ?thesis
        by (auto simp: get survived_def row_of_def)
    qed
  qed (rule mirror_tables(1) [OF inv(2)] kept_mirror [OF inv(2)])+
  ultimately show "reg_inv k ?s'"
    using st(3-5) init by (simp add: reg_inv_def crash_restart_def)
qed

lemma reachable_inv: "reachable x k s \<Longrightarrow> crates_ok k \<Longrightarrow> reg_inv k s"
proof (induction rule: reachable.induct)
  case (boot now h)
  let ?s = "new_app [] [] [] h"
  have "reg_inv k ?s" by (simp add: reg_inv_def new_app_def map_inv_def mirror_Nil)
  moreover have "start x k now ?s = crash_restart x k now ?s" by (simp add: crash_restart_def new_app_def)
  ultimately show ?case using restart_outcome(3) boot by metis
qed (simp_all add: request_inv restart_outcome(3))

end
