(* ===== verification/Registrar_Services.thy ===== *)
theory Registrar_Services
  imports Registrar_Reachable
begin

text \<open>
  The services the registrar is responsible for: those assigned to a volunteer and those waiting in
  the queue. Which operations keep them all, and which lose one.
\<close>

subsection \<open>Services as a multiset\<close>

type_synonym job = "string \<times> string \<times> string \<times> u16"

definition job :: "service_assignment \<Rightarrow> job" where
  "job a = (service_name a, domain a, image a, service_port a)"

definition pending_job :: "pending_service \<Rightarrow> job" where
  "pending_job p = (p_name p, p_domain p, p_image p, p_service_port p)"

definition jobs_of :: "volunteer_state option \<Rightarrow> job multiset" where
  "jobs_of v = (case Option.bind v assigned_service of Some a \<Rightarrow> {#job a#} | None \<Rightarrow> {#})"

definition placed :: "(uuid, volunteer_state) hash_map \<Rightarrow> job multiset" where
  "placed m = \<Sum>\<^sub># (image_mset (\<lambda>p. jobs_of (Some (snd p))) (mset m))"

definition services :: "'h reg \<Rightarrow> job multiset" where
  "services s = placed (volunteers s) + image_mset pending_job (mset (pending_services s))"

lemma placed_insert:
  assumes "hm_valid m"
  shows "placed (hm_insert i v m) + jobs_of (hm_get m i) = placed m + jobs_of (Some v)"
proof -
  from arg_cong [OF mset_hm_insert [OF assms, of i v], of "\<lambda>M. \<Sum>\<^sub># (image_mset (\<lambda>p. jobs_of (Some (snd p))) M)"]
  show ?thesis by (cases "hm_get m i") (simp_all add: placed_def jobs_of_def add.commute)
qed

lemma placed_remove:
  assumes "hm_valid m"
  shows "placed (hm_remove i m) + jobs_of (hm_get m i) = placed m"
proof -
  from arg_cong [OF mset_hm_remove [OF assms, of i], of "\<lambda>M. \<Sum>\<^sub># (image_mset (\<lambda>p. jobs_of (Some (snd p))) M)"]
  show ?thesis by (cases "hm_get m i") (simp_all add: placed_def jobs_of_def add.commute)
qed

lemma placed_same:
  "hm_valid m \<Longrightarrow> jobs_of (hm_get m i) = jobs_of (Some v) \<Longrightarrow> placed (hm_insert i v m) = placed m"
  using placed_insert [of m i v] by simp

text \<open>The services placed are determined by what is found under each identifier.\<close>

lemma placed_cong:
  assumes "hm_valid m" "hm_valid m'" and "\<And>i. jobs_of (hm_get m i) = jobs_of (hm_get m' i)"
  shows "placed m = placed m'"
  using assms
proof (induction m arbitrary: m')
  case Nil
  have "jobs_of (Some (snd p)) = {#}" if "p \<in> set m'" for p
    using Nil(3) [of "fst p"] hm_in_get [OF Nil(2), of "fst p" "snd p"] that by (simp add: jobs_of_def)
  then have "image_mset (\<lambda>p. jobs_of (Some (snd p))) (mset m') = image_mset (\<lambda>_. {#}) (mset m')"
    by (intro image_mset_cong) simp
  then show ?case by (simp add: placed_def)
next
  case (Cons p m)
  obtain i v where p: "p = (i, v)" by (cases p)
  have m: "hm_valid m" "hm_get m i = None" using Cons.prems(1) p by (auto simp: hm_valid_def hm_get_def map_of_eq_None_iff)
  have head: "hm_get (p # m) j = (if j = i then Some v else hm_get m j)" for j
    by (simp add: hm_get_def p)
  have "placed m = placed (hm_remove i m')"
  proof (rule Cons.IH [OF m(1)])
    show "hm_valid (hm_remove i m')" using Cons.prems(2) by (simp add: store_simps)
    fix j show "jobs_of (hm_get m j) = jobs_of (hm_get (hm_remove i m') j)"
      using Cons.prems(2) Cons.prems(3) [of j] m(2) head [of j]
      by (cases "j = i") (simp_all add: hm.find_drop jobs_of_def)
  qed
  moreover have "placed (hm_remove i m') + jobs_of (hm_get m' i) = placed m'"
    by (rule placed_remove [OF Cons.prems(2)])
  moreover have "jobs_of (hm_get m' i) = jobs_of (Some v)"
    using Cons.prems(3) [of i] p by (simp add: hm_get_def)
  ultimately show ?case by (simp add: placed_def p add.commute)
qed

lemma job_of_pending [simp]: "job (assignment_of p now) = pending_job p" "pending_job (pending_of a now) = job a"
  by (simp_all add: job_def pending_job_def assignment_of_def pending_of_def)

subsection \<open>Operation by operation\<close>

lemma services_enroll:
  assumes "reg_inv k s" "fresh_id k n s"
  shows "services (snd (enroll x k e now n req s)) = services s"
proof -
  let ?f = "known (hostname (er_info req)) (volunteers s)"
  let ?v = "enrolled x k e now n req ?f s" and ?job = "enroll_job x k e now n req ?f s"
  note inv = reg_invD [OF assms(1)]
  obtain i a where f: "?f = (i, a)" by (cases ?f)
  have before: "jobs_of (hm_get (volunteers s) (enroll_id n ?f)) = (case a of Some a \<Rightarrow> {#job a#} | None \<Rightarrow> {#})"
  proof (cases i)
    case None
    with f known_None [of "hostname (er_info req)" "volunteers s" a] assms(2) show ?thesis
      by (simp add: enroll_id_def fresh_id_def jobs_of_def)
  next
    case (Some j)
    with f known_Some [OF inv(1)] obtain w where "hm_get (volunteers s) j = Some w" "assigned_service w = a" by blast
    with f Some show ?thesis by (simp add: enroll_id_def jobs_of_def)
  qed
  have after: "jobs_of (Some ?v) = (case fst ?job of Some a \<Rightarrow> {#job a#} | None \<Rightarrow> {#})"
    by (simp add: jobs_of_def)
  have ins: "placed (hm_insert (enroll_id n ?f) ?v (volunteers s)) + jobs_of (hm_get (volunteers s) (enroll_id n ?f)) =
      placed (volunteers s) + jobs_of (Some ?v)" by (rule placed_insert [OF inv(4)])
  have "services (snd (enroll_finish x k e now n req ?f s)) = services s"
  proof (cases a)
    case (Some b)
    then have "fst ?job = Some b" "pending_services (snd ?job) = pending_services s"
      using f by (simp_all add: enroll_job_def Let_def frame)
    with ins before after Some show ?thesis by (simp add: services_def frame)
  next
    case None
    then have job: "?job = take_pending x k now (enroll_id n ?f) (tunnel_addr e (tunnel_public_port req)) s"
      using f by (simp add: enroll_job_def Let_def)
    show ?thesis
    proof (rule take_pending_cases [of x k now "enroll_id n ?f" "tunnel_addr e (tunnel_public_port req)" s])
      assume "fst (take_pending x k now (enroll_id n ?f) (tunnel_addr e (tunnel_public_port req)) s) = None"
        "pending_services (snd (take_pending x k now (enroll_id n ?f) (tunnel_addr e (tunnel_public_port req)) s)) =
          pending_services s"
      with ins before after None job show ?thesis by (simp add: services_def frame)
    next
      fix p ps
      assume "pending_services s = p # ps"
        "fst (take_pending x k now (enroll_id n ?f) (tunnel_addr e (tunnel_public_port req)) s) = Some (assignment_of p now)"
        "pending_services (snd (take_pending x k now (enroll_id n ?f) (tunnel_addr e (tunnel_public_port req)) s)) = ps"
      with ins before after None job show ?thesis by (simp add: services_def frame)
    qed
  qed
  then show ?thesis by (simp add: enroll_known [OF assms(1)])
qed

lemma services_heartbeat:
  assumes "reg_inv k s"
  shows "services (snd (heartbeat x k now req s)) = services s"
proof (cases "hm_get (volunteers s) (hb_volunteer_id req)")
  case (Some v)
  have "placed (hm_insert (hb_volunteer_id req) (beat now req v) (volunteers s)) = placed (volunteers s)"
    by (rule placed_same [OF reg_invD(4) [OF assms]]) (simp add: Some jobs_of_def beat_def)
  with Some show ?thesis by (simp add: heartbeat_def Let_def services_def frame)
qed (simp add: heartbeat_def)

lemma services_move:
  assumes "reg_inv k s"
  shows "services (snd (update_tunnel_port x k e id_str port s)) = services s"
proof (cases "uuid_parse k id_str")
  case (Some i)
  show ?thesis
  proof (cases "hm_get (volunteers s) i")
    case v: (Some v)
    have "placed (hm_insert i (v\<lparr>info := (info v)\<lparr>service_addr := tunnel_addr e port\<rparr>\<rparr>) (volunteers s)) =
        placed (volunteers s)"
      by (rule placed_same [OF reg_invD(4) [OF assms]]) (simp add: v jobs_of_def)
    with Some v show ?thesis by (simp add: update_tunnel_port_def Let_def services_def frame)
  qed (simp add: update_tunnel_port_def Some Let_def)
qed (simp add: update_tunnel_port_def)

definition request_job :: "register_request \<Rightarrow> job" where
  "request_job req = (rq_name req, rq_domain req, rq_image req, rq_port req)"

lemma register_response:
  "fst (fst (register_service x k now now' req s)) = 201 \<or>
     fst (fst (register_service x k now now' req s)) = 500 \<and>
     volunteers (snd (register_service x k now now' req s)) = volunteers s \<and>
     pending_services (snd (register_service x k now now' req s)) = pending_services s"
  by (simp add: register_service_def register_with_def register_commit_def on_host_eq Let_def
      split: option.split sum.split)

lemma services_register:
  assumes "reg_inv k s"
  shows "services (snd (register_service x k now now' req s)) =
    services s + (if fst (fst (register_service x k now now' req s)) = 201 then {#request_job req#} else {#})"
proof (cases "register_pick now s")
  case None
  then show ?thesis
    by (simp add: register_service_def register_with_def services_def push_back_def pending_job_def request_job_def)
next
  case (Some v)
  note inv = reg_invD [OF assms]
  have v: "hm_get (volunteers s) (vid v) = Some v" "assigned_service v = None"
    using register_pick_Some(1,3) [OF Some] by (simp_all add: map_inv_value [OF inv(1)])
  have "placed (hm_insert (vid v) (set_assignment (assignment_for req now') v) (volunteers s)) =
      placed (volunteers s) + {#request_job req#}"
    using placed_insert [OF inv(4), of "vid v" "set_assignment (assignment_for req now') v"] v
    by (simp add: jobs_of_def set_assignment_def job_def request_job_def assignment_for_def)
  with Some v show ?thesis
    by (simp add: register_service_def register_with_def register_commit_def on_host_eq Let_def services_def frame
        split: sum.split)
qed

text \<open>Evictions: each dead volunteer's service goes to the back of the queue.\<close>

lemma evict_effect:
  "volunteers (evict x k now (i, a) s) = hm_remove i (volunteers s)"
  "pending_services (evict x k now (i, a) s) =
     pending_services s @ (case a of Some a \<Rightarrow> [pending_of a now] | None \<Rightarrow> [])"
  by (simp_all add: evict_def Let_def frame push_back_def split: option.split)

lemma evict_all_effect:
  "volunteers (fold (evict x k now) ds s) = fold hm_remove (map fst ds) (volunteers s)"
  "pending_services (fold (evict x k now) ds s) =
     pending_services s @ map (\<lambda>a. pending_of a now) (List.map_filter snd ds)"
  by (induction ds arbitrary: s) (auto simp: evict_effect List.map_filter_def)

lemma churn_effect:
  "volunteers (churn_tick x k now s) = fold hm_remove (map fst (dead_volunteers now s)) (volunteers s)"
  "pending_services (churn_tick x k now s) =
     pending_services s @ map (\<lambda>a. pending_of a now) (List.map_filter snd (dead_volunteers now s))"
  by (simp_all add: churn_tick_def Let_def evict_all_effect frame List.map_filter_def)

lemma services_evict:
  assumes "hm_valid (volunteers s)" "hm_get (volunteers s) i = Some v" "assigned_service v = a"
  shows "services (evict x k now (i, a) s) = services s"
  using placed_remove [OF assms(1), of i] assms(2,3)
  by (cases a) (auto simp: services_def evict_effect jobs_of_def)

lemma services_evict_all:
  assumes "hm_valid (volunteers s)" "distinct (map fst ds)"
    and "\<And>i a. (i, a) \<in> set ds \<Longrightarrow> \<exists>v. hm_get (volunteers s) i = Some v \<and> assigned_service v = a"
  shows "services (fold (evict x k now) ds s) = services s"
  using assms
proof (induction ds arbitrary: s)
  case (Cons d ds)
  obtain i a where d: "d = (i, a)" by (cases d)
  from Cons.prems(3) [of i a] d obtain v where v: "hm_get (volunteers s) i = Some v" "assigned_service v = a" by auto
  have "services (fold (evict x k now) ds (evict x k now (i, a) s)) = services (evict x k now (i, a) s)"
  proof (rule Cons.IH)
    show "hm_valid (volunteers (evict x k now (i, a) s))"
      using Cons.prems(1) by (simp add: evict_effect store_simps)
    fix j b assume j: "(j, b) \<in> set ds"
    then have "j \<noteq> i" using Cons.prems(2) d by (auto simp: image_iff)
    with Cons.prems(1,3) j
    show "\<exists>v. hm_get (volunteers (evict x k now (i, a) s)) j = Some v \<and> assigned_service v = b"
      by (auto simp: evict_effect store_simps)
  qed (use Cons.prems(2) in simp)
  with services_evict [OF Cons.prems(1) v] d show ?case by simp
qed simp

lemma dead_distinct:
  assumes "map_inv (volunteers s)"
  shows "distinct (map fst (dead_volunteers now s))"
    and "(i, a) \<in> set (dead_volunteers now s) \<longleftrightarrow>
      (\<exists>v. hm_get (volunteers s) i = Some v \<and> assigned_service v = a \<and> \<not> is_alive now v)"
proof -
  have "map vid (hm_values (volunteers s)) = map fst (volunteers s)"
    using map_inv_get [OF assms] hm_in_get [OF map_inv_valid [OF assms]]
    by (auto simp: hm_values_def)
  then have "distinct (map vid (hm_values (volunteers s)))"
    using map_inv_valid [OF assms] by (simp add: hm_valid_def)
  then show "distinct (map fst (dead_volunteers now s))"
    by (simp add: dead_volunteers_def distinct_map_filter comp_def)
  show "(i, a) \<in> set (dead_volunteers now s) \<longleftrightarrow>
      (\<exists>v. hm_get (volunteers s) i = Some v \<and> assigned_service v = a \<and> \<not> is_alive now v)"
    using map_inv_get [OF assms]
    by (auto simp: dead_volunteers_def map_inv_value [OF assms] image_iff)
qed

lemma services_tick:
  assumes "reg_inv k s"
  shows "services (churn_tick x k now s) = services s"
proof -
  note inv = reg_invD [OF assms]
  have "services (fold (evict x k now) (dead_volunteers now s) s) = services s"
    by (rule services_evict_all [OF inv(4)])
      (use dead_distinct [OF inv(1)] in auto)
  then show ?thesis by (simp add: churn_tick_def Let_def services_def frame)
qed

lemma dead_iff:
  assumes "map_inv (volunteers s)"
  shows "i \<in> fst ` set (dead_volunteers now s) \<longleftrightarrow> (\<exists>v. hm_get (volunteers s) i = Some v \<and> \<not> is_alive now v)"
  using dead_distinct(2) [OF assms, of i _ now] by (auto simp: image_iff) (metis fst_conv)+

lemma tick_get:
  assumes "map_inv (volunteers s)"
  shows "hm_get (volunteers (churn_tick x k now s)) i =
      (case hm_get (volunteers s) i of
         Some v \<Rightarrow> if now - last_heartbeat v < 45 * 10 ^ 9 then Some v else None | None \<Rightarrow> None)"
  using dead_iff [OF assms, of i now]
  by (auto simp: churn_effect hm.find_fold_drop [OF map_inv_valid [OF assms]] is_alive_iff split: option.splits)

end
