(* ===== verification/Registrar_Properties.thy ===== *)
theory Registrar_Properties
  imports Registrar_Services
begin

text \<open>
  The properties of the registrar, each with a witness on a simulated HAProxy and concrete requests.
\<close>

subsection \<open>A concrete registrar\<close>

definition wit :: crates where
  "wit = \<lparr>uuid_simple = (\<lambda>i. show_nat (unat i)), uuid_text = (\<lambda>i. show_nat (unat i)),
     uuid_parse = (\<lambda>t. Some (word_of_nat (read_digits t))),
     to_rfc3339 = (\<lambda>t. if t < 0 then CHR ''-'' # show_nat (nat (- t)) else show_nat (nat t)),
     parse_rfc3339 = (\<lambda>t. case t of CHR ''-'' # u \<Rightarrow> Some (- int (read_digits u)) | _ \<Rightarrow> Some (int (read_digits t)))\<rparr>"

lemma show_nat_no_sign: "(case show_nat n of CHR ''-'' # u \<Rightarrow> f u | _ \<Rightarrow> g) = g"
proof -
  obtain c cs where c: "show_nat n = c # cs" using show_nat_nonempty by (meson list.exhaust)
  with show_nat_digits [of n] have "is_digit c" by simp
  then have "c \<noteq> CHR ''-''" by (auto simp: is_digit_def)
  then show ?thesis unfolding c by (cases c) (auto split: bool.splits char.splits)
qed

lemma show_nat_word: "api_word (show_nat n)"
proof -
  have "\<not> is_ws c \<and> c \<noteq> CHR ''/''" if "is_digit c" for c
    using that by (auto simp: is_digit_def is_ws_def)
  then show ?thesis
    using show_nat_digits [of n] show_nat_nonempty [of n]
    by (auto simp: api_word_def word_def list_all_iff)
qed

lemma wit_ok: "crates_ok wit"
  by (auto simp: crates_ok_def wit_def show_nat_no_sign show_nat_word inj_def intro: unsigned_word_eqI)

definition wit_env :: env where
  "wit_env = \<lparr>env_tunnel_host = None, lookup_host = (\<lambda>_. Inr [''10.0.0.1''])\<rparr>"

definition wit_req :: "string \<Rightarrow> enroll_request" where
  "wit_req name = \<lparr>er_info = \<lparr>hostname = name, os = ''linux'', arch = ''x86_64'', cpu_cores = 4, cpu_model = ''m'',
     memory_total_mb = 8000, disk_free_gb = 100, docker_version = ''27'', tunnel_version = ''1'',
     service_addr = []\<rparr>, tunnel_public_port = 30000\<rparr>"

definition wit_boot :: "(string \<times> proxy) reg" where
  "wit_boot = new_app [] [] [] (''default_backend v'', volunteers_only)"

definition wit_node :: "(string \<times> proxy) reg" where
  "wit_node = snd (enroll sim_host wit wit_env 0 7 (wit_req ''a'') wit_boot)"

lemma start_empty: "start x k now (new_app [] [] [] h) = new_app [] [] [] h"
  by (simp add: start_def db_prune_orphan_assignments_def db_load_all_def db_load_assignments_def
      db_query_eq new_app_def db_turn_def)

lemma wit_boot_reachable: "reachable sim_host wit wit_boot"
  unfolding wit_boot_def using reachable.boot [of sim_host wit 0] by (simp only: start_empty)

lemma wit_fresh: "fresh_id wit 7 wit_boot"
  by (simp add: fresh_id_def wit_boot_def new_app_def tbl_get_def)

lemma wit_node_reachable: "reachable sim_host wit wit_node"
  unfolding wit_node_def by (rule reachable.request [OF wit_boot_reachable request_step.enroll [OF wit_fresh]])

definition wit_volunteer :: volunteer_state where
  "wit_volunteer = fresh_volunteer 7 ((er_info (wit_req ''a''))\<lparr>service_addr := tunnel_addr wit_env 30000\<rparr>) 0 None"

lemma wit_node_map: "volunteers wit_node = [(7, wit_volunteer)]" "pending_services wit_node = []"
proof -
  have "enroll sim_host wit wit_env 0 7 (wit_req ''a'') wit_boot =
      enroll_finish sim_host wit wit_env 0 7 (wit_req ''a'') (None, None) wit_boot"
    using enroll_known [OF reachable_inv [OF wit_boot_reachable wit_ok], of sim_host wit_env 0 7 "wit_req ''a''"]
    by (simp add: known_def wit_boot_def new_app_def hm_values_def)
  then show "volunteers wit_node = [(7, wit_volunteer)]" "pending_services wit_node = []"
    by (simp_all add: wit_node_def frame enrolled_def enroll_job_def enroll_id_def take_pending_def wit_boot_def
        new_app_def hm_insert_def wit_volunteer_def wit_req_def)
qed

lemma wit_volunteer_alive: "is_alive t wit_volunteer \<longleftrightarrow> t < 45 * 10 ^ 9"
  by (simp_all add: is_alive_iff wit_volunteer_def fresh_volunteer_def)

subsection \<open>Invariant and restart\<close>




definition wit_service :: "string \<Rightarrow> register_request" where
  "wit_service name = \<lparr>rq_name = name, rq_domain = ''a.org'', rq_image = ''img'', rq_port = 80\<rparr>"

definition wit_queue :: "(string \<times> proxy) reg" where
  "wit_queue = snd (register_service sim_host wit 0 0 (wit_service ''a'') wit_boot)"

lemma wit_queue_reachable: "reachable sim_host wit wit_queue"
  unfolding wit_queue_def by (rule reachable.request [OF wit_boot_reachable request_step.register])

lemma wit_queue_state:
  "volunteers wit_queue = []" "map pending_job (pending_services wit_queue) = [(''a'', ''a.org'', ''img'', 80)]"
  by (simp_all add: wit_queue_def register_service_def register_pick_def active_volunteers_def hm_values_def
      wit_boot_def new_app_def register_with_def push_back_def pending_job_def wit_service_def)


subsection \<open>Services are conserved\<close>

text \<open>C3 Served one after the other, each in one piece and with no failing database statement: no service is
  lost and none is duplicated by enrolling, by heartbeats, by a change of the tunnel port or by evicting
  dead volunteers, whatever HAProxy answers; registering a service adds exactly that service when the
  answer is 201 and changes nothing when it is 500. (Handlers that overlap or are abandoned can lose or
  duplicate one: \<open>Registrar_Races\<close>, \<open>Registrar_Overlaps\<close>.)\<close>

theorem services_conserved:
  assumes "reachable x k s" and "crates_ok k"
  shows "(fresh_id k n s \<longrightarrow> services (snd (enroll x k e now n req s)) = services s) \<and>
    services (snd (heartbeat x k now hb s)) = services s \<and>
    services (snd (update_tunnel_port x k e id_str port s)) = services s \<and>
    services (churn_tick x k now s) = services s \<and>
    services (snd (register_service x k now now' rq s)) =
      services s + (if fst (fst (register_service x k now now' rq s)) = 201 then {#request_job rq#} else {#})"
proof -
  note inv = reachable_inv [OF assms]
  show ?thesis
    using services_enroll [OF inv] services_heartbeat [OF inv] services_move [OF inv] services_tick [OF inv]
      services_register [OF inv] by simp
qed

theorem services_conserved_witness:
  "services (churn_tick sim_host wit 99 wit_queue) = services wit_queue \<and>
   services (snd (enroll sim_host wit wit_env 0 7 (wit_req ''a'') wit_queue)) = services wit_queue"
proof -
  have "vol_table wit_queue = []" "asg_table wit_queue = []"
    by (simp_all add: wit_queue_def register_service_def register_pick_def active_volunteers_def hm_values_def
        wit_boot_def new_app_def register_with_def)
  then have "fresh_id wit 7 wit_queue" by (simp add: fresh_id_def wit_queue_state tbl_get_def)
  with services_conserved [OF wit_queue_reachable wit_ok, of 7 wit_env 0 "wit_req ''a''"]
    services_conserved [OF wit_queue_reachable wit_ok, of 7 wit_env 99 "wit_req ''a''"]
  show ?thesis by simp
qed

text \<open>Disconnecting loses the service: when a volunteer that serves one disconnects, the service is
  neither assigned nor queued afterwards, although its assignment row stays in the database, where no
  enrollment will find it.\<close>

theorem disconnect_loses_service:
  assumes "reachable x k s" and "crates_ok k" and "uuid_parse k id_str = Some i"
    and "hm_get (volunteers s) i = Some v" and "assigned_service v = Some a"
  shows "services s = services (snd (disconnect x k id_str s)) + {#job a#} \<and>
    fst (disconnect x k id_str s) = (200, Status ''disconnected'') \<and>
    tbl_get (asg_table (snd (disconnect x k id_str s))) (uuid_text k i) = Some (assignment_row_of k a) \<and>
    tbl_get (vol_table (snd (disconnect x k id_str s))) (uuid_text k i) = None"
proof -
  note inv = reg_invD [OF reachable_inv [OF assms(1,2)]]
  have d: "disconnect x k id_str s =
      ((200, Status ''disconnected''),
       emit [Gauge_set ''openshard_volunteers_active'' None (Count (length (hm_remove i (volunteers s))))]
         (snd (on_host (remove_volunteer x k ''volunteers'' i)
           (db_remove_volunteer k i (s\<lparr>volunteers := hm_remove i (volunteers s)\<rparr>)))))"
    using assms(3,4) by (simp add: disconnect_def Let_def)
  have "placed (hm_remove i (volunteers s)) + {#job a#} = placed (volunteers s)"
    using placed_remove [OF inv(4), of i] assms(4,5) by (simp add: jobs_of_def)
  then have "services s = services (snd (disconnect x k id_str s)) + {#job a#}"
    by (simp add: d services_def frame)
  moreover have "tbl_get (asg_table s) (uuid_text k i) = Some (assignment_row_of k a)"
    using mirror_tables(3) [OF inv(2) assms(4)] assms(5) by simp
  ultimately show ?thesis
    using tbl.find_drop [OF mirror_tables(1) [OF inv(2)], of "uuid_text k i" "uuid_text k i"] inv(3)
    by (simp add: d frame no_fault_db)
qed

text \<open>A registrar whose volunteer serves a service.\<close>

definition wit_serving :: "(string \<times> proxy) reg" where
  "wit_serving = snd (register_service sim_host wit 0 0 (wit_service ''b'') wit_node)"

lemma wit_serving_reachable: "reachable sim_host wit wit_serving"
  unfolding wit_serving_def by (rule reachable.request [OF wit_node_reachable request_step.register])

lemma wit_addr: "tunnel_addr wit_env 30000 = ''10.0.0.1'' @ '':'' @ show_nat 30000"
  "api_addr (\<lambda>_. True) ''10.0.0.1'' (show_nat 30000)"
  using sim_words(2) show_nat_digits
  by (simp_all add: tunnel_addr_def resolve_tunnel_ip_def wit_env_def api_addr_def)

lemma wit_assign:
  assumes "fst h = ''default_backend v''"
  shows "\<exists>h'. assign_service sim_host ''b'' ''a.org'' i (tunnel_addr wit_env 30000) h = (Inr (), h')"
proof -
  have w: "api_word ''b''" "word ''svc_b''" "plain_line ''a.org''" "\<not> service_exists (fst h) ''svc_b''"
    using assms
    by (simp_all add: api_word_def word_def is_ws_def plain_line_def service_exists_def acl_marker_def
        str_lines_last trim_def)
  from sim_add_service [OF _ w(2,3), of h] assms w(4) obtain h1 where
    "add_service sim_host (''svc_'' @ ''b'') ''a.org'' h = (Inr (), h1)" "known_backend (snd h1) (''svc_'' @ ''b'')"
    by (auto simp: default_backend_cfg)
  with assign_service_cases [OF sim_host_ok w(1) wit_addr(2), of "''a.org''" h h1 i] show ?thesis
    unfolding wit_addr(1) by auto
qed

lemma wit_node_file: "fst (host_state wit_node) = ''default_backend v''"
proof -
  have "host_state wit_node = snd (upsert_volunteer sim_host wit ''volunteers'' 7 (tunnel_addr wit_env 30000) 100
      (host_state wit_boot))"
    using enroll_known [OF reachable_inv [OF wit_boot_reachable wit_ok], of sim_host wit_env 0 7 "wit_req ''a''"]
    by (simp add: wit_node_def known_def wit_boot_def new_app_def hm_values_def enroll_finish_def Let_def
        take_pending_def on_host_eq frame wit_req_def)
  moreover have "keeps fst (upsert_volunteer sim_host wit ''volunteers'' 7 (tunnel_addr wit_env 30000) 100)"
    unfolding upsert_volunteer_def by (intro keeps_tryE keeps_upsert [OF sim_host_ok] keeps_basic)
  ultimately show ?thesis by (simp add: keeps_def wit_boot_def new_app_def)
qed

lemma wit_serving_map:
  "volunteers wit_serving = [(7, set_assignment (assignment_for (wit_service ''b'') 0) wit_volunteer)]"
proof -
  have v: "vid wit_volunteer = 7" "service_addr (info wit_volunteer) = tunnel_addr wit_env 30000"
    "assigned_service wit_volunteer = None" by (simp_all add: wit_volunteer_def fresh_volunteer_def)
  have pick: "register_pick 0 wit_node = Some wit_volunteer"
    by (simp add: register_pick_def active_volunteers_def wit_node_map hm_values_def wit_volunteer_alive v)
  obtain h' where "assign_service sim_host ''b'' ''a.org'' 7 (tunnel_addr wit_env 30000) (host_state wit_node) = (Inr (), h')"
    using wit_assign [OF wit_node_file] by blast
  then show ?thesis
    by (simp add: wit_serving_def register_service_def pick register_with_def on_host_eq wit_service_def v
        tunnel_addr_for_def register_commit_def Let_def frame wit_node_map hm_get_def hm_insert_def)
qed

theorem disconnect_loses_service_witness:
  "services wit_serving = services (snd (disconnect sim_host wit (show_nat 7) wit_serving)) + {#(''b'', ''a.org'', ''img'', 80)#}"
proof -
  have "uuid_parse wit (show_nat 7) = Some 7" by (simp add: wit_def)
  from disconnect_loses_service [OF wit_serving_reachable wit_ok this] show ?thesis
    by (simp add: wit_serving_map hm_get_def set_assignment_def assignment_for_def job_def wit_service_def)
qed

subsection \<open>Requests\<close>




text \<open>C16 A heartbeat of an unknown volunteer is answered 404 and changes nothing; that of a known one is
  answered 200 with its assignment and writes its record: the four metrics and the time of the
  heartbeat are stored, what runs on it and its image are those of the request or, where it gives none,
  those before, and every other field is kept, and so are the other volunteers and the queue. The
  volunteer counts as alive for exactly the 45 seconds after it.\<close>

theorem heartbeat_spec:
  assumes "reachable x k s" and "crates_ok k"
  shows "(hm_get (volunteers s) (hb_volunteer_id hb) = None \<longrightarrow> heartbeat x k now hb s = (not_found, s)) \<and>
    (\<forall>v. hm_get (volunteers s) (hb_volunteer_id hb) = Some v \<longrightarrow>
      (\<exists>w s'. heartbeat x k now hb s = ((200, Heartbeat_response (payload (assigned_service v))), s') \<and>
        (\<forall>j. hm_get (volunteers s') j = (if j = hb_volunteer_id hb then Some w else hm_get (volunteers s) j)) \<and>
        pending_services s' = pending_services s \<and>
        w = v\<lparr>metrics := \<lparr>cpu_pct = hb_cpu_pct hb, mem_pct = hb_mem_pct hb, load_avg = hb_load_avg hb,
              active_requests = hb_active_requests hb\<rparr>,
            last_heartbeat := now,
            service_running := (case hb_service_running hb of None \<Rightarrow> service_running v | Some r \<Rightarrow> Some r),
            service_image := (case hb_service_image hb of None \<Rightarrow> service_image v | Some m \<Rightarrow> Some m)\<rparr> \<and>
        (\<forall>t. is_alive t w \<longleftrightarrow> t - now < 45 * 10 ^ 9)))"
proof (intro conjI allI impI)
  assume "hm_get (volunteers s) (hb_volunteer_id hb) = None"
  then show "heartbeat x k now hb s = (not_found, s)" by (simp add: heartbeat_def)
next
  note inv = reg_invD [OF reachable_inv [OF assms]]
  fix v assume v: "hm_get (volunteers s) (hb_volunteer_id hb) = Some v"
  show "\<exists>w s'. heartbeat x k now hb s = ((200, Heartbeat_response (payload (assigned_service v))), s') \<and>
        (\<forall>j. hm_get (volunteers s') j = (if j = hb_volunteer_id hb then Some w else hm_get (volunteers s) j)) \<and>
        pending_services s' = pending_services s \<and>
        w = v\<lparr>metrics := \<lparr>cpu_pct = hb_cpu_pct hb, mem_pct = hb_mem_pct hb, load_avg = hb_load_avg hb,
              active_requests = hb_active_requests hb\<rparr>,
            last_heartbeat := now,
            service_running := (case hb_service_running hb of None \<Rightarrow> service_running v | Some r \<Rightarrow> Some r),
            service_image := (case hb_service_image hb of None \<Rightarrow> service_image v | Some m \<Rightarrow> Some m)\<rparr> \<and>
        (\<forall>t. is_alive t w \<longleftrightarrow> t - now < 45 * 10 ^ 9)"
    by (intro exI [of _ "beat now hb v"] exI [of _ "snd (heartbeat x k now hb s)"])
      (simp add: heartbeat_def v Let_def frame store_simps inv(4) beat_def is_alive_iff split: option.split)
qed

theorem heartbeat_spec_witness:
  "fst (heartbeat sim_host wit 9 \<lparr>hb_volunteer_id = 7, hb_cpu_pct = Fin 10, hb_mem_pct = Fin 20, hb_load_avg = Fin 1,
      hb_active_requests = 3, hb_service_running = None, hb_service_image = None\<rparr> wit_node) = (200, Heartbeat_response None) \<and>
   fst (heartbeat sim_host wit 9 \<lparr>hb_volunteer_id = 8, hb_cpu_pct = Fin 10, hb_mem_pct = Fin 20, hb_load_avg = Fin 1,
      hb_active_requests = 3, hb_service_running = None, hb_service_image = None\<rparr> wit_node) = not_found"
  (is "fst (heartbeat _ _ _ ?a _) = _ \<and> fst (heartbeat _ _ _ ?b _) = _")
proof -
  have "hm_get (volunteers wit_node) 7 = Some wit_volunteer" "hm_get (volunteers wit_node) 8 = None"
    "payload (assigned_service wit_volunteer) = None"
    by (simp_all add: wit_node_map hm_get_def payload_def wit_volunteer_def fresh_volunteer_def)
  with heartbeat_spec [OF wit_node_reachable wit_ok, of ?a 9]
    heartbeat_spec [OF wit_node_reachable wit_ok, of ?b 9]
  show ?thesis by auto
qed

text \<open>C15 A churn tick, as one step with no failing statement, removes exactly the volunteers whose last
  heartbeat is 45 seconds old or older and keeps the others as they are. The queue after it is the queue
  before it followed by the services of the removed volunteers, each once for each volunteer that had it,
  in the order in which the tick met them.\<close>

theorem churn_spec:
  assumes "reachable x k s" and "crates_ok k"
  shows "(\<forall>i. hm_get (volunteers (churn_tick x k now s)) i =
      (case hm_get (volunteers s) i of
         Some v \<Rightarrow> if now - last_heartbeat v < 45 * 10 ^ 9 then Some v else None | None \<Rightarrow> None)) \<and>
    (\<exists>is. distinct is \<and>
       set is = {i. \<exists>v. hm_get (volunteers s) i = Some v \<and> now - last_heartbeat v \<ge> 45 * 10 ^ 9} \<and>
       pending_services (churn_tick x k now s) = pending_services s @
         concat (map (\<lambda>i. case Option.bind (hm_get (volunteers s) i) assigned_service of
             Some a \<Rightarrow> [\<lparr>p_name = service_name a, p_domain = domain a, p_image = image a,
               p_service_port = service_port a, registered_at = now\<rparr>]
           | None \<Rightarrow> []) is))"
proof (intro conjI allI)
  note inv = reg_invD [OF reachable_inv [OF assms]]
  fix i
  show "hm_get (volunteers (churn_tick x k now s)) i =
      (case hm_get (volunteers s) i of
         Some v \<Rightarrow> if now - last_heartbeat v < 45 * 10 ^ 9 then Some v else None | None \<Rightarrow> None)"
    by (rule tick_get [OF inv(1)])
next
  note inv = reg_invD [OF reachable_inv [OF assms]]
  let ?ds = "dead_volunteers now s"
  have "map (\<lambda>a. pending_of a now) (List.map_filter snd ds) =
      concat (map (\<lambda>i. case Option.bind (hm_get (volunteers s) i) assigned_service of
         Some a \<Rightarrow> [pending_of a now] | None \<Rightarrow> []) (map fst ds))" if "set ds \<subseteq> set ?ds" for ds
    using that dead_distinct(2) [OF inv(1)]
    by (induction ds) (fastforce simp: List.map_filter_def split: option.split)+
  from this [OF subset_refl] have queue: "pending_services (churn_tick x k now s) = pending_services s @
      concat (map (\<lambda>i. case Option.bind (hm_get (volunteers s) i) assigned_service of
         Some a \<Rightarrow> [pending_of a now] | None \<Rightarrow> []) (map fst ?ds))"
    by (simp add: churn_effect(2))
  have "set (map fst ?ds) = {i. \<exists>v. hm_get (volunteers s) i = Some v \<and> now - last_heartbeat v \<ge> 45 * 10 ^ 9}"
    using dead_distinct(2) [OF inv(1)] by (force simp: is_alive_iff)
  with queue dead_distinct(1) [OF inv(1)]
  show "\<exists>is. distinct is \<and>
       set is = {i. \<exists>v. hm_get (volunteers s) i = Some v \<and> now - last_heartbeat v \<ge> 45 * 10 ^ 9} \<and>
       pending_services (churn_tick x k now s) = pending_services s @
         concat (map (\<lambda>i. case Option.bind (hm_get (volunteers s) i) assigned_service of
             Some a \<Rightarrow> [\<lparr>p_name = service_name a, p_domain = domain a, p_image = image a,
               p_service_port = service_port a, registered_at = now\<rparr>]
           | None \<Rightarrow> []) is)"
    unfolding pending_of_def by blast
qed

theorem churn_spec_witness:
  "hm_get (volunteers (churn_tick sim_host wit (44 * 10 ^ 9) wit_node)) 7 = Some wit_volunteer \<and>
   hm_get (volunteers (churn_tick sim_host wit (45 * 10 ^ 9) wit_node)) 7 = None"
proof -
  have "hm_get (volunteers wit_node) 7 = Some wit_volunteer" "last_heartbeat wit_volunteer = 0"
    by (simp_all add: wit_node_map hm_get_def wit_volunteer_def fresh_volunteer_def)
  with churn_spec [OF wit_node_reachable wit_ok, of "44 * 10 ^ 9"]
    churn_spec [OF wit_node_reachable wit_ok, of "45 * 10 ^ 9"]
  show ?thesis by simp
qed

text \<open>C14 Registering a service: with no live volunteer free it is queued last; otherwise it goes to a live
  volunteer without a service, one of the greatest weight among these, in the map and in the database,
  and when HAProxy refuses the answer is 500 and nothing is recorded.\<close>

theorem register_spec:
  assumes "reachable x k s" and "crates_ok k"
  shows "\<exists>r s'. register_service x k now now' rq s = (r, s') \<and>
    (if \<forall>v \<in> set (hm_values (volunteers s)). is_alive now v \<longrightarrow> assigned_service v \<noteq> None
     then fst r = 201 \<and> volunteers s' = volunteers s \<and>
       map pending_job (pending_services s') = map pending_job (pending_services s) @ [request_job rq]
     else \<exists>v \<in> set (hm_values (volunteers s)). is_alive now v \<and> assigned_service v = None \<and>
       (\<forall>w \<in> set (hm_values (volunteers s)). is_alive now w \<longrightarrow> assigned_service w = None \<longrightarrow>
          weight (metrics w) \<le> weight (metrics v)) \<and>
       pending_services s' = pending_services s \<and>
       (if isl (fst (assign_service x (rq_name rq) (rq_domain rq) (vid v) (service_addr (info v)) (host_state s)))
        then fst r = 500 \<and> volunteers s' = volunteers s \<and> asg_table s' = asg_table s
        else r = (201, Register_response (''svc_'' @ rq_name rq) (rq_domain rq) (Some (uuid_text k (vid v)))) \<and>
          (\<forall>j. hm_get (volunteers s') j =
             (if j = vid v then Some (v\<lparr>assigned_service := Some (assignment_for rq now')\<rparr>)
              else hm_get (volunteers s) j)) \<and>
          tbl_get (asg_table s') (uuid_text k (vid v)) = Some (assignment_row_of k (assignment_for rq now'))))"
proof (cases "register_pick now s")
  case None
  then have "\<forall>v \<in> set (hm_values (volunteers s)). is_alive now v \<longrightarrow> assigned_service v \<noteq> None"
    by (auto simp: register_pick_def find_None_iff set_active)
  with None show ?thesis
    by (simp add: register_service_def register_with_def push_back_def pending_job_def request_job_def)
next
  case (Some v)
  note inv = reg_invD [OF reachable_inv [OF assms]]
  note pick = register_pick_Some [OF Some]
  have g: "hm_get (volunteers s) (vid v) = Some v" using pick(1) by (simp add: map_inv_value [OF inv(1)])
  have ex: "\<not> (\<forall>v \<in> set (hm_values (volunteers s)). is_alive now v \<longrightarrow> assigned_service v \<noteq> None)"
    using pick(1-3) by blast
  let ?host = "assign_service x (rq_name rq) (rq_domain rq) (vid v) (service_addr (info v)) (host_state s)"
  show ?thesis
  proof (cases "fst ?host")
    case (Inl e)
    then have r: "register_service x k now now' rq s = ((500, Failure (error_text e)), s\<lparr>host_state := snd ?host\<rparr>)"
      using Some by (simp add: register_service_def register_with_def on_host_eq tunnel_addr_for_def)
    show ?thesis
      by (intro exI conjI, rule r, subst if_not_P [OF ex], intro bexI [OF _ pick(1)] conjI ballI impI)
        (use pick Inl in simp_all)
  next
    case (Inr u)
    let ?s' = "(db_upsert_assignment k (vid v) (assignment_for rq now') (s\<lparr>host_state := snd ?host\<rparr>))
           \<lparr>volunteers := hm_insert (vid v) (set_assignment (assignment_for rq now') v) (volunteers s)\<rparr>"
    have r: "register_service x k now now' rq s =
        ((201, Register_response (''svc_'' @ rq_name rq) (rq_domain rq) (Some (uuid_text k (vid v)))), ?s')"
      using Some g Inr
      by (simp add: register_service_def register_with_def register_commit_def on_host_eq tunnel_addr_for_def Let_def frame)
    have row: "tbl_get (asg_table ?s') (uuid_text k (vid v)) = Some (assignment_row_of k (assignment_for rq now'))"
      using mirror_tables(2) [OF inv(2)] inv(3) by (simp add: store_simps no_fault_db)
    have get: "hm_get (volunteers ?s') j =
        (if j = vid v then Some (v\<lparr>assigned_service := Some (assignment_for rq now')\<rparr>) else hm_get (volunteers s) j)" for j
      using inv(4) by (simp add: store_simps set_assignment_def)
    have pend: "pending_services ?s' = pending_services s" by (simp add: frame)
    show ?thesis
      by (intro exI conjI, rule r, subst if_not_P [OF ex], intro bexI [OF _ pick(1)] conjI ballI impI)
        (use pick Inr row get pend in simp_all)
  qed
qed

theorem register_spec_witness:
  "fst (fst (register_service sim_host wit 0 0 (wit_service ''c'') wit_serving)) = 201 \<and>
   map pending_job (pending_services (snd (register_service sim_host wit 0 0 (wit_service ''c'') wit_serving))) =
     map pending_job (pending_services wit_serving) @ [(''c'', ''a.org'', ''img'', 80)]"
  using register_spec [OF wit_serving_reachable wit_ok, of 0 0 "wit_service ''c''"]
  by (auto simp: wit_serving_map hm_values_def set_assignment_def request_job_def wit_service_def)

text \<open>C17 Dispatch: when no volunteer is alive no request is sent and the answer is the registrar's own 503
  with its text. Otherwise the request, with its method, body and path, is sent once, to the address of
  a live volunteer that no live volunteer outweighs, and the answer is the volunteer's, its status
  (in 100-999) passed on as it is, a 503 of the volunteer included, with its content, or nothing when the content
  cannot be read; a request that does not get through is answered 502, and one whose own body cannot be
  read 500 with nothing sent. No handler state is changed.\<close>

theorem dispatch_spec:
  "if \<forall>v \<in> set (hm_values (volunteers s)). \<not> is_alive now v
   then dispatch client now req s = ((503, Text ''No volunteers available''), s)
   else \<exists>v \<in> set (hm_values (volunteers s)). is_alive now v \<and>
     (\<forall>w \<in> set (hm_values (volunteers s)). is_alive now w \<longrightarrow> weight (metrics w) \<le> weight (metrics v)) \<and>
     (case rq_body req of
        Inl _ \<Rightarrow> dispatch client now req s = ((500, Empty), s)
      | Inr bytes \<Rightarrow>
          (case client (rq_method req) (dispatch_url v req) bytes (host_state s) of
             (Inl _, h) \<Rightarrow> dispatch client now req s = ((502, Empty), s\<lparr>host_state := h\<rparr>)
           | (Inr (code, content), h) \<Rightarrow> 100 \<le> code \<and> code \<le> 999 \<longrightarrow>
               dispatch client now req s =
                 ((code, Forwarded (case content of Inr b \<Rightarrow> b | Inl _ \<Rightarrow> [])), s\<lparr>host_state := h\<rparr>)))"
proof (cases "active_volunteers now (volunteers s)")
  case Nil
  then have "\<forall>v \<in> set (hm_values (volunteers s)). \<not> is_alive now v"
    using set_active [of now "volunteers s"] by auto
  with Nil show ?thesis by (simp add: dispatch_def)
next
  case (Cons v vs)
  note v = active_first [OF Cons]
  have ex: "\<not> (\<forall>v \<in> set (hm_values (volunteers s)). \<not> is_alive now v)" using v by blast
  have "case rq_body req of
        Inl _ \<Rightarrow> dispatch client now req s = ((500, Empty), s)
      | Inr bytes \<Rightarrow>
          (case client (rq_method req) (dispatch_url v req) bytes (host_state s) of
             (Inl _, h) \<Rightarrow> dispatch client now req s = ((502, Empty), s\<lparr>host_state := h\<rparr>)
           | (Inr (code, content), h) \<Rightarrow> 100 \<le> code \<and> code \<le> 999 \<longrightarrow>
               dispatch client now req s =
                 ((code, Forwarded (case content of Inr b \<Rightarrow> b | Inl _ \<Rightarrow> [])), s\<lparr>host_state := h\<rparr>))"
    by (simp add: dispatch_def Cons on_host_def split: sum.split prod.split)
  with ex v show ?thesis by (simp only: if_False) blast
qed

theorem dispatch_spec_witness:
  "dispatch (\<lambda>m u b h. (Inr (200, Inr b), h)) 0 \<lparr>rq_method = ''GET'', rq_path = None, rq_body = Inr [1]\<rparr> wit_node =
     ((200, Forwarded [1]), wit_node) \<and>
   fst (fst (dispatch (\<lambda>m u b h. (Inr (200, Inr b), h)) (45 * 10 ^ 9)
     \<lparr>rq_method = ''GET'', rq_path = None, rq_body = Inr [1]\<rparr> wit_node)) = 503"
  using dispatch_spec [of wit_node 0 "\<lambda>m u b h. (Inr (200, Inr b), h)" "\<lparr>rq_method = ''GET'', rq_path = None, rq_body = Inr [1]\<rparr>"]
    dispatch_spec [of wit_node "45 * 10 ^ 9" "\<lambda>m u b h. (Inr (200, Inr b), h)" "\<lparr>rq_method = ''GET'', rq_path = None, rq_body = Inr [1]\<rparr>"]
  by (simp add: wit_node_map hm_values_def wit_volunteer_alive)

end
