(* ===== verification/Registrar_Tasks.thy ===== *)
theory Registrar_Tasks
  imports Registrar_Properties
begin

text \<open>
  The handlers of the registrar as tasks: each is cut at the points where the code gives up a lock or
  awaits something, so that other handlers can run in between. A task is a control point with the
  local variables that are live there; \<open>advance\<close> is what the handler does up to the next point. A call
  of the HAProxy library is one step. The handlers of \<open>Registrar\<close> are the tasks run without
  interruption.
\<close>

subsection \<open>Control points\<close>

record enrolling =
  e_env :: env
  e_now :: int
  e_new :: uuid
  e_req :: enroll_request

datatype task =
  Enroll_memory enrolling
| Enroll_name enrolling
| Enroll_service enrolling uuid
| Enroll_row enrolling uuid
| Enroll_pop enrolling uuid
| Enroll_reattach enrolling uuid service_assignment
| Enroll_assign enrolling uuid pending_service
| Enroll_requeue enrolling uuid pending_service
| Enroll_record enrolling uuid service_assignment
| Enroll_store enrolling uuid "service_assignment option"
| Enroll_insert enrolling uuid "service_assignment option"
| Enroll_proxy enrolling uuid "service_assignment option" nat
| Beat_map int heartbeat_request
| Beat_row heartbeat_request volunteer_state
| Beat_weight heartbeat_request volunteer_state
| Beat_add heartbeat_request volunteer_state
| Leave_map string
| Leave_row uuid nat
| Leave_proxy uuid nat
| Move_map env string u16
| Move_row uuid string volunteer_state
| Move_proxy uuid string volunteer_state
| Reg_pick int int register_request
| Reg_assign int volunteer_state register_request
| Reg_row int volunteer_state register_request
| Reg_map int volunteer_state register_request
| Reg_queue int register_request
| Tick_scan int
| Tick_map int uuid "service_assignment option" "(uuid \<times> service_assignment option) list"
| Tick_row int uuid "service_assignment option" "(uuid \<times> service_assignment option) list"
| Tick_proxy int uuid "service_assignment option" "(uuid \<times> service_assignment option) list"
| Tick_assignment int uuid service_assignment "(uuid \<times> service_assignment option) list"
| Tick_queue int service_assignment "(uuid \<times> service_assignment option) list"
| Tick_end

definition e_addr :: "enrolling \<Rightarrow> string" where
  "e_addr j = tunnel_addr (e_env j) (tunnel_public_port (e_req j))"

definition e_volunteer :: "enrolling \<Rightarrow> uuid \<Rightarrow> service_assignment option \<Rightarrow> volunteer_state" where
  "e_volunteer j i a = fresh_volunteer i ((er_info (e_req j))\<lparr>service_addr := e_addr j\<rparr>) (e_now j) a"

text \<open>The metrics and the answer at the end of a heartbeat; the next eviction of a churn tick.\<close>

definition beat_answer :: "heartbeat_request \<Rightarrow> volunteer_state \<Rightarrow> 'h reg \<Rightarrow> (task + response option) \<times> 'h reg" where
  "beat_answer hb v s =
     (let h = Some (hostname (info v))
      in (Inr (Some (200, Heartbeat_response (payload (assigned_service v)))),
          emit [Counter_incremented ''openshard_heartbeats_total'',
                Gauge_set ''openshard_volunteer_weight'' h (Count (unat (weight (metrics v)))),
                Gauge_set ''openshard_volunteer_cpu_pct'' h (Measured (hb_cpu_pct hb)),
                Gauge_set ''openshard_volunteer_mem_pct'' h (Measured (hb_mem_pct hb))] s))"

fun next_dead :: "int \<Rightarrow> (uuid \<times> service_assignment option) list \<Rightarrow> task" where
  "next_dead now [] = Tick_end"
| "next_dead now ((i, a) # ds) = Tick_map now i a ds"

subsection \<open>One step of a task\<close>

text \<open>
  Each of these functions is for the control points of one handler; \<open>advance\<close> calls the one of the task.
\<close>

fun advance_enroll :: "'h host \<Rightarrow> crates \<Rightarrow> task \<Rightarrow> 'h reg \<Rightarrow> (task + response option) \<times> 'h reg" where
  "advance_enroll x k (Enroll_memory j) s =
     (if hostname (er_info (e_req j)) = [] then (Inl (Enroll_pop j (e_new j)), s)
      else case List.find (\<lambda>v. hostname (info v) = hostname (er_info (e_req j))) (hm_values (volunteers s)) of
             Some v \<Rightarrow> (Inl (Enroll_service j (vid v)), s)
           | None \<Rightarrow> (Inl (Enroll_name j), s))"
| "advance_enroll x k (Enroll_name j) s =
     (case db_find_by_hostname k (hostname (er_info (e_req j))) s of
        (Some i, s) \<Rightarrow> (Inl (Enroll_service j i), s)
      | (None, s) \<Rightarrow> (Inl (Enroll_pop j (e_new j)), s))"
| "advance_enroll x k (Enroll_service j i) s =
     (case Option.bind (hm_get (volunteers s) i) assigned_service of
        Some a \<Rightarrow> (Inl (Enroll_reattach j i a), s)
      | None \<Rightarrow> (Inl (Enroll_row j i), s))"
| "advance_enroll x k (Enroll_row j i) s =
     (case db_get_assignment k i s of
        (Some a, s) \<Rightarrow> (Inl (Enroll_reattach j i a), s)
      | (None, s) \<Rightarrow> (Inl (Enroll_pop j i), s))"
| "advance_enroll x k (Enroll_pop j i) s =
     (case pop_front (pending_services s) of
        (Some p, q) \<Rightarrow> (Inl (Enroll_assign j i p), s\<lparr>pending_services := q\<rparr>)
      | (None, q) \<Rightarrow> (Inl (Enroll_store j i None), s))"
| "advance_enroll x k (Enroll_reattach j i a) s =
     (Inl (Enroll_record j i a), snd (on_host (assign_service x (service_name a) (domain a) i (e_addr j)) s))"
| "advance_enroll x k (Enroll_assign j i p) s =
     (case on_host (assign_service x (p_name p) (p_domain p) i (e_addr j)) s of
        (Inr _, s) \<Rightarrow> (Inl (Enroll_record j i (assignment_of p (e_now j))), s)
      | (Inl _, s) \<Rightarrow> (Inl (Enroll_requeue j i p), s))"
| "advance_enroll x k (Enroll_requeue j i p) s =
     (Inl (Enroll_store j i None), s\<lparr>pending_services := push_front p (pending_services s)\<rparr>)"
| "advance_enroll x k (Enroll_record j i a) s = (Inl (Enroll_store j i (Some a)), db_upsert_assignment k i a s)"
| "advance_enroll x k (Enroll_store j i a) s = (Inl (Enroll_insert j i a), db_upsert_volunteer k (e_volunteer j i a) s)"
| "advance_enroll x k (Enroll_insert j i a) s =
     (let m = hm_insert i (e_volunteer j i a) (volunteers s)
      in (Inl (Enroll_proxy j i a (length m)), s\<lparr>volunteers := m\<rparr>))"
| "advance_enroll x k (Enroll_proxy j i a n) s =
     (Inr (Some (201, Enroll_response (uuid_text k i) HEARTBEAT_INTERVAL_SECS (payload a))),
      emit [Counter_incremented ''openshard_enrollments_total'',
            Gauge_set ''openshard_volunteers_active'' None (Count n)]
        (snd (on_host (upsert_volunteer x k ''volunteers'' i (e_addr j) 100) s)))"

fun advance_heartbeat :: "'h host \<Rightarrow> crates \<Rightarrow> task \<Rightarrow> 'h reg \<Rightarrow> (task + response option) \<times> 'h reg" where
  "advance_heartbeat x k (Beat_map now hb) s =
     (case hm_get (volunteers s) (hb_volunteer_id hb) of
        None \<Rightarrow> (Inr (Some not_found), s)
      | Some v \<Rightarrow> (Inl (Beat_row hb (beat now hb v)),
          s\<lparr>volunteers := hm_insert (hb_volunteer_id hb) (beat now hb v) (volunteers s)\<rparr>))"
| "advance_heartbeat x k (Beat_row hb v) s = (Inl (Beat_weight hb v), db_upsert_volunteer k v s)"
| "advance_heartbeat x k (Beat_weight hb v) s =
     (case on_host (set_volunteer_weight x k ''volunteers'' (vid v) (weight (metrics v))) s of
        (Inr _, s) \<Rightarrow> beat_answer hb v s
      | (Inl e, s) \<Rightarrow> if contains ''No such server'' (error_text e) then (Inl (Beat_add hb v), s)
                     else beat_answer hb v s)"
| "advance_heartbeat x k (Beat_add hb v) s =
     beat_answer hb v (snd (on_host
       (add_volunteer x k ''volunteers'' (vid v) (service_addr (info v)) (weight (metrics v))) s))"

fun advance_disconnect :: "'h host \<Rightarrow> crates \<Rightarrow> task \<Rightarrow> 'h reg \<Rightarrow> (task + response option) \<times> 'h reg" where
  "advance_disconnect x k (Leave_map id_str) s =
     (case uuid_parse k id_str of
        None \<Rightarrow> (Inr (Some invalid_id), s)
      | Some i \<Rightarrow>
          let m = hm_remove i (volunteers s)
          in (case hm_get (volunteers s) i of
                None \<Rightarrow> Inr (Some not_found) | Some _ \<Rightarrow> Inl (Leave_row i (length m)), s\<lparr>volunteers := m\<rparr>))"
| "advance_disconnect x k (Leave_row i n) s = (Inl (Leave_proxy i n), db_remove_volunteer k i s)"
| "advance_disconnect x k (Leave_proxy i n) s =
     (Inr (Some (200, Status ''disconnected'')),
      emit [Gauge_set ''openshard_volunteers_active'' None (Count n)]
        (snd (on_host (remove_volunteer x k ''volunteers'' i) s)))"

fun advance_move :: "'h host \<Rightarrow> crates \<Rightarrow> task \<Rightarrow> 'h reg \<Rightarrow> (task + response option) \<times> 'h reg" where
  "advance_move x k (Move_map e id_str port) s =
     (case uuid_parse k id_str of
        None \<Rightarrow> (Inr (Some invalid_id), s)
      | Some i \<Rightarrow>
          (case hm_get (volunteers s) i of
             None \<Rightarrow> (Inr (Some not_found), s)
           | Some v \<Rightarrow>
               let v = v\<lparr>info := (info v)\<lparr>service_addr := tunnel_addr e port\<rparr>\<rparr>
               in (Inl (Move_row i (tunnel_addr e port) v), s\<lparr>volunteers := hm_insert i v (volunteers s)\<rparr>)))"
| "advance_move x k (Move_row i addr v) s = (Inl (Move_proxy i addr v), db_upsert_volunteer k v s)"
| "advance_move x k (Move_proxy i addr v) s =
     (Inr (Some (200, Status ''ok'')),
      snd (on_host (update_volunteer_addr x k i addr
        (map_option (\<lambda>a. (service_name a, addr)) (assigned_service v))) s))"

fun advance_register :: "'h host \<Rightarrow> crates \<Rightarrow> task \<Rightarrow> 'h reg \<Rightarrow> (task + response option) \<times> 'h reg" where
  "advance_register x k (Reg_pick now now' rq) s =
     (case register_pick now s of
        Some v \<Rightarrow> (Inl (Reg_assign now' v rq), s)
      | None \<Rightarrow> (Inl (Reg_queue now' rq), s))"
| "advance_register x k (Reg_assign now v rq) s =
     (case on_host (assign_service x (rq_name rq) (rq_domain rq) (vid v)
              (tunnel_addr_for (service_addr (info v)))) s of
        (Inl e, s) \<Rightarrow> (Inr (Some (500, Failure (error_text e))), s)
      | (Inr _, s) \<Rightarrow> (Inl (Reg_row now v rq), s))"
| "advance_register x k (Reg_row now v rq) s =
     (Inl (Reg_map now v rq), db_upsert_assignment k (vid v) (assignment_for rq now) s)"
| "advance_register x k (Reg_map now v rq) s =
     (Inr (Some (201, Register_response (''svc_'' @ rq_name rq) (rq_domain rq) (Some (uuid_text k (vid v))))),
      case hm_get (volunteers s) (vid v) of
        Some w \<Rightarrow> s\<lparr>volunteers := hm_insert (vid v) (set_assignment (assignment_for rq now) w) (volunteers s)\<rparr>
      | None \<Rightarrow> s)"
| "advance_register x k (Reg_queue now rq) s =
     (Inr (Some (201, Register_response (''svc_'' @ rq_name rq) (rq_domain rq) None)),
      s\<lparr>pending_services := push_back \<lparr>p_name = rq_name rq, p_domain = rq_domain rq, p_image = rq_image rq,
         p_service_port = rq_port rq, registered_at = now\<rparr> (pending_services s)\<rparr>)"

fun advance_churn :: "'h host \<Rightarrow> crates \<Rightarrow> task \<Rightarrow> 'h reg \<Rightarrow> (task + response option) \<times> 'h reg" where
  "advance_churn x k (Tick_scan now) s =
     (case dead_volunteers now s of [] \<Rightarrow> (Inr None, s) | d # ds \<Rightarrow> (Inl (next_dead now (d # ds)), s))"
| "advance_churn x k (Tick_map now i a ds) s =
     (Inl (Tick_row now i a ds), s\<lparr>volunteers := hm_remove i (volunteers s)\<rparr>)"
| "advance_churn x k (Tick_row now i a ds) s = (Inl (Tick_proxy now i a ds), db_remove_volunteer k i s)"
| "advance_churn x k (Tick_proxy now i a ds) s =
     (let s = snd (on_host (remove_volunteer x k ''volunteers'' i) s)
      in case a of
           Some b \<Rightarrow> (Inl (Tick_assignment now i b ds), s)
         | None \<Rightarrow> (Inl (next_dead now ds), emit [Counter_incremented ''openshard_evictions_total''] s))"
| "advance_churn x k (Tick_assignment now i a ds) s = (Inl (Tick_queue now a ds), db_remove_assignment k i s)"
| "advance_churn x k (Tick_queue now a ds) s =
     (Inl (next_dead now ds),
      emit [Counter_incremented ''openshard_evictions_total'']
        (s\<lparr>pending_services := push_back (pending_of a now) (pending_services s)\<rparr>))"
| "advance_churn x k Tick_end s =
     (Inr None, emit [Gauge_set ''openshard_volunteers_active'' None (Count (length (volunteers s)))] s)"

fun advance :: "'h host \<Rightarrow> crates \<Rightarrow> task \<Rightarrow> 'h reg \<Rightarrow> (task + response option) \<times> 'h reg" where
  "advance x k (Beat_map now hb) s = advance_heartbeat x k (Beat_map now hb) s"
| "advance x k (Beat_row hb v) s = advance_heartbeat x k (Beat_row hb v) s"
| "advance x k (Beat_weight hb v) s = advance_heartbeat x k (Beat_weight hb v) s"
| "advance x k (Beat_add hb v) s = advance_heartbeat x k (Beat_add hb v) s"
| "advance x k (Leave_map id_str) s = advance_disconnect x k (Leave_map id_str) s"
| "advance x k (Leave_row i n) s = advance_disconnect x k (Leave_row i n) s"
| "advance x k (Leave_proxy i n) s = advance_disconnect x k (Leave_proxy i n) s"
| "advance x k (Move_map e id_str port) s = advance_move x k (Move_map e id_str port) s"
| "advance x k (Move_row i addr v) s = advance_move x k (Move_row i addr v) s"
| "advance x k (Move_proxy i addr v) s = advance_move x k (Move_proxy i addr v) s"
| "advance x k (Reg_pick now now' rq) s = advance_register x k (Reg_pick now now' rq) s"
| "advance x k (Reg_assign now v rq) s = advance_register x k (Reg_assign now v rq) s"
| "advance x k (Reg_row now v rq) s = advance_register x k (Reg_row now v rq) s"
| "advance x k (Reg_map now v rq) s = advance_register x k (Reg_map now v rq) s"
| "advance x k (Reg_queue now rq) s = advance_register x k (Reg_queue now rq) s"
| "advance x k (Tick_scan now) s = advance_churn x k (Tick_scan now) s"
| "advance x k (Tick_map now i a ds) s = advance_churn x k (Tick_map now i a ds) s"
| "advance x k (Tick_row now i a ds) s = advance_churn x k (Tick_row now i a ds) s"
| "advance x k (Tick_proxy now i a ds) s = advance_churn x k (Tick_proxy now i a ds) s"
| "advance x k (Tick_assignment now i a ds) s = advance_churn x k (Tick_assignment now i a ds) s"
| "advance x k (Tick_queue now a ds) s = advance_churn x k (Tick_queue now a ds) s"
| "advance x k Tick_end s = advance_churn x k Tick_end s"
| "advance x k t s = advance_enroll x k t s"

subsection \<open>Every task ends\<close>

text \<open>The number of steps a task has left at most; the scan of a churn tick decides how many follow.\<close>

fun rank :: "task \<Rightarrow> nat" where
  "rank (Enroll_memory j) = 10"
| "rank (Enroll_name j) = 9"
| "rank (Enroll_service j i) = 8"
| "rank (Enroll_row j i) = 7"
| "rank (Enroll_pop j i) = 6"
| "rank (Enroll_reattach j i a) = 5"
| "rank (Enroll_assign j i p) = 5"
| "rank (Enroll_requeue j i p) = 4"
| "rank (Enroll_record j i a) = 4"
| "rank (Enroll_store j i a) = 3"
| "rank (Enroll_insert j i a) = 2"
| "rank (Enroll_proxy j i a n) = 1"
| "rank (Beat_map now hb) = 4"
| "rank (Beat_row hb v) = 3"
| "rank (Beat_weight hb v) = 2"
| "rank (Beat_add hb v) = 1"
| "rank (Leave_map i) = 3"
| "rank (Leave_row i n) = 2"
| "rank (Leave_proxy i n) = 1"
| "rank (Move_map e i p) = 3"
| "rank (Move_row i addr v) = 2"
| "rank (Move_proxy i addr v) = 1"
| "rank (Reg_pick now now' rq) = 4"
| "rank (Reg_assign now v rq) = 3"
| "rank (Reg_row now v rq) = 2"
| "rank (Reg_map now v rq) = 1"
| "rank (Reg_queue now rq) = 1"
| "rank (Tick_scan now) = 1"
| "rank (Tick_map now i a ds) = 6 + 5 * length ds"
| "rank (Tick_row now i a ds) = 5 + 5 * length ds"
| "rank (Tick_proxy now i a ds) = 4 + 5 * length ds"
| "rank (Tick_assignment now i a ds) = 3 + 5 * length ds"
| "rank (Tick_queue now a ds) = 2 + 5 * length ds"
| "rank Tick_end = 1"

fun scans :: "task \<Rightarrow> bool" where
  "scans (Tick_scan now) = True"
| "scans _ = False"

lemma next_dead_rank [simp]: "rank (next_dead now ds) = 1 + 5 * length ds" "\<not> scans (next_dead now ds)"
  by (induction now ds rule: next_dead.induct) simp_all

lemma beat_answer_done [simp]: "fst (beat_answer hb v s) = Inr (Some (200, Heartbeat_response (payload (assigned_service v))))"
  by (simp add: beat_answer_def Let_def)

lemma advance_rank:
  assumes "fst (advance x k t s) = Inl t'"
  shows "\<not> scans t' \<and> (\<not> scans t \<longrightarrow> rank t' < rank t)"
  using assms
  by (cases t)
    (auto simp: on_host_eq Let_def split_beta split: if_splits option.splits prod.splits sum.splits list.splits)

subsection \<open>A task alone is its handler\<close>


lemma advance_less:
  "(Inl t', s') = advance x k t s \<Longrightarrow> \<not> scans t' \<and> (\<not> scans t \<longrightarrow> rank t' < rank t)"
  using advance_rank [of x k t s t'] by (metis fst_conv)

function run_task :: "'h host \<Rightarrow> crates \<Rightarrow> task \<Rightarrow> 'h reg \<Rightarrow> response option \<times> 'h reg" where
  "run_task x k t s =
     (case advance x k t s of (Inl t', s') \<Rightarrow> run_task x k t' s' | (Inr r, s') \<Rightarrow> (r, s'))"
  by pat_completeness auto
termination
  by (relation "measures [\<lambda>(x, k, t, s). if scans t then 1 else 0, \<lambda>(x, k, t, s). rank t]")
    (auto dest!: advance_less)

declare run_task.simps [simp del]

lemmas run_simps =
  run_task.simps [of _ _ "Enroll_memory j" for j] run_task.simps [of _ _ "Enroll_name j" for j]
  run_task.simps [of _ _ "Enroll_service j i" for j i] run_task.simps [of _ _ "Enroll_row j i" for j i]
  run_task.simps [of _ _ "Enroll_pop j i" for j i] run_task.simps [of _ _ "Enroll_reattach j i a" for j i a]
  run_task.simps [of _ _ "Enroll_assign j i p" for j i p] run_task.simps [of _ _ "Enroll_requeue j i p" for j i p]
  run_task.simps [of _ _ "Enroll_record j i a" for j i a] run_task.simps [of _ _ "Enroll_store j i a" for j i a]
  run_task.simps [of _ _ "Enroll_insert j i a" for j i a] run_task.simps [of _ _ "Enroll_proxy j i a n" for j i a n]
  run_task.simps [of _ _ "Beat_map now hb" for now hb] run_task.simps [of _ _ "Beat_row hb v" for hb v]
  run_task.simps [of _ _ "Beat_weight hb v" for hb v] run_task.simps [of _ _ "Beat_add hb v" for hb v]
  run_task.simps [of _ _ "Leave_map i" for i] run_task.simps [of _ _ "Leave_row i n" for i n]
  run_task.simps [of _ _ "Leave_proxy i n" for i n] run_task.simps [of _ _ "Move_map e i p" for e i p]
  run_task.simps [of _ _ "Move_row i a v" for i a v] run_task.simps [of _ _ "Move_proxy i a v" for i a v]
  run_task.simps [of _ _ "Reg_pick t t' rq" for t t' rq] run_task.simps [of _ _ "Reg_assign t v rq" for t v rq]
  run_task.simps [of _ _ "Reg_row t v rq" for t v rq] run_task.simps [of _ _ "Reg_map t v rq" for t v rq]
  run_task.simps [of _ _ "Reg_queue t rq" for t rq] run_task.simps [of _ _ "Tick_scan t" for t]
  run_task.simps [of _ _ "Tick_map t i a ds" for t i a ds] run_task.simps [of _ _ "Tick_row t i a ds" for t i a ds]
  run_task.simps [of _ _ "Tick_proxy t i a ds" for t i a ds] run_task.simps [of _ _ "Tick_assignment t i a ds" for t i a ds]
  run_task.simps [of _ _ "Tick_queue t a ds" for t a ds] run_task.simps [of _ _ "Tick_end"]

lemma run_store:
  "run_task x k (Enroll_store j i a) s =
     (let v = e_volunteer j i a; s = db_upsert_volunteer k v s; m = hm_insert i v (volunteers s);
          s = snd (on_host (upsert_volunteer x k ''volunteers'' i (e_addr j) 100) (s\<lparr>volunteers := m\<rparr>))
      in (Some (201, Enroll_response (uuid_text k i) HEARTBEAT_INTERVAL_SECS (payload a)),
          emit [Counter_incremented ''openshard_enrollments_total'',
            Gauge_set ''openshard_volunteers_active'' None (Count (length m))] s))"
  by (simp add: run_simps Let_def)

lemma run_pop:
  "run_task x k (Enroll_pop j i) s =
     (let (a, s) = take_pending x k (e_now j) i (e_addr j) s in run_task x k (Enroll_store j i a) s)"
proof (cases "pending_services s")
  case Nil
  then show ?thesis by (simp add: run_simps(5) take_pending_def)
next
  case (Cons p ps)
  then show ?thesis
    by (simp add: run_simps(5,7,8,9) take_pending_def on_host_eq split: sum.split)
qed

lemma run_reattach:
  "run_task x k (Enroll_reattach j i a) s = run_task x k (Enroll_store j i (Some a)) (reattach x k i (e_addr j) a s)"
  by (simp add: run_simps(6,9) reattach_def)

lemma finish_tasks:
  "run_task x k (case snd found of
       Some a \<Rightarrow> Enroll_reattach j (enroll_id (e_new j) found) a
     | None \<Rightarrow> Enroll_pop j (enroll_id (e_new j) found)) s =
   map_prod Some id (enroll_finish x k (e_env j) (e_now j) (e_new j) (e_req j) found s)"
proof (cases "snd found")
  case None
  then show ?thesis
    by (simp add: run_pop run_store enroll_finish_def enroll_id_def Let_def split_beta e_volunteer_def e_addr_def)
next
  case (Some a)
  then show ?thesis
    by (simp add: run_reattach run_store enroll_finish_def enroll_id_def Let_def split_beta e_volunteer_def e_addr_def)
qed

lemma run_service:
  "run_task x k (Enroll_service j i) s =
     (let (a, s) = find_assignment k (Some i) s in
      run_task x k (case a of Some a \<Rightarrow> Enroll_reattach j i a | None \<Rightarrow> Enroll_pop j i) s)"
  by (simp add: run_simps(3,4) find_assignment_def split_beta split: option.split prod.split)

lemma find_assignment_None: "find_assignment k None s = (None, s)"
  by (simp add: find_assignment_def)

lemma run_enroll:
  "run_task x k (Enroll_memory j) s =
     map_prod Some id (enroll x k (e_env j) (e_now j) (e_new j) (e_req j) s)"
proof -
  let ?n = "hostname (er_info (e_req j))"
  have lookup: "run_task x k (Enroll_memory j) s =
      (let (f, s) = enroll_lookup k (e_req j) s
       in run_task x k (case snd f of
         Some a \<Rightarrow> Enroll_reattach j (enroll_id (e_new j) f) a
       | None \<Rightarrow> Enroll_pop j (enroll_id (e_new j) f)) s)"
  proof (cases "?n = []")
    case True
    then show ?thesis
      by (simp add: run_simps(1) enroll_lookup_def find_existing_def find_assignment_def enroll_id_def)
  next
    case False
    show ?thesis
    proof (cases "List.find (\<lambda>v. hostname (info v) = ?n) (hm_values (volunteers s))")
      case (Some v)
      with False show ?thesis
        by (simp add: run_simps(1) run_service enroll_lookup_def find_existing_def enroll_id_def split_beta
            split: option.split)
    next
      case None
      obtain r s' where "db_find_by_hostname k ?n s = (r, s')" by fastforce
      with False None show ?thesis
        by (cases r) (simp_all add: run_simps(1,2) run_service enroll_lookup_def find_existing_def
            find_assignment_None enroll_id_def split_beta split: option.split)
    qed
  qed
  show ?thesis unfolding lookup by (simp add: split_beta finish_tasks enroll_def)
qed

lemma run_beat: "run_task x k (Beat_map now hb) s = map_prod Some id (heartbeat x k now hb s)"
proof (cases "hm_get (volunteers s) (hb_volunteer_id hb)")
  case None
  then show ?thesis by (simp add: run_simps(13) heartbeat_def)
next
  case (Some v)
  then show ?thesis
    by (simp add: run_simps(13-16) heartbeat_def push_weight_def on_host_eq beat_answer_def Let_def split: sum.split)
qed

lemma run_leave: "run_task x k (Leave_map id_str) s = map_prod Some id (disconnect x k id_str s)"
  by (simp add: run_simps(17-19) disconnect_def Let_def split: option.split)

lemma run_move: "run_task x k (Move_map e id_str port) s = map_prod Some id (update_tunnel_port x k e id_str port s)"
  by (simp add: run_simps(20-22) update_tunnel_port_def Let_def split: option.split)

lemma run_register:
  "run_task x k (Reg_pick now now' rq) s = map_prod Some id (register_service x k now now' rq s)"
proof (cases "register_pick now s")
  case None
  then show ?thesis by (simp add: run_simps(23,27) register_service_def register_with_def)
next
  case (Some v)
  then show ?thesis
    by (simp add: run_simps(23-26) register_service_def register_with_def register_commit_def on_host_eq Let_def
        split: sum.split option.split)
qed

lemma run_dead:
  "run_task x k (next_dead now ds) s =
     (None, emit [Gauge_set ''openshard_volunteers_active'' None (Count (length (volunteers (fold (evict x k now) ds s))))]
        (fold (evict x k now) ds s))"
proof (induction ds arbitrary: s)
  case (Cons d ds)
  obtain i a where d: "d = (i, a)" by (cases d)
  have "evict x k now (i, None) s = emit [Counter_incremented ''openshard_evictions_total'']
      (snd (on_host (remove_volunteer x k ''volunteers'' i)
        (db_remove_volunteer k i (s\<lparr>volunteers := hm_remove i (volunteers s)\<rparr>))))"
    "evict x k now (i, Some b) s =
      (let s = db_remove_assignment k i (snd (on_host (remove_volunteer x k ''volunteers'' i)
        (db_remove_volunteer k i (s\<lparr>volunteers := hm_remove i (volunteers s)\<rparr>))))
       in emit [Counter_incremented ''openshard_evictions_total'']
         (s\<lparr>pending_services := push_back (pending_of b now) (pending_services s)\<rparr>))" for b
    by (simp_all add: evict_def Let_def)
  with Cons show ?case by (cases a) (simp_all add: d run_simps(29-33) Let_def)
qed (simp add: run_simps(34))

lemma run_tick: "run_task x k (Tick_scan now) s = (None, churn_tick x k now s)"
  by (simp add: run_simps(28) churn_tick_def run_dead Let_def del: next_dead.simps split: list.split)

subsection \<open>Properties\<close>

text \<open>The handlers are their tasks run without interruption: from every state, the steps of a task
  taken one after the other give the answer and the state of the atomic handler.\<close>

theorem handlers_as_tasks:
  "run_task x k (Enroll_memory j) s = map_prod Some id (enroll x k (e_env j) (e_now j) (e_new j) (e_req j) s) \<and>
   run_task x k (Beat_map now hb) s = map_prod Some id (heartbeat x k now hb s) \<and>
   run_task x k (Leave_map id_str) s = map_prod Some id (disconnect x k id_str s) \<and>
   run_task x k (Move_map e id_str port) s = map_prod Some id (update_tunnel_port x k e id_str port s) \<and>
   run_task x k (Reg_pick now now' rq) s = map_prod Some id (register_service x k now now' rq s) \<and>
   run_task x k (Tick_scan now) s = (None, churn_tick x k now s)"
  by (simp only: run_enroll run_beat run_leave run_move run_register run_tick)

text \<open>
  The steps of one task among others: each is taken in a state of its own, which the other tasks left.
\<close>

fun own_run :: "'h host \<Rightarrow> crates \<Rightarrow> task \<Rightarrow> 'h reg list \<Rightarrow> response option option" where
  "own_run x k t [] = None"
| "own_run x k t (s # ss) =
     (case fst (advance x k t s) of Inl t' \<Rightarrow> own_run x k t' ss | Inr r \<Rightarrow> Some r)"

lemma own_run_ends: "\<not> scans t \<Longrightarrow> rank t \<le> length ss \<Longrightarrow> own_run x k t ss \<noteq> None"
proof (induction ss arbitrary: t)
  case Nil
  then show ?case by (cases t) auto
next
  case (Cons s ss)
  then show ?case using advance_rank [of x k t s] by (cases "fst (advance x k t s)") force+
qed

fun ticking :: "task \<Rightarrow> bool" where
  "ticking (Tick_scan now) = True"
| "ticking (Tick_map now i a ds) = True"
| "ticking (Tick_row now i a ds) = True"
| "ticking (Tick_proxy now i a ds) = True"
| "ticking (Tick_assignment now i a ds) = True"
| "ticking (Tick_queue now a ds) = True"
| "ticking Tick_end = True"
| "ticking _ = False"

lemma ticking_next [simp]: "ticking (next_dead now ds)"
  by (induction now ds rule: next_dead.induct) simp_all

lemma advance_ticking:
  "fst (advance x k t s) = Inl t' \<Longrightarrow> ticking t' = ticking t"
  "fst (advance x k t s) = Inr r \<Longrightarrow> r = None \<longleftrightarrow> ticking t"
  by (cases t; auto simp: on_host_eq Let_def split_beta beat_answer_def
      split: if_splits option.splits prod.splits sum.splits list.splits)+

lemma own_run_answer: "own_run x k t ss = Some r \<Longrightarrow> r = None \<longleftrightarrow> ticking t"
proof (induction ss arbitrary: t)
  case (Cons s ss)
  then show ?case using advance_ticking [of x k t s] by (cases "fst (advance x k t s)") auto
qed simp

text \<open>Every handler ends when each of its awaits does, whatever the others do to the state between its steps
  and however often they take their turn: a request is answered after at most ten steps of its own, and a churn tick is over
  after at most five steps for each volunteer it found dead, and two more.\<close>

theorem handlers_end:
  "(\<not> ticking t \<longrightarrow> 10 \<le> length ss \<longrightarrow> (\<exists>r. own_run x k t ss = Some (Some r))) \<and>
   (5 * length (dead_volunteers now s) + 1 \<le> length ss \<longrightarrow> own_run x k (Tick_scan now) (s # ss) = Some None)"
proof (intro conjI impI)
  assume t: "\<not> ticking t" and n: "10 \<le> length ss"
  then have "\<not> scans t" "rank t \<le> 10" by (cases t; simp)+
  with n obtain r where r: "own_run x k t ss = Some r" using own_run_ends [of t ss x k] by auto
  with own_run_answer [OF r] t show "\<exists>r. own_run x k t ss = Some (Some r)" by auto
next
  assume n: "5 * length (dead_volunteers now s) + 1 \<le> length ss"
  show "own_run x k (Tick_scan now) (s # ss) = Some None"
  proof (cases "dead_volunteers now s")
    case (Cons d ds)
    have "own_run x k (next_dead now (d # ds)) ss \<noteq> None"
      by (rule own_run_ends) (use n Cons in simp_all)
    then obtain r where r: "own_run x k (next_dead now (d # ds)) ss = Some r" by auto
    with own_run_answer [OF r] Cons show ?thesis by (simp del: next_dead.simps)
  qed simp
qed

theorem handlers_end_witness:
  "own_run sim_host wit (Beat_map 0 \<lparr>hb_volunteer_id = 7, hb_cpu_pct = Fin 0, hb_mem_pct = Fin 0, hb_load_avg = Fin 0,
      hb_active_requests = 0, hb_service_running = None, hb_service_image = None\<rparr>) (replicate 10 wit_boot) \<noteq> None"
  using handlers_end [of "Beat_map 0 \<lparr>hb_volunteer_id = 7, hb_cpu_pct = Fin 0, hb_mem_pct = Fin 0, hb_load_avg = Fin 0,
      hb_active_requests = 0, hb_service_running = None, hb_service_image = None\<rparr>" "replicate 10 wit_boot"] by fastforce

end
