(* ===== verification/Registrar_Concurrent.thy ===== *)
theory Registrar_Concurrent
  imports Registrar_Tasks
begin

text \<open>
  The registrar with any number of handlers in flight: the steps of their tasks in any order, statements
  of the database that fail, answers that nobody waits for, and crashes. What holds in every state of
  this system, and that the runs of one handler after the other are among its runs.
\<close>

subsection \<open>The system\<close>

text \<open>The services a task carries.\<close>

definition opt_jobs :: "service_assignment option \<Rightarrow> job set" where
  "opt_jobs a = job ` set_option a"

definition dead_jobs :: "(uuid \<times> service_assignment option) list \<Rightarrow> job set" where
  "dead_jobs ds = (\<Union>d \<in> set ds. opt_jobs (snd d))"

fun task_jobs :: "task \<Rightarrow> job set" where
  "task_jobs (Enroll_reattach j i a) = {job a}"
| "task_jobs (Enroll_assign j i p) = {pending_job p}"
| "task_jobs (Enroll_requeue j i p) = {pending_job p}"
| "task_jobs (Enroll_record j i a) = {job a}"
| "task_jobs (Enroll_store j i a) = opt_jobs a"
| "task_jobs (Enroll_insert j i a) = opt_jobs a"
| "task_jobs (Reg_pick now now' rq) = {request_job rq}"
| "task_jobs (Reg_assign now v rq) = {request_job rq}"
| "task_jobs (Reg_row now v rq) = {request_job rq}"
| "task_jobs (Reg_map now v rq) = {request_job rq}"
| "task_jobs (Reg_queue now rq) = {request_job rq}"
| "task_jobs (Tick_map now i a ds) = opt_jobs a \<union> dead_jobs ds"
| "task_jobs (Tick_row now i a ds) = opt_jobs a \<union> dead_jobs ds"
| "task_jobs (Tick_proxy now i a ds) = opt_jobs a \<union> dead_jobs ds"
| "task_jobs (Tick_assignment now i a ds) = {job a} \<union> dead_jobs ds"
| "task_jobs (Tick_queue now a ds) = {job a} \<union> dead_jobs ds"
| "task_jobs _ = {}"

text \<open>What a request starts with; the churn monitor starts a tick after it has finished the one before.\<close>

fun arrives :: "task \<Rightarrow> bool" where
  "arrives (Enroll_memory j) = True"
| "arrives (Beat_map now hb) = True"
| "arrives (Leave_map i) = True"
| "arrives (Move_map e i p) = True"
| "arrives (Reg_pick now now' rq) = True"
| "arrives (Tick_scan now) = True"
| "arrives _ = False"

record 'h sys =
  registrar :: "'h reg"
  tasks :: "task list"
  asked :: "job set"
  answers :: "response list"

definition boot_sys :: "'h host \<Rightarrow> crates \<Rightarrow> int \<Rightarrow> bool list \<Rightarrow> 'h \<Rightarrow> 'h sys" where
  "boot_sys x k now faults h =
     \<lparr>registrar = start x k now (new_app [] [] faults h), tasks = [], asked = {}, answers = []\<rparr>"

definition drop_task :: "nat \<Rightarrow> task list \<Rightarrow> task list" where
  "drop_task n ts = take n ts @ drop (Suc n) ts"

text \<open>
  \<open>cancel\<close>: the HTTP server drops the handler of a connection that the client has closed. \<open>crash\<close>: the
  process ends and a new one starts on the database, whose statements may fail in a new pattern.
\<close>

inductive sys_step :: "'h host \<Rightarrow> crates \<Rightarrow> 'h sys \<Rightarrow> 'h sys \<Rightarrow> bool" for x k where
  arrive: "arrives t \<Longrightarrow> (ticking t \<Longrightarrow> list_all (\<lambda>u. \<not> ticking u) (tasks z)) \<Longrightarrow>
     sys_step x k z (z\<lparr>tasks := tasks z @ [t], asked := asked z \<union> task_jobs t\<rparr>)"
| go: "n < length (tasks z) \<Longrightarrow> advance x k (tasks z ! n) (registrar z) = (Inl t, s) \<Longrightarrow>
     sys_step x k z (z\<lparr>registrar := s, tasks := (tasks z)[n := t]\<rparr>)"
| finish: "n < length (tasks z) \<Longrightarrow> advance x k (tasks z ! n) (registrar z) = (Inr r, s) \<Longrightarrow>
     sys_step x k z (z\<lparr>registrar := s, tasks := drop_task n (tasks z),
       answers := answers z @ (case r of Some a \<Rightarrow> [a] | None \<Rightarrow> [])\<rparr>)"
| cancel: "n < length (tasks z) \<Longrightarrow> \<not> ticking (tasks z ! n) \<Longrightarrow>
     sys_step x k z (z\<lparr>tasks := drop_task n (tasks z)\<rparr>)"
| outside: "sys_step x k z (z\<lparr>registrar := (registrar z)\<lparr>host_state := h\<rparr>\<rparr>)"
| crash: "sys_step x k z
     (z\<lparr>registrar := crash_restart x k now ((registrar z)\<lparr>db_faults := faults\<rparr>), tasks := []\<rparr>)"

inductive sys_reachable :: "'h host \<Rightarrow> crates \<Rightarrow> 'h sys \<Rightarrow> bool" for x k where
  boot: "sys_reachable x k (boot_sys x k now faults h)"
| step: "sys_reachable x k z \<Longrightarrow> sys_step x k z z' \<Longrightarrow> sys_reachable x k z'"

lemma sys_reachable_steps: "(sys_step x k)\<^sup>*\<^sup>* z z' \<Longrightarrow> sys_reachable x k z \<Longrightarrow> sys_reachable x k z'"
  by (induction rule: rtranclp_induct) (auto intro: sys_reachable.step)

subsection \<open>A sound registrar\<close>

definition map_sound :: "job set \<Rightarrow> (uuid, volunteer_state) hash_map \<Rightarrow> bool" where
  "map_sound A m \<longleftrightarrow> hm_valid m \<and> (\<forall>i v. hm_get m i = Some v \<longrightarrow> vid v = i \<and> opt_jobs (assigned_service v) \<subseteq> A)"

definition rows_sound :: "crates \<Rightarrow> db_row table \<Rightarrow> bool" where
  "rows_sound k vt \<longleftrightarrow> tbl_valid vt \<and>
     (\<forall>key r. tbl_get vt key = Some r \<longrightarrow> (\<exists>v. key = uuid_text k (vid v) \<and> r = row_of k v))"

definition assignments_sound :: "crates \<Rightarrow> job set \<Rightarrow> assignment_row table \<Rightarrow> bool" where
  "assignments_sound k A t \<longleftrightarrow> tbl_valid t \<and>
     (\<forall>key r. tbl_get t key = Some r \<longrightarrow> (\<exists>i a. key = uuid_text k i \<and> r = assignment_row_of k a \<and> job a \<in> A))"

definition sound :: "crates \<Rightarrow> job set \<Rightarrow> 'h reg \<Rightarrow> bool" where
  "sound k A s \<longleftrightarrow> map_sound A (volunteers s) \<and> pending_job ` set (pending_services s) \<subseteq> A \<and>
     rows_sound k (vol_table s) \<and> assignments_sound k A (asg_table s)"

named_theorems sound_intros

lemma map_sound_insert [sound_intros]:
  "map_sound A m \<Longrightarrow> vid v = i \<Longrightarrow> opt_jobs (assigned_service v) \<subseteq> A \<Longrightarrow> map_sound A (hm_insert i v m)"
  by (auto simp: map_sound_def store_simps)

lemma map_sound_remove [sound_intros]: "map_sound A m \<Longrightarrow> map_sound A (hm_remove i m)"
  by (auto simp: map_sound_def store_simps)

lemma rows_sound_replace: "rows_sound k t \<Longrightarrow> rows_sound k (tbl_replace (uuid_text k (vid v)) (row_of k v) t)"
  by (auto simp: rows_sound_def store_simps)

lemma rows_sound_delete: "rows_sound k t \<Longrightarrow> rows_sound k (tbl_delete key t)"
  by (auto simp: rows_sound_def store_simps)

lemma assignments_sound_replace:
  "assignments_sound k A t \<Longrightarrow> job a \<in> A \<Longrightarrow>
     assignments_sound k A (tbl_replace (uuid_text k i) (assignment_row_of k a) t)"
  by (auto simp: assignments_sound_def store_simps)

lemma assignments_sound_delete: "assignments_sound k A t \<Longrightarrow> assignments_sound k A (tbl_delete key t)"
  by (auto simp: assignments_sound_def store_simps)

lemma db_sound [sound_intros]:
  "rows_sound k (vol_table s) \<Longrightarrow> rows_sound k (vol_table (db_upsert_volunteer k v s))"
  "rows_sound k (vol_table s) \<Longrightarrow> rows_sound k (vol_table (db_remove_volunteer k i s))"
  "assignments_sound k A (asg_table s) \<Longrightarrow> job a \<in> A \<Longrightarrow> assignments_sound k A (asg_table (db_upsert_assignment k i a s))"
  "assignments_sound k A (asg_table s) \<Longrightarrow> assignments_sound k A (asg_table (db_remove_assignment k i s))"
  by (simp_all add: db_upsert_volunteer_def db_remove_volunteer_def db_upsert_assignment_def
      db_remove_assignment_def db_exec_eq frame rows_sound_replace rows_sound_delete
      assignments_sound_replace assignments_sound_delete)

lemma db_query_frame [frame]:
  "volunteers (snd (db_query q d s)) = volunteers s" "pending_services (snd (db_query q d s)) = pending_services s"
  "vol_table (snd (db_query q d s)) = vol_table s" "asg_table (snd (db_query q d s)) = asg_table s"
  by (simp_all add: db_query_eq frame)

lemma db_find_frame [frame]:
  "volunteers (snd (db_find_by_hostname k n s)) = volunteers s"
  "pending_services (snd (db_find_by_hostname k n s)) = pending_services s"
  "vol_table (snd (db_find_by_hostname k n s)) = vol_table s"
  "asg_table (snd (db_find_by_hostname k n s)) = asg_table s"
  "volunteers (snd (db_get_assignment k i s)) = volunteers s"
  "pending_services (snd (db_get_assignment k i s)) = pending_services s"
  "vol_table (snd (db_get_assignment k i s)) = vol_table s"
  "asg_table (snd (db_get_assignment k i s)) = asg_table s"
  by (simp_all add: db_find_by_hostname_def db_get_assignment_def frame)

lemma get_assignment_sound:
  assumes "assignments_sound k A (asg_table s)" "crates_ok k" "fst (db_get_assignment k i s) = Some a"
  shows "job a \<in> A"
proof -
  from assms(3) obtain r where r: "tbl_get (asg_table s) (uuid_text k i) = Some r" "assignment_of_row k r = Some a"
    by (auto simp: db_get_assignment_def db_query_eq frame bind_eq_Some_conv split: if_splits)
  from assms(1) r(1) obtain b where "r = assignment_row_of k b" "job b \<in> A" unfolding assignments_sound_def by blast
  with r(2) assignment_row_roundtrip [OF assms(2)] show ?thesis by simp
qed

lemma sound_mono: "sound k A s \<Longrightarrow> A \<subseteq> B \<Longrightarrow> sound k B s"
  unfolding sound_def map_sound_def assignments_sound_def by blast

subsection \<open>Every step is sound\<close>

lemma job_assignments [simp]:
  "job (assignment_of p now) = pending_job p" "job (assignment_for rq now) = request_job rq"
  "pending_job (pending_of a now) = job a"
  by (simp_all add: job_def pending_job_def request_job_def assignment_of_def assignment_for_def pending_of_def)

lemma opt_jobs_simps [simp]: "opt_jobs None = {}" "opt_jobs (Some a) = {job a}"
  by (simp_all add: opt_jobs_def)

lemma dead_jobs_simps [simp]: "dead_jobs [] = {}" "dead_jobs ((i, a) # ds) = opt_jobs a \<union> dead_jobs ds"
  by (simp_all add: dead_jobs_def)

lemma task_jobs_next [simp]: "task_jobs (next_dead now ds) = dead_jobs ds"
  by (induction now ds rule: next_dead.induct) simp_all

lemma map_soundD:
  assumes "map_sound A m"
  shows "hm_get m i = Some v \<Longrightarrow> vid v = i" "hm_get m i = Some v \<Longrightarrow> opt_jobs (assigned_service v) \<subseteq> A" "hm_valid m"
  using assms unfolding map_sound_def by blast+

lemma map_sound_mem:
  "p \<in> opt_jobs (assigned_service v) \<Longrightarrow> hm_get m i = Some v \<Longrightarrow> map_sound A m \<Longrightarrow> p \<in> A"
  using map_soundD(2) by blast

lemma dead_sound: "map_sound A (volunteers s) \<Longrightarrow> dead_jobs (dead_volunteers now s) \<subseteq> A"
  by (auto simp: dead_jobs_def dead_volunteers_def hm_values_iff map_soundD(3) intro: map_sound_mem)

lemma dead_sound_next:
  "dead_volunteers now s = (i, a) # ds \<Longrightarrow> map_sound A (volunteers s) \<Longrightarrow> opt_jobs a \<subseteq> A \<and> dead_jobs ds \<subseteq> A"
  using dead_sound [of A s now] by simp

lemma dead_sound_mem:
  "p \<in> opt_jobs a \<Longrightarrow> dead_volunteers now s = (i, a) # ds \<Longrightarrow> map_sound A (volunteers s) \<Longrightarrow> p \<in> A"
  "p \<in> dead_jobs ds \<Longrightarrow> dead_volunteers now s = (i, a) # ds \<Longrightarrow> map_sound A (volunteers s) \<Longrightarrow> p \<in> A"
  using dead_sound_next by blast+

fun is_enroll :: "task \<Rightarrow> bool" where
  "is_enroll (Enroll_memory j) = True"
| "is_enroll (Enroll_name j) = True"
| "is_enroll (Enroll_service j i) = True"
| "is_enroll (Enroll_row j i) = True"
| "is_enroll (Enroll_pop j i) = True"
| "is_enroll (Enroll_reattach j i a) = True"
| "is_enroll (Enroll_assign j i p) = True"
| "is_enroll (Enroll_requeue j i p) = True"
| "is_enroll (Enroll_record j i a) = True"
| "is_enroll (Enroll_store j i a) = True"
| "is_enroll (Enroll_insert j i a) = True"
| "is_enroll (Enroll_proxy j i a n) = True"
| "is_enroll _ = False"

lemma advance_enroll_sound:
  assumes "sound k A s" "task_jobs t \<subseteq> A" "crates_ok k"
    and "is_enroll t"
  shows "sound k A (snd (advance x k t s)) \<and> (\<forall>t'. fst (advance x k t s) = Inl t' \<longrightarrow> task_jobs t' \<subseteq> A)"
proof (cases t)
  case (Enroll_row j i)
  then show ?thesis
    using assms get_assignment_sound [of k A s i]
    by (auto simp: sound_def frame split_beta split: option.split)
next
  case (Enroll_service j i)
  then show ?thesis
    using assms map_soundD(2) [of A "volunteers s" i]
    by (auto simp: sound_def bind_eq_Some_conv split: option.split)
next
  case (Enroll_pop j i)
  then show ?thesis using assms by (cases "pending_services s") (auto simp: sound_def)
next
  case (Enroll_insert j i b)
  then show ?thesis
    using assms by (auto simp: sound_def Let_def e_volunteer_def fresh_volunteer_def intro!: sound_intros)
qed (use assms in \<open>auto simp: sound_def frame on_host_eq split_beta push_front_def db_sound
      split: option.split sum.split\<close>)

lemma advance_beat_sound:
  assumes "sound k A s"
  shows "sound k A (snd (advance x k (Beat_map now hb) s))" "sound k A (snd (advance x k (Beat_row hb v) s))"
    "sound k A (snd (advance x k (Beat_weight hb v) s))" "sound k A (snd (advance x k (Beat_add hb v) s))"
  using assms
  by (auto simp: sound_def frame on_host_eq beat_answer_def beat_def db_sound Let_def map_soundD(1)
      intro!: map_sound_insert intro: map_sound_mem split: option.split sum.split)

lemma advance_leave_move_sound:
  assumes "sound k A s"
  shows "sound k A (snd (advance x k (Leave_map id_str) s))" "sound k A (snd (advance x k (Leave_row i n) s))"
    "sound k A (snd (advance x k (Leave_proxy i n) s))" "sound k A (snd (advance x k (Move_map e id_str port) s))"
    "sound k A (snd (advance x k (Move_row i addr v) s))" "sound k A (snd (advance x k (Move_proxy i addr v) s))"
  using assms
  by (auto simp: sound_def frame db_sound Let_def map_soundD(1)
      intro!: map_sound_insert map_sound_remove intro: map_sound_mem split: option.split)

lemma advance_register_sound:
  assumes "sound k A s" "request_job rq \<in> A"
  shows "sound k A (snd (advance x k (Reg_pick now now' rq) s))" "sound k A (snd (advance x k (Reg_assign now v rq) s))"
    "sound k A (snd (advance x k (Reg_row now v rq) s))" "sound k A (snd (advance x k (Reg_map now v rq) s))"
    "sound k A (snd (advance x k (Reg_queue now rq) s))"
  using assms
  by (auto simp: sound_def frame on_host_eq db_sound push_back_def map_soundD(1) pending_job_def request_job_def set_assignment_def
      job_assignments [unfolded request_job_def] intro!: map_sound_insert split: option.split sum.split)

lemma advance_tick_sound:
  assumes "sound k A s"
  shows "sound k A (snd (advance x k (Tick_scan now) s))" "sound k A (snd (advance x k (Tick_map now i a ds) s))"
    "sound k A (snd (advance x k (Tick_row now i a ds) s))" "sound k A (snd (advance x k (Tick_proxy now i a ds) s))"
    "sound k A (snd (advance x k (Tick_assignment now i b ds) s))"
    "job b \<in> A \<Longrightarrow> sound k A (snd (advance x k (Tick_queue now b ds) s))" "sound k A (snd (advance x k Tick_end s))"
  using assms
  by (auto simp: sound_def frame db_sound Let_def push_back_def intro!: map_sound_remove
      split: option.split list.split)

lemma advance_other_jobs:
  assumes "sound k A s" "task_jobs t \<subseteq> A" "fst (advance x k t s) = Inl t'"
    and "\<not> is_enroll t"
  shows "task_jobs t' \<subseteq> A"
  using assms unfolding sound_def
  by (cases t) (auto simp: on_host_eq Let_def beat_answer_def simp del: next_dead.simps intro: dead_sound_mem
      split: if_splits option.splits prod.splits sum.splits list.splits)

lemma advance_sound:
  assumes "sound k A s" "task_jobs t \<subseteq> A" "crates_ok k"
  shows "sound k A (snd (advance x k t s))" "fst (advance x k t s) = Inl t' \<Longrightarrow> task_jobs t' \<subseteq> A"
proof -
  have "sound k A (snd (advance x k t s)) \<and> (\<forall>t'. fst (advance x k t s) = Inl t' \<longrightarrow> task_jobs t' \<subseteq> A)"
  proof (cases "is_enroll t")
    case True
    then show ?thesis using advance_enroll_sound [OF assms] by blast
  next
    case False
    then have "sound k A (snd (advance x k t s))"
      using assms(1,2)
      by (cases t) (auto simp del: advance.simps
          intro: advance_beat_sound advance_leave_move_sound advance_register_sound advance_tick_sound)
    with False advance_other_jobs [OF assms(1,2)] show ?thesis by blast
  qed
  then show "sound k A (snd (advance x k t s))" "fst (advance x k t s) = Inl t' \<Longrightarrow> task_jobs t' \<subseteq> A" by blast+
qed

subsection \<open>A restart is sound\<close>

lemma tbl_valid_filter: "tbl_valid t \<Longrightarrow> tbl_valid (filter P t)"
  by (simp add: tbl_valid_def distinct_map_filter)

lemma assignments_sound_filter: "assignments_sound k A t \<Longrightarrow> assignments_sound k A (filter P t)"
  unfolding assignments_sound_def
  by (auto simp: tbl_valid_filter tbl_get_in [OF tbl_valid_filter, symmetric] tbl_get_in [symmetric])

lemma collect_in:
  "hm_valid (collect_assignments k rows)"
  "hm_get (collect_assignments k rows) i = Some a \<Longrightarrow> \<exists>key r. (key, r) \<in> set rows \<and> assignment_of_row k r = Some a"
proof (induction rows)
  case (Cons p rows)
  obtain key r where p: "p = (key, r)" by (cases p)
  {
    case 1
    with Cons p show ?case by (auto simp: Let_def store_simps split: option.split)
  next
    case 2
    with Cons p show ?case
      by (auto simp: Let_def store_simps split: option.splits if_splits)
  }
qed simp_all

lemma load_rows_in:
  "hm_valid asg \<Longrightarrow> v \<in> set (load_rows k rows asg) \<Longrightarrow> assigned_service v = Some a \<Longrightarrow> \<exists>i. hm_get asg i = Some a"
proof (induction rows arbitrary: asg)
  case (Cons p rows)
  obtain key r where p: "p = (key, r)" by (cases p)
  show ?case
  proof (cases "uuid_parse k key")
    case None
    with Cons p show ?thesis by simp
  next
    case (Some i)
    then consider "v \<in> set (load_rows k rows (hm_remove i asg))" | "assigned_service v = hm_get asg i"
      using Cons.prems(2) p by (auto simp: Let_def split: option.splits)
    then show ?thesis
    proof cases
      case 1
      with Cons.IH [of "hm_remove i asg"] Cons.prems obtain j where "hm_get (hm_remove i asg) j = Some a"
        by (auto simp: store_simps)
      with Cons.prems(1) show ?thesis by (auto simp: store_simps split: if_splits)
    qed (use Cons.prems in auto)
  qed
qed simp

lemma load_all_sound:
  assumes "assignments_sound k A (asg_table s)" "crates_ok k" "v \<in> set (fst (db_load_all k s))"
  shows "opt_jobs (assigned_service v) \<subseteq> A"
proof (cases "assigned_service v")
  case (Some a)
  let ?asg = "fst (db_load_assignments k s)"
  have "hm_valid ?asg" by (simp add: db_load_assignments_def db_query_eq collect_in(1))
  moreover have "v \<in> set (load_rows k (vol_table s) ?asg)"
    using assms(3) by (auto simp: db_load_all_def split_beta db_query_eq db_load_assignments_def frame split: if_splits)
  ultimately obtain i where "hm_get ?asg i = Some a" using load_rows_in Some by blast
  then have "hm_get (collect_assignments k (asg_table s)) i = Some a"
    by (auto simp: db_load_assignments_def db_query_eq frame split: if_splits)
  from collect_in(2) [OF this] obtain key r where r: "(key, r) \<in> set (asg_table s)" "assignment_of_row k r = Some a"
    by blast
  with assms(1) tbl_get_in [of "asg_table s"] obtain b where "r = assignment_row_of k b" "job b \<in> A"
    unfolding assignments_sound_def by blast
  with r(2) Some assignment_row_roundtrip [OF assms(2)] show ?thesis by simp
qed simp

lemma survivors_sound:
  "map_sound A m \<Longrightarrow> \<forall>v \<in> set vs. opt_jobs (assigned_service v) \<subseteq> A \<Longrightarrow>
     map_sound A (fold (insert_survivor now) vs m)"
  by (induction vs arbitrary: m) (simp_all add: insert_survivor_def restored_def map_sound_insert)

lemma load_all_frame [frame]:
  "volunteers (snd (db_load_all k s)) = volunteers s" "pending_services (snd (db_load_all k s)) = pending_services s"
  "vol_table (snd (db_load_all k s)) = vol_table s" "asg_table (snd (db_load_all k s)) = asg_table s"
  by (simp_all add: db_load_all_def db_load_assignments_def split_beta frame)

lemma start_sound:
  assumes "sound k A s" "crates_ok k"
  shows "sound k A (start x k now s)"
proof -
  define s1 where "s1 = snd (db_prune_orphan_assignments s)"
  define vs where "vs = fst (db_load_all k s1)"
  define s2 where "s2 = snd (db_load_all k s1)"
  have s1: "sound k A s1"
    using assms(1) unfolding s1_def sound_def
    by (simp add: db_prune_orphan_assignments_def split_beta frame assignments_sound_filter Let_def)
  then have s2: "sound k A s2" by (simp add: sound_def s2_def frame)
  have vs: "\<forall>v \<in> set vs. opt_jobs (assigned_service v) \<subseteq> A"
    using load_all_sound [OF _ assms(2)] s1 unfolding sound_def vs_def by blast
  let ?s3 = "s2\<lparr>volunteers := fold (insert_survivor now) vs (volunteers s2)\<rparr>"
  have st: "start x k now s = (if vs = [] then s2 else
      emit [Gauge_set ''openshard_volunteers_active'' None (Count (length vs))]
        (fold (recover_servers x k) vs (fold (recover_config x) vs ?s3)))"
    by (simp add: start_def s1_def [symmetric] vs_def s2_def split_beta Let_def)
  have s3: "sound k A ?s3" using s2 survivors_sound [OF _ vs] by (simp add: sound_def)
  obtain h1 where h1: "fold (recover_config x) vs ?s3 = ?s3\<lparr>host_state := h1\<rparr>"
    using fold_host(1) [of x vs ?s3] by (elim exE)
  obtain h2 where h2: "fold (recover_servers x k) vs (?s3\<lparr>host_state := h1\<rparr>) = ?s3\<lparr>host_state := h1\<rparr>\<lparr>host_state := h2\<rparr>"
    using fold_host(2) [of x k vs "?s3\<lparr>host_state := h1\<rparr>"] by (elim exE)
  have "sound k A (?s3\<lparr>host_state := h1\<rparr>\<lparr>host_state := h2\<rparr>)" using s3 by (simp add: sound_def)
  with s2 show ?thesis by (simp add: st h1 h2 sound_def frame del: reg.fold_congs)
qed

lemma new_app_sound: "rows_sound k vt \<Longrightarrow> assignments_sound k A t \<Longrightarrow> sound k A (new_app vt t faults h)"
  by (simp add: sound_def new_app_def map_sound_def)

lemma tables_empty: "rows_sound k []" "assignments_sound k A []"
  by (simp_all add: rows_sound_def assignments_sound_def tbl_valid_def tbl_get_def)

lemma crash_sound: "sound k A s \<Longrightarrow> crates_ok k \<Longrightarrow> sound k A (crash_restart x k now s)"
  unfolding crash_restart_def by (intro start_sound new_app_sound) (simp_all add: sound_def)

subsection \<open>The invariant of the system\<close>

definition sys_sound :: "crates \<Rightarrow> 'h sys \<Rightarrow> bool" where
  "sys_sound k z \<longleftrightarrow> sound k (asked z) (registrar z) \<and> (\<forall>t \<in> set (tasks z). task_jobs t \<subseteq> asked z)"

lemma set_drop_task: "set (drop_task n ts) \<subseteq> set ts"
  unfolding drop_task_def using set_take_subset set_drop_subset by fastforce

lemma sys_step_sound:
  assumes "sys_step x k z z'" "sys_sound k z" "crates_ok k"
  shows "sys_sound k z'"
  using assms
proof (induction rule: sys_step.induct)
  case (arrive t z)
  then show ?case using sound_mono [of k "asked z" "registrar z"] by (auto simp: sys_sound_def)
next
  case (go n z t s)
  then have t: "task_jobs (tasks z ! n) \<subseteq> asked z" by (simp add: sys_sound_def)
  from go advance_sound [OF _ t, of k "registrar z" x] have "sound k (asked z) s" "task_jobs t \<subseteq> asked z"
    by (auto simp: sys_sound_def)
  with go show ?case by (auto simp: sys_sound_def dest!: subsetD [OF set_update_subset_insert])
next
  case (finish n z r s)
  then have t: "task_jobs (tasks z ! n) \<subseteq> asked z" by (simp add: sys_sound_def)
  from finish advance_sound(1) [OF _ t, of k "registrar z" x] have "sound k (asked z) s" by (auto simp: sys_sound_def)
  with finish set_drop_task [of n "tasks z"] show ?case by (auto simp: sys_sound_def)
next
  case (cancel n z)
  with set_drop_task [of n "tasks z"] show ?case by (auto simp: sys_sound_def)
next
  case (outside z h)
  then show ?case by (simp add: sys_sound_def sound_def)
next
  case (crash z now faults)
  then have "sound k (asked z) ((registrar z)\<lparr>db_faults := faults\<rparr>)" by (simp add: sys_sound_def sound_def)
  with crash show ?case by (simp add: sys_sound_def crash_sound)
qed

lemma sys_reachable_sound: "sys_reachable x k z \<Longrightarrow> crates_ok k \<Longrightarrow> sys_sound k z"
proof (induction rule: sys_reachable.induct)
  case (boot now faults h)
  then show ?case by (simp add: sys_sound_def boot_sys_def start_sound new_app_sound tables_empty)
qed (rule sys_step_sound)

lemma row_reads_back:
  assumes "crates_ok k"
  shows "\<exists>w. volunteer_of_row k (uuid_text k (vid v)) (row_of k v) = Some w \<and> vid w = vid v \<and> info w = info v"
  using assms by (cases "info v") (simp add: volunteer_of_row_def row_of_def crates_ok_def ucast_u32_i64)

lemma services_sound:
  assumes "sound k A s"
  shows "set_mset (services s) \<subseteq> A"
proof -
  have m: "map_sound A (volunteers s)" and q: "pending_job ` set (pending_services s) \<subseteq> A"
    using assms by (simp_all add: sound_def)
  have "p \<in> A" if "p \<in># placed (volunteers s)" for p
  proof -
    from that obtain i v where "(i, v) \<in> set (volunteers s)" "p \<in> opt_jobs (assigned_service v)"
      by (auto simp: placed_def jobs_of_def opt_jobs_def split: option.splits)
    with m hm_in_get [OF map_soundD(3) [OF m]] show ?thesis by (blast intro: map_sound_mem)
  qed
  with q show ?thesis by (auto simp: services_def)
qed

subsection \<open>Running one task to its end\<close>

definition answered :: "response option \<Rightarrow> response list" where
  "answered r = (case r of Some a \<Rightarrow> [a] | None \<Rightarrow> [])"

lemma alone_run:
  assumes "n < length (tasks z)"
  shows "(sys_step x k)\<^sup>*\<^sup>* z (z\<lparr>registrar := snd (run_task x k (tasks z ! n) (registrar z)),
    tasks := drop_task n (tasks z), answers := answers z @ answered (fst (run_task x k (tasks z ! n) (registrar z)))\<rparr>)"
proof -
  have "n < length (tasks z) \<Longrightarrow> t = tasks z ! n \<Longrightarrow> s = registrar z \<Longrightarrow>
    (sys_step x k)\<^sup>*\<^sup>* z (z\<lparr>registrar := snd (run_task x k t s),
      tasks := drop_task n (tasks z), answers := answers z @ answered (fst (run_task x k t s))\<rparr>)" for t s
  proof (induction x k t s arbitrary: z rule: run_task.induct)
    case (1 x k t s)
    obtain r s' where a: "advance x k t s = (r, s')" by fastforce
    show ?case
    proof (cases r)
      case (Inr b)
      with a have "advance x k (tasks z ! n) (registrar z) = (Inr b, s')" using 1 by simp
      from sys_step.finish [OF 1(2) this] show ?thesis
        by (simp add: run_task.simps [of x k t s] a Inr answered_def)
    next
      case (Inl t')
      let ?z = "z\<lparr>registrar := s', tasks := (tasks z)[n := t']\<rparr>"
      from a Inl have "advance x k (tasks z ! n) (registrar z) = (Inl t', s')" using 1 by simp
      then have step: "sys_step x k z ?z" by (rule sys_step.go [OF 1(2)])
      have "(sys_step x k)\<^sup>*\<^sup>* ?z (?z\<lparr>registrar := snd (run_task x k t' s'), tasks := drop_task n (tasks ?z),
          answers := answers ?z @ answered (fst (run_task x k t' s'))\<rparr>)"
        by (rule 1(1) [OF a [symmetric] Inl]) (use 1(2) in simp_all)
      then show ?thesis
        using step 1(2)
        by (simp add: run_task.simps [of x k t s] a Inl drop_task_def converse_rtranclp_into_rtranclp)
    qed
  qed
  with assms show ?thesis by blast
qed

text \<open>A request that comes in when nothing is in flight and is handled at once.\<close>

lemma serve_alone:
  assumes "tasks z = []" "arrives t"
  shows "\<exists>z'. (sys_step x k)\<^sup>*\<^sup>* z z' \<and> registrar z' = snd (run_task x k t (registrar z)) \<and> tasks z' = [] \<and>
    answers z' = answers z @ answered (fst (run_task x k t (registrar z)))"
proof -
  let ?z = "z\<lparr>tasks := tasks z @ [t], asked := asked z \<union> task_jobs t\<rparr>"
  let ?z' = "?z\<lparr>registrar := snd (run_task x k (tasks ?z ! 0) (registrar ?z)),
    tasks := drop_task 0 (tasks ?z), answers := answers ?z @ answered (fst (run_task x k (tasks ?z ! 0) (registrar ?z)))\<rparr>"
  have "sys_step x k z ?z" by (rule sys_step.arrive) (simp_all add: assms)
  moreover have "(sys_step x k)\<^sup>*\<^sup>* ?z ?z'"
    by (rule alone_run) (simp add: assms)
  ultimately have "(sys_step x k)\<^sup>*\<^sup>* z ?z'" by (rule converse_rtranclp_into_rtranclp)
  then show ?thesis by (rule exI [of _ ?z', OF conjI]) (simp add: assms drop_task_def)
qed

lemma request_as_tasks:
  assumes "request_step x k s t" "registrar z = s" "tasks z = []"
  shows "\<exists>z'. (sys_step x k)\<^sup>*\<^sup>* z z' \<and> registrar z' = t \<and> tasks z' = []"
proof -
  have run: "\<exists>z'. (sys_step x k)\<^sup>*\<^sup>* z z' \<and> registrar z' = snd (run_task x k u s) \<and> tasks z' = []" if "arrives u" for u
    using serve_alone [OF assms(3) that, of x k] assms(2) by auto
  show ?thesis
    using assms(1)
  proof (cases rule: request_step.cases)
    case (enroll n e now req)
    with run [of "Enroll_memory \<lparr>e_env = e, e_now = now, e_new = n, e_req = req\<rparr>"] show ?thesis by (simp add: run_enroll)
  next
    case (heartbeat hb now)
    with run [of "Beat_map now hb"] show ?thesis by (simp add: run_beat)
  next
    case (disconnect id_str)
    with run [of "Leave_map id_str"] show ?thesis by (simp add: run_leave)
  next
    case (move e id_str port)
    with run [of "Move_map e id_str port"] show ?thesis by (simp add: run_move)
  next
    case (register now now' rq)
    with run [of "Reg_pick now now' rq"] show ?thesis by (simp add: run_register)
  next
    case (tick now)
    with run [of "Tick_scan now"] show ?thesis by (simp add: run_tick)
  next
    case (outside h)
    have "sys_step x k z (z\<lparr>registrar := (registrar z)\<lparr>host_state := h\<rparr>\<rparr>)" by (rule sys_step.outside)
    with outside assms show ?thesis
      by (intro exI [of _ "z\<lparr>registrar := (registrar z)\<lparr>host_state := h\<rparr>\<rparr>"]) auto
  qed
qed

lemma reachable_quiet:
  "reachable x k s \<Longrightarrow> \<exists>z. sys_reachable x k z \<and> registrar z = s \<and> tasks z = []"
proof (induction rule: reachable.induct)
  case (boot now h)
  have "sys_reachable x k (boot_sys x k now [] h)" by (rule sys_reachable.boot)
  then show ?case by (rule exI [of _ "boot_sys x k now [] h", OF conjI]) (simp add: boot_sys_def)
next
  case (request s t)
  then obtain z where z: "sys_reachable x k z" "registrar z = s" "tasks z = []" by blast
  from request_as_tasks [OF request(2) z(2,3)] obtain z' where
    "(sys_step x k)\<^sup>*\<^sup>* z z'" "registrar z' = t" "tasks z' = []" by blast
  with sys_reachable_steps [OF this(1) z(1)] show ?case by blast
next
  case (restart s now)
  then obtain z where z: "sys_reachable x k z" "registrar z = s" "tasks z = []" by blast
  have "sys_step x k z (z\<lparr>registrar := crash_restart x k now ((registrar z)\<lparr>db_faults := db_faults s\<rparr>), tasks := []\<rparr>)"
    by (rule sys_step.crash)
  from sys_reachable.step [OF z(1) this] z(2) show ?case by (intro exI conjI) (assumption, simp_all)
qed

subsection \<open>Properties\<close>

text \<open>C5 Whatever the order of the handlers' steps, whichever statements of the database fail, whatever
  HAProxy answers and whenever the process crashes: every volunteer stands in the map under its own
  identifier and once; every row of both tables can be read back, under the identifier it is stored
  with; and every service that is assigned, queued, stored or on its way in some handler is one that
  a client has registered.\<close>

theorem concurrent_sound:
  assumes "sys_reachable x k z" and "crates_ok k"
  shows "hm_valid (volunteers (registrar z)) \<and>
    (\<forall>i v. hm_get (volunteers (registrar z)) i = Some v \<longrightarrow> vid v = i) \<and>
    (\<forall>key r. tbl_get (vol_table (registrar z)) key = Some r \<longrightarrow>
       (\<exists>v. volunteer_of_row k key r = Some v \<and> key = uuid_text k (vid v))) \<and>
    (\<forall>key r. tbl_get (asg_table (registrar z)) key = Some r \<longrightarrow>
       (\<exists>i a. key = uuid_text k i \<and> assignment_of_row k r = Some a \<and> job a \<in> asked z)) \<and>
    set_mset (services (registrar z)) \<subseteq> asked z \<and> (\<forall>t \<in> set (tasks z). task_jobs t \<subseteq> asked z)"
proof -
  have s: "sound k (asked z) (registrar z)" and t: "\<forall>t \<in> set (tasks z). task_jobs t \<subseteq> asked z"
    using sys_reachable_sound [OF assms] by (simp_all add: sys_sound_def)
  have m: "map_sound (asked z) (volunteers (registrar z))" and r: "rows_sound k (vol_table (registrar z))"
    and a: "assignments_sound k (asked z) (asg_table (registrar z))"
    using s by (simp_all add: sound_def)
  have "\<exists>v. volunteer_of_row k key r = Some v \<and> key = uuid_text k (vid v)"
    if "tbl_get (vol_table (registrar z)) key = Some r" for key r
    using r that row_reads_back [OF assms(2)] unfolding rows_sound_def by metis
  moreover have "\<exists>i a. key = uuid_text k i \<and> assignment_of_row k r = Some a \<and> job a \<in> asked z"
    if "tbl_get (asg_table (registrar z)) key = Some r" for key r
    using a that assignment_row_roundtrip [OF assms(2)] unfolding assignments_sound_def by metis
  ultimately show ?thesis using map_soundD [OF m] services_sound [OF s] t by blast
qed

theorem concurrent_sound_witness:
  "hm_valid (volunteers (registrar (boot_sys sim_host wit 0 [True, False] (''default_backend v'', volunteers_only))))"
proof -
  have "sys_reachable sim_host wit (boot_sys sim_host wit 0 [True, False] (''default_backend v'', volunteers_only))"
    by (rule sys_reachable.boot)
  from concurrent_sound [OF this wit_ok] show ?thesis by (elim conjE)
qed

text \<open>The runs of one handler after the other are runs of the system: every state that requests, churn
  ticks and restarts reach when none overlaps another is reached by the tasks as well, with none left in
  flight, and a request that comes in then can be served with the answer of its atomic handler.\<close>

theorem sequential_runs_are_runs:
  assumes "reachable x k s"
  shows "\<exists>z. sys_reachable x k z \<and> registrar z = s \<and> tasks z = [] \<and>
    (\<forall>now hb. \<exists>z'. (sys_step x k)\<^sup>*\<^sup>* z z' \<and> registrar z' = snd (heartbeat x k now hb s) \<and> tasks z' = [] \<and>
       answers z' = answers z @ [fst (heartbeat x k now hb s)]) \<and>
    (\<forall>e now n req. \<exists>z'. (sys_step x k)\<^sup>*\<^sup>* z z' \<and> registrar z' = snd (enroll x k e now n req s) \<and> tasks z' = [] \<and>
       answers z' = answers z @ [fst (enroll x k e now n req s)]) \<and>
    (\<forall>now now' rq. \<exists>z'. (sys_step x k)\<^sup>*\<^sup>* z z' \<and> registrar z' = snd (register_service x k now now' rq s) \<and>
       tasks z' = [] \<and> answers z' = answers z @ [fst (register_service x k now now' rq s)])"
proof -
  obtain z where z: "sys_reachable x k z" "registrar z = s" "tasks z = []" using reachable_quiet [OF assms] by blast
  have run: "\<exists>z'. (sys_step x k)\<^sup>*\<^sup>* z z' \<and> registrar z' = snd (run_task x k t s) \<and> tasks z' = [] \<and>
      answers z' = answers z @ answered (fst (run_task x k t s))" if "arrives t" for t
    using serve_alone [OF z(3) that, of x k] z(2) by simp
  have "\<exists>z'. (sys_step x k)\<^sup>*\<^sup>* z z' \<and> registrar z' = snd (heartbeat x k now hb s) \<and> tasks z' = [] \<and>
       answers z' = answers z @ [fst (heartbeat x k now hb s)]" for now hb
    using run [of "Beat_map now hb"] by (simp add: run_beat answered_def)
  moreover have "\<exists>z'. (sys_step x k)\<^sup>*\<^sup>* z z' \<and> registrar z' = snd (enroll x k e now n req s) \<and> tasks z' = [] \<and>
       answers z' = answers z @ [fst (enroll x k e now n req s)]" for e now n req
    using run [of "Enroll_memory \<lparr>e_env = e, e_now = now, e_new = n, e_req = req\<rparr>"] by (simp add: run_enroll answered_def)
  moreover have "\<exists>z'. (sys_step x k)\<^sup>*\<^sup>* z z' \<and> registrar z' = snd (register_service x k now now' rq s) \<and>
       tasks z' = [] \<and> answers z' = answers z @ [fst (register_service x k now now' rq s)]" for now now' rq
    using run [of "Reg_pick now now' rq"] by (simp add: run_register answered_def)
  ultimately show ?thesis using z by blast
qed

theorem sequential_runs_are_runs_witness:
  "\<exists>z. sys_reachable sim_host wit z \<and> registrar z = wit_node"
  using sequential_runs_are_runs [OF wit_node_reachable] by blast

end
