(* ===== verification/Registrar_Progress.thy ===== *)
theory Registrar_Progress
  imports Registrar_Concurrent
begin

text \<open>
  The steps that the handlers in flight have left: however they interleave, whichever statements of the
  database fail and whatever HAProxy answers, there are finitely many, and when all of them are over every
  request has been answered once. It is taken for granted here that each await ends: the locks of the
  registrar are held within one step only, and the command socket of HAProxy, which is read without a
  timeout, is taken to answer.
\<close>

subsection \<open>Only the tasks in flight\<close>

text \<open>
  Steps of the tasks in flight, in any order and with the world outside changing before each of them,
  when nothing arrives, nobody hangs up and the process does not crash.
\<close>

inductive work_step :: "'h host \<Rightarrow> crates \<Rightarrow> 'h sys \<Rightarrow> 'h sys \<Rightarrow> bool" for x k where
  go: "n < length (tasks z) \<Longrightarrow> advance x k (tasks z ! n) ((registrar z)\<lparr>host_state := h\<rparr>) = (Inl t, s) \<Longrightarrow>
     work_step x k z (z\<lparr>registrar := s, tasks := (tasks z)[n := t]\<rparr>)"
| finish: "n < length (tasks z) \<Longrightarrow> advance x k (tasks z ! n) ((registrar z)\<lparr>host_state := h\<rparr>) = (Inr r, s) \<Longrightarrow>
     work_step x k z (z\<lparr>registrar := s, tasks := drop_task n (tasks z), answers := answers z @ answered r\<rparr>)"

definition waiting :: "'h sys \<Rightarrow> nat" where
  "waiting z = length (filter (\<lambda>t. \<not> ticking t) (tasks z))"

definition work_left :: "task list \<Rightarrow> nat \<times> nat" where
  "work_left ts = (sum_list (map (\<lambda>t. if scans t then 1 else 0) ts), sum_list (map (Suc \<circ> rank) ts))"

lemma split_task: "n < length ts \<Longrightarrow> ts = take n ts @ ts ! n # drop (Suc n) ts"
  by (simp add: id_take_nth_drop)

lemma work_is_steps: "work_step x k z z' \<Longrightarrow> (sys_step x k)\<^sup>*\<^sup>* z z'"
proof (induction rule: work_step.induct)
  case (go n z h t s)
  then show ?case
    using sys_step.outside [of x k z h] sys_step.go [of n "z\<lparr>registrar := (registrar z)\<lparr>host_state := h\<rparr>\<rparr>" x k t s]
    by (intro converse_rtranclp_into_rtranclp [OF _ r_into_rtranclp]) auto
next
  case (finish n z h r s)
  then show ?case
    using sys_step.outside [of x k z h] sys_step.finish [of n "z\<lparr>registrar := (registrar z)\<lparr>host_state := h\<rparr>\<rparr>" x k r s]
    by (intro converse_rtranclp_into_rtranclp [OF _ r_into_rtranclp]) (auto simp: answered_def)
qed

lemma work_are_steps: "(work_step x k)\<^sup>*\<^sup>* z z' \<Longrightarrow> (sys_step x k)\<^sup>*\<^sup>* z z'"
  by (induction rule: rtranclp_induct) (auto dest!: work_is_steps)

lemma work_step_waiting:
  "work_step x k z z' \<Longrightarrow> \<exists>as. answers z' = answers z @ as \<and> length as + waiting z' = waiting z"
proof (induction rule: work_step.induct)
  case (go n z h t s)
  then have "ticking t = ticking (tasks z ! n)" using advance_ticking(1) by (metis fst_conv)
  moreover have "waiting z = length (filter (\<lambda>t. \<not> ticking t) (take n (tasks z) @ tasks z ! n # drop (Suc n) (tasks z)))"
    unfolding waiting_def using split_task [OF go(1)] by simp
  ultimately show ?case by (simp add: waiting_def upd_conv_take_nth_drop [OF go(1)])
next
  case (finish n z h r s)
  then have "r = None \<longleftrightarrow> ticking (tasks z ! n)" using advance_ticking(2) by (metis fst_conv)
  moreover have "waiting z = length (filter (\<lambda>t. \<not> ticking t) (take n (tasks z) @ tasks z ! n # drop (Suc n) (tasks z)))"
    unfolding waiting_def using split_task [OF finish(1)] by simp
  ultimately show ?case by (auto simp: waiting_def drop_task_def answered_def split: option.splits)
qed

lemma work_step_less:
  "work_step x k z z' \<Longrightarrow> (work_left (tasks z'), work_left (tasks z)) \<in> less_than <*lex*> less_than"
proof (induction rule: work_step.induct)
  case (go n z h t s)
  have "work_left (tasks z) = work_left (take n (tasks z) @ tasks z ! n # drop (Suc n) (tasks z))"
    using split_task [OF go(1)] by simp
  moreover have "\<not> scans t" "\<not> scans (tasks z ! n) \<longrightarrow> rank t < rank (tasks z ! n)"
    using advance_rank [of x k "tasks z ! n" "(registrar z)\<lparr>host_state := h\<rparr>" t] go(2) by simp_all
  ultimately show ?case by (simp add: work_left_def upd_conv_take_nth_drop [OF go(1)])
next
  case (finish n z h r s)
  have "work_left (tasks z) = work_left (take n (tasks z) @ tasks z ! n # drop (Suc n) (tasks z))"
    using split_task [OF finish(1)] by simp
  then show ?case by (simp add: work_left_def drop_task_def)
qed

lemma work_ends: "\<not> (\<exists>f. \<forall>n. work_step x k (f n) (f (Suc n)))"
proof
  assume "\<exists>f. \<forall>n. work_step x k (f n) (f (Suc n))"
  then obtain f where f: "work_step x k (f n) (f (Suc n))" for n by blast
  have "wf (less_than <*lex*> less_than)" by auto
  moreover have "(work_left (tasks (f (Suc n))), work_left (tasks (f n))) \<in> less_than <*lex*> less_than" for n
    by (rule work_step_less [OF f])
  ultimately show False by (auto simp: wf_iff_no_infinite_down_chain dest!: spec [of _ "\<lambda>n. work_left (tasks (f n))"])
qed

lemma work_goes_on: "tasks z \<noteq> [] \<Longrightarrow> \<exists>z'. work_step x k z z'"
proof -
  assume "tasks z \<noteq> []"
  moreover obtain r s where "advance x k (tasks z ! 0) ((registrar z)\<lparr>host_state := host_state (registrar z)\<rparr>) = (r, s)"
    by fastforce
  ultimately show ?thesis by (cases r) (blast intro: work_step.intros)+
qed

lemma work_steps_waiting:
  "(work_step x k)\<^sup>*\<^sup>* z z' \<Longrightarrow> \<exists>as. answers z' = answers z @ as \<and> length as + waiting z' = waiting z"
proof (induction rule: rtranclp_induct)
  case (step y z')
  then obtain as where "answers y = answers z @ as" "length as + waiting y = waiting z" by blast
  moreover obtain bs where "answers z' = answers y @ bs" "length bs + waiting z' = waiting y"
    using work_step_waiting [OF step(2)] by blast
  ultimately show ?case by (intro exI [of _ "as @ bs"]) simp
qed simp

lemma work_drains: "\<exists>z'. (work_step x k)\<^sup>*\<^sup>* z z' \<and> tasks z' = []"
proof -
  have "wf (inv_image (less_than <*lex*> less_than) (\<lambda>z :: 'h sys. work_left (tasks z)))" by auto
  then show ?thesis
  proof (induction z rule: wf_induct_rule)
    case (less z)
    show ?case
    proof (cases "tasks z = []")
      case False
      with work_goes_on obtain z1 where z1: "work_step x k z z1" by blast
      with less work_step_less [OF z1] show ?thesis
        by (meson converse_rtranclp_into_rtranclp in_inv_image)
    qed blast
  qed
qed

subsection \<open>Property\<close>

text \<open>From every state of the registrar, with any handlers in flight and any order of their steps, when each
  await ends: no run of them goes on for ever, and each request is answered exactly once, so that when
  the handlers are over there are as many answers more as there were requests waiting. Such an end can
  be reached from every point on the way.\<close>

theorem requests_answered:
  assumes "(work_step x k)\<^sup>*\<^sup>* z z'"
  shows "\<not> (\<exists>f. f 0 = z' \<and> (\<forall>n. work_step x k (f n) (f (Suc n)))) \<and>
    (tasks z' = [] \<longleftrightarrow> \<not> (\<exists>z''. work_step x k z' z'')) \<and>
    (\<exists>as. answers z' = answers z @ as \<and> length as + waiting z' = waiting z) \<and>
    (\<exists>z'' as. (work_step x k)\<^sup>*\<^sup>* z' z'' \<and> (sys_step x k)\<^sup>*\<^sup>* z' z'' \<and> tasks z'' = [] \<and>
       answers z'' = answers z @ as \<and> length as = waiting z)"
proof -
  obtain z'' where z: "(work_step x k)\<^sup>*\<^sup>* z' z''" "tasks z'' = []" using work_drains by blast
  obtain as where "answers z'' = answers z @ as" "length as + waiting z'' = waiting z"
    using work_steps_waiting [OF rtranclp_trans [OF assms z(1)]] by blast
  with z work_are_steps [OF z(1)] have "\<exists>z'' as. (work_step x k)\<^sup>*\<^sup>* z' z'' \<and> (sys_step x k)\<^sup>*\<^sup>* z' z'' \<and> tasks z'' = [] \<and>
       answers z'' = answers z @ as \<and> length as = waiting z"
    by (auto simp: waiting_def)
  moreover have "tasks z' = [] \<Longrightarrow> \<not> work_step x k z' y" for y by (auto elim: work_step.cases)
  ultimately show ?thesis
    using work_ends [of x k] work_goes_on [of z' x k] work_steps_waiting [OF assms] by blast
qed

theorem requests_answered_witness:
  "\<exists>z'' as. (sys_step sim_host wit)\<^sup>*\<^sup>* (boot_sys sim_host wit 0 [] (''default_backend v'', volunteers_only)
       \<lparr>tasks := [Leave_map ''7'', Tick_scan 0, Leave_map ''8'']\<rparr>) z'' \<and> tasks z'' = [] \<and> answers z'' = as \<and> length as = 2"
proof -
  let ?z = "boot_sys sim_host wit 0 [] (''default_backend v'', volunteers_only)
       \<lparr>tasks := [Leave_map ''7'', Tick_scan 0, Leave_map ''8'']\<rparr>"
  have "(work_step sim_host wit)\<^sup>*\<^sup>* ?z ?z" by simp
  from requests_answered [OF this] have "\<exists>z'' as. (sys_step sim_host wit)\<^sup>*\<^sup>* ?z z'' \<and> tasks z'' = [] \<and>
      answers z'' = answers ?z @ as \<and> length as = waiting ?z" by blast
  then show ?thesis by (simp add: boot_sys_def waiting_def numeral_2_eq_2)
qed

end
