(* ===== verification/Registrar_Races.thy ===== *)
theory Registrar_Races
  imports Registrar_Properties
begin

text \<open>
  What can go wrong when requests overlap: a handler gives up its lock between reading the map and
  writing it, and another one runs in between.
\<close>

subsection \<open>Two registrations\<close>

text \<open>Two services registered at the same time can be given the same volunteer: when both requests
  choose before either has recorded its choice, both are answered 201 with that volunteer, but the second
  assignment overwrites the first in the map and in the database, and the first service is gone.\<close>

theorem register_race:
  assumes "reachable x k s" and "crates_ok k" and "register_pick now s = Some v"
    and "register_with x k t1 (Some v) rq1 s = ((201, b1), s1)"
    and "register_with x k t2 (Some v) rq2 s1 = ((201, b2), s2)"
  shows "b1 = Register_response (''svc_'' @ rq_name rq1) (rq_domain rq1) (Some (uuid_text k (vid v))) \<and>
    b2 = Register_response (''svc_'' @ rq_name rq2) (rq_domain rq2) (Some (uuid_text k (vid v))) \<and>
    services s2 = services s + {#request_job rq2#} \<and>
    tbl_get (asg_table s2) (uuid_text k (vid v)) = Some (assignment_row_of k (assignment_for rq2 t2))"
proof -
  note inv = reg_invD [OF reachable_inv [OF assms(1,2)]]
  note pick = register_pick_Some [OF assms(3)]
  have g: "hm_get (volunteers s) (vid v) = Some v" using pick(1) by (simp add: map_inv_value [OF inv(1)])
  have with_eq: "register_with x k t (Some v) rq u = register_commit k t v rq (u\<lparr>host_state := h\<rparr>)"
    if "register_with x k t (Some v) rq u = ((201, b), u')"
      "h = snd (assign_service x (rq_name rq) (rq_domain rq) (vid v) (service_addr (info v)) (host_state u))"
    for t rq u b u' h
    using that by (simp add: register_with_def on_host_eq tunnel_addr_for_def split: sum.splits)
  have commit: "b = Register_response (''svc_'' @ rq_name rq) (rq_domain rq) (Some (uuid_text k (vid v))) \<and>
      volunteers u' = hm_insert (vid v) (set_assignment (assignment_for rq t) w) (volunteers u) \<and>
      pending_services u' = pending_services u \<and> db_faults u' = [] \<and>
      asg_table u' = tbl_replace (uuid_text k (vid v)) (assignment_row_of k (assignment_for rq t)) (asg_table u)"
    if "register_with x k t (Some v) rq u = ((201, b), u')" "hm_get (volunteers u) (vid v) = Some w" "db_faults u = []"
    for t rq u b u' w
    using with_eq [OF that(1) refl] that by (simp add: register_commit_def Let_def frame no_fault_db)
  note 1 = commit [OF assms(4) g inv(3)]
  have g1: "hm_get (volunteers s1) (vid v) = Some (set_assignment (assignment_for rq1 t1) v)"
    using 1 inv(4) by (simp add: store_simps)
  note 2 = commit [OF assms(5) g1]
  have f: "volunteers s2 = hm_insert (vid v) (set_assignment (assignment_for rq2 t2) (set_assignment (assignment_for rq1 t1) v))
      (hm_insert (vid v) (set_assignment (assignment_for rq1 t1) v) (volunteers s))"
    "pending_services s2 = pending_services s"
    using 1 2 by simp_all
  have jobs: "jobs_of (Some (set_assignment a w)) = {#job a#}" for a w by (simp add: jobs_of_def set_assignment_def)
  have "hm_valid (volunteers s1)" using 1 inv(4) by (simp add: store_simps)
  from placed_insert [OF this, of "vid v" "set_assignment (assignment_for rq2 t2) (set_assignment (assignment_for rq1 t1) v)"]
  have "placed (volunteers s2) + {#job (assignment_for rq1 t1)#} = placed (volunteers s1) + {#job (assignment_for rq2 t2)#}"
    using f(1) 1 g1 by (simp add: jobs)
  moreover have "placed (volunteers s1) = placed (volunteers s) + {#job (assignment_for rq1 t1)#}"
    using placed_insert [OF inv(4), of "vid v" "set_assignment (assignment_for rq1 t1) v"] 1 g pick(3)
    by (simp add: jobs) (simp add: jobs_of_def)
  ultimately have "placed (volunteers s2) = placed (volunteers s) + {#job (assignment_for rq2 t2)#}" by simp
  moreover have "job (assignment_for rq2 t2) = request_job rq2" by (simp add: job_def assignment_for_def request_job_def)
  moreover have "tbl_valid (asg_table s1)" using 1 mirror_tables(2) [OF inv(2)] by (simp add: store_simps)
  ultimately show ?thesis using 1 2 f(2) by (simp add: services_def store_simps)
qed

text \<open>Two services registered at once on the concrete registrar.\<close>

lemma assign_new:
  assumes "cfg_ok (fst h)" "api_word n" "plain_line d" "\<not> service_exists (fst h) (''svc_'' @ n)"
  shows "\<exists>h'. assign_service sim_host n d i (tunnel_addr wit_env 30000) h = (Inr (), h') \<and>
    fst h' = ensure_text (''svc_'' @ n, d) (fst h)"
proof -
  have w: "word (''svc_'' @ n)" using assms(2) svc_word(2) by (simp add: api_word_def)
  from sim_add_service [OF assms(1) w assms(3)] assms(4) obtain h1 where
    "add_service sim_host (''svc_'' @ n) d h = (Inr (), h1)" "fst h1 = ensure_text (''svc_'' @ n, d) (fst h)"
    "known_backend (snd h1) (''svc_'' @ n)" by auto
  with assign_service_cases [OF sim_host_ok assms(2) wit_addr(2), of d h h1 i] show ?thesis
    unfolding wit_addr(1) by auto
qed

lemma wit_words: "api_word ''b''" "api_word ''c''" "plain_line ''a.org''" "word ''svc_b''" "word ''svc_c''"
  by (simp_all add: api_word_def word_def is_ws_def plain_line_def)

lemma wit_pick: "register_pick 0 wit_node = Some wit_volunteer"
  by (simp add: register_pick_def active_volunteers_def wit_node_map hm_values_def wit_volunteer_alive)
    (simp add: wit_volunteer_def fresh_volunteer_def)

lemma wit_register:
  assumes "cfg_ok (fst (host_state u))" "api_word n" "\<not> service_exists (fst (host_state u)) (''svc_'' @ n)"
  shows "\<exists>b u'. register_with sim_host wit t (Some wit_volunteer) (wit_service n) u = ((201, b), u') \<and>
    fst (host_state u') = ensure_text (''svc_'' @ n, ''a.org'') (fst (host_state u))"
proof -
  obtain h' where "assign_service sim_host n ''a.org'' (vid wit_volunteer) (tunnel_addr wit_env 30000) (host_state u) = (Inr (), h')"
    "fst h' = ensure_text (''svc_'' @ n, ''a.org'') (fst (host_state u))"
    using assign_new [OF assms(1,2) wit_words(3) assms(3)] by blast
  moreover have "service_addr (info wit_volunteer) = tunnel_addr wit_env 30000"
    by (simp add: wit_volunteer_def fresh_volunteer_def)
  ultimately show ?thesis
    by (simp add: register_with_def on_host_eq wit_service_def tunnel_addr_for_def register_commit_def Let_def frame
        split: option.split)
qed

theorem register_race_witness:
  "\<exists>b1 s1 b2 s2. register_with sim_host wit 0 (Some wit_volunteer) (wit_service ''b'') wit_node = ((201, b1), s1) \<and>
     register_with sim_host wit 0 (Some wit_volunteer) (wit_service ''c'') s1 = ((201, b2), s2) \<and>
     services s2 = services wit_node + {#(''c'', ''a.org'', ''img'', 80)#}"
proof -
  let ?c = "''default_backend v''"
  have no: "\<not> service_exists ?c ''svc_b''" "\<not> service_exists ?c ''svc_c''"
    by (simp_all add: service_exists_def acl_marker_def str_lines_last trim_def is_ws_def)
  have c: "cfg_ok (fst (host_state wit_node))" "\<not> service_exists (fst (host_state wit_node)) (''svc_'' @ ''b'')"
    using no by (simp_all add: wit_node_file default_backend_cfg)
  obtain b1 s1 where 1: "register_with sim_host wit 0 (Some wit_volunteer) (wit_service ''b'') wit_node = ((201, b1), s1)"
    "fst (host_state s1) = ensure_text (''svc_b'', ''a.org'') ?c"
    using wit_register [OF c(1) wit_words(1) c(2), of 0] wit_node_file by auto
  have "cfg_ok (fst (host_state s1))" "\<not> service_exists (fst (host_state s1)) (''svc_'' @ ''c'')"
    using cfg.inv_ensure [OF default_backend_cfg wit_words(4,3)]
      cfg.has_ensure [OF default_backend_cfg wit_words(4,3,5)] no 1(2) by simp_all
  from wit_register [OF this(1) wit_words(2) this(2), of 0] obtain b2 s2 where
    2: "register_with sim_host wit 0 (Some wit_volunteer) (wit_service ''c'') s1 = ((201, b2), s2)" by blast
  from register_race [OF wit_node_reachable wit_ok wit_pick 1(1) 2] 1(1) 2 show ?thesis
    by (auto simp: request_job_def wit_service_def)
qed

subsection \<open>Eviction and heartbeat\<close>

text \<open>The churn monitor evicts on what it saw at the start of the tick: a volunteer whose heartbeat
  arrives after the scan and is answered 200 is removed all the same, while it is alive, and its next
  heartbeat is answered 404.\<close>

theorem churn_evicts_alive_volunteer:
  assumes "reachable x k s" and "crates_ok k" and "(hb_volunteer_id hb, a) \<in> set (dead_volunteers now s)"
  shows "\<exists>w s1. heartbeat x k now' hb s = ((200, Heartbeat_response (payload a)), s1) \<and>
    hm_get (volunteers s1) (hb_volunteer_id hb) = Some w \<and> is_alive now' w \<and>
    heartbeat x k t hb (evict x k now (hb_volunteer_id hb, a) s1) =
      (not_found, evict x k now (hb_volunteer_id hb, a) s1)"
proof -
  note inv = reg_invD [OF reachable_inv [OF assms(1,2)]]
  obtain v where v: "hm_get (volunteers s) (hb_volunteer_id hb) = Some v" "assigned_service v = a"
    using assms(3) dead_distinct(2) [OF inv(1)] by blast
  let ?s1 = "snd (heartbeat x k now' hb s)"
  have m: "volunteers ?s1 = hm_insert (hb_volunteer_id hb) (beat now' hb v) (volunteers s)"
    by (simp add: heartbeat_def v Let_def frame)
  have r: "heartbeat x k now' hb s = ((200, Heartbeat_response (payload a)), ?s1)"
    by (simp add: heartbeat_def v Let_def beat_def)
  have w: "hm_get (volunteers ?s1) (hb_volunteer_id hb) = Some (beat now' hb v)"
    by (simp add: m store_simps inv(4))
  have alive: "is_alive now' (beat now' hb v)" by (simp add: beat_def is_alive_iff)
  have "hm_get (volunteers (evict x k now (hb_volunteer_id hb, a) ?s1)) (hb_volunteer_id hb) = None"
    by (simp add: evict_effect m store_simps inv(4))
  then have "heartbeat x k t hb (evict x k now (hb_volunteer_id hb, a) ?s1) =
      (not_found, evict x k now (hb_volunteer_id hb, a) ?s1)" by (simp add: heartbeat_def)
  with r w alive show ?thesis by blast
qed

definition wit_beat :: heartbeat_request where
  "wit_beat = \<lparr>hb_volunteer_id = 7, hb_cpu_pct = Fin 10, hb_mem_pct = Fin 20, hb_load_avg = Fin 1,
     hb_active_requests = 3, hb_service_running = None, hb_service_image = None\<rparr>"

theorem churn_evicts_alive_volunteer_witness:
  "\<exists>s1. heartbeat sim_host wit (46 * 10 ^ 9) wit_beat wit_node = ((200, Heartbeat_response None), s1) \<and>
     fst (heartbeat sim_host wit (47 * 10 ^ 9) wit_beat (evict sim_host wit (46 * 10 ^ 9) (7, None) s1)) = not_found"
proof -
  have "(hb_volunteer_id wit_beat, None) \<in> set (dead_volunteers (46 * 10 ^ 9) wit_node)"
    by (simp add: dead_volunteers_def wit_node_map hm_values_def wit_volunteer_alive wit_beat_def)
      (simp add: wit_volunteer_def fresh_volunteer_def)
  from churn_evicts_alive_volunteer [OF wit_node_reachable wit_ok this, of "46 * 10 ^ 9" "47 * 10 ^ 9"]
  show ?thesis by (auto simp: payload_def wit_beat_def)
qed

subsection \<open>Two enrollments\<close>

text \<open>The identity of a node is stable only while its enrollments do not overlap: when two enrollments
  with the same host name both look the name up before either has written, the node ends up in the map
  twice, under two identifiers.\<close>

theorem enroll_race:
  assumes "reachable x k s" and "crates_ok k"
    and "\<forall>j w. hm_get (volunteers s) j = Some w \<longrightarrow> hostname (info w) \<noteq> hostname (er_info req)" and "n1 \<noteq> n2"
  shows "let (f1, s1) = enroll_lookup k req s; (f2, s2) = enroll_lookup k req s1;
      s3 = snd (enroll_finish x k e now n1 req f1 s2); s4 = snd (enroll_finish x k e now n2 req f2 s3)
    in \<exists>v w. hm_get (volunteers s4) n1 = Some v \<and> hm_get (volunteers s4) n2 = Some w \<and>
      hostname (info v) = hostname (er_info req) \<and> hostname (info w) = hostname (er_info req)"
proof -
  note inv = reg_invD [OF reachable_inv [OF assms(1,2)]]
  have "known (hostname (er_info req)) (volunteers s) = (None, None)"
  proof (cases "fst (known (hostname (er_info req)) (volunteers s))")
    case None
    then show ?thesis using known_None by (cases "known (hostname (er_info req)) (volunteers s)") auto
  next
    case (Some i)
    then have "known (hostname (er_info req)) (volunteers s) = (Some i, snd (known (hostname (er_info req)) (volunteers s)))"
      by (cases "known (hostname (er_info req)) (volunteers s)") simp
    from known_Some [OF inv(1) this] assms(3) show ?thesis by blast
  qed
  then have look: "enroll_lookup k req s = ((None, None), s)" using lookup_mirror [OF inv(2,1,3)] by simp
  show ?thesis
    using assms(4) inv(4)
    by (auto simp: look Let_def frame store_simps enroll_id_def)
qed

theorem enroll_race_witness:
  "\<exists>s3 s4 v w. s3 = snd (enroll_finish sim_host wit wit_env 0 7 (wit_req ''a'') (None, None) wit_boot) \<and>
     s4 = snd (enroll_finish sim_host wit wit_env 0 8 (wit_req ''a'') (None, None) s3) \<and>
     hm_get (volunteers s4) 7 = Some v \<and> hm_get (volunteers s4) 8 = Some w \<and>
     hostname (info v) = ''a'' \<and> hostname (info w) = ''a''"
proof -
  have look: "enroll_lookup wit (wit_req ''a'') wit_boot = ((None, None), wit_boot)"
    using lookup_mirror [OF reg_invD(2,1,3) [OF reachable_inv [OF wit_boot_reachable wit_ok]], of "wit_req ''a''"]
    by (simp add: known_def wit_boot_def new_app_def hm_values_def)
  have "hostname (er_info (wit_req ''a'')) = ''a''" by (simp add: wit_req_def)
  with enroll_race [OF wit_boot_reachable wit_ok _, of "wit_req ''a''" 7 8 wit_env 0] show ?thesis
    by (simp add: look Let_def) (simp add: wit_boot_def new_app_def)
qed

end
