(* ===== verification/Registrar_Overlaps.thy ===== *)
theory Registrar_Overlaps
  imports Registrar_Concurrent Registrar_Races
begin

text \<open>
  Runs of the system in which handlers overlap and their effects do not add up: an enrollment during
  an eviction, a heartbeat during a disconnection, and an enrollment whose client goes away.
\<close>

subsection \<open>Paths\<close>

definition sys_at :: "'h sys \<Rightarrow> 'h reg \<Rightarrow> task list \<Rightarrow> response list \<Rightarrow> 'h sys" where
  "sys_at z s ts as = z\<lparr>registrar := s, tasks := ts, answers := as\<rparr>"

lemma sys_at_fields [simp]:
  "registrar (sys_at z s ts as) = s" "tasks (sys_at z s ts as) = ts" "answers (sys_at z s ts as) = as"
  "asked (sys_at z s ts as) = asked z"
  by (simp_all add: sys_at_def)

lemma at_self: "registrar z = s \<Longrightarrow> tasks z = ts \<Longrightarrow> sys_at z s ts (answers z) = z"
  by (auto simp: sys_at_def)

lemma at_arrive:
  assumes "arrives t" "task_jobs t = {}" "ticking t \<Longrightarrow> list_all (\<lambda>u. \<not> ticking u) ts"
  shows "sys_step x k (sys_at z s ts as) (sys_at z s (ts @ [t]) as)"
  using sys_step.arrive [of t "sys_at z s ts as" x k] assms by (cases z) (simp add: sys_at_def)

lemma at_go:
  assumes "n < length ts" "advance x k (ts ! n) s = (Inl t, s')"
  shows "sys_step x k (sys_at z s ts as) (sys_at z s' (ts[n := t]) as)"
  using sys_step.go [of n "sys_at z s ts as" x k t s'] assms by (cases z) (simp add: sys_at_def)

lemma at_run:
  assumes "n < length ts" "run_task x k (ts ! n) s = (r, s')"
  shows "(sys_step x k)\<^sup>*\<^sup>* (sys_at z s ts as) (sys_at z s' (drop_task n ts) (as @ answered r))"
  using alone_run [of n "sys_at z s ts as" x k] assms by (simp add: sys_at_def)

lemma at_cancel:
  assumes "n < length ts" "\<not> ticking (ts ! n)"
  shows "sys_step x k (sys_at z s ts as) (sys_at z s (drop_task n ts) as)"
  using sys_step.cancel [of n "sys_at z s ts as" x k] assms by (cases z) (simp add: sys_at_def)

lemma drop_task_simps [simp]: "drop_task 0 (t # ts) = ts" "drop_task 1 (t # u # ts) = t # ts"
  "drop_task (Suc 0) (t # u # ts) = t # ts"
  by (simp_all add: drop_task_def)

lemma find_in: "List.find P xs = Some y \<Longrightarrow> y \<in> set xs \<and> P y"
  by (auto simp: find_Some_iff)

lemma run_enroll_pair:
  "run_task x k (Enroll_memory j) s =
     (Some (fst (enroll x k (e_env j) (e_now j) (e_new j) (e_req j) s)),
      snd (enroll x k (e_env j) (e_now j) (e_new j) (e_req j) s))"
  by (simp add: run_enroll map_prod_def split_beta)

subsection \<open>Enrolling while being evicted\<close>

lemma lookup_during_eviction:
  assumes "reg_inv k s" "crates_ok k" "hm_get (volunteers s) i = Some v" "assigned_service v = Some a"
    and "hostname (info v) = hostname (er_info req)" "hostname (er_info req) \<noteq> []"
  shows "enroll_lookup k req (s\<lparr>volunteers := hm_remove i (volunteers s)\<rparr>) =
    ((Some i, Some a), s\<lparr>volunteers := hm_remove i (volunteers s)\<rparr>)"
proof -
  let ?n = "hostname (er_info req)" and ?m = "hm_remove i (volunteers s)"
  note inv = reg_invD [OF assms(1)]
  have "List.find (\<lambda>v. hostname (info v) = ?n) (hm_values ?m) = None"
    unfolding find_None_iff
  proof
    assume "\<exists>w. w \<in> set (hm_values ?m) \<and> hostname (info w) = ?n"
    then obtain j w where w: "hm_get ?m j = Some w" "hostname (info w) = ?n"
      by (auto simp: hm_values_iff store_simps inv(4))
    then have "j \<noteq> i" "hm_get (volunteers s) j = Some w" by (auto simp: store_simps inv(4) split: if_splits)
    with map_inv_unique [OF inv(1), of i v j w] assms(3,5,6) w(2) show False by simp
  qed
  moreover have "\<exists>r. List.find (\<lambda>r. r_hostname (snd r) = ?n) (vol_table s) = Some (uuid_text k i, r)"
  proof -
    from mirror_tables(4) [OF inv(2) assms(3)] obtain t where
      "tbl_get (vol_table s) (uuid_text k i) = Some (row_of k (v\<lparr>last_heartbeat := t\<rparr>))" by blast
    then have "(uuid_text k i, row_of k (v\<lparr>last_heartbeat := t\<rparr>)) \<in> set (vol_table s)"
      using tbl_get_in [OF mirror_tables(1) [OF inv(2)]] by blast
    moreover have "r_hostname (row_of k (v\<lparr>last_heartbeat := t\<rparr>)) = ?n" using assms(5) by (simp add: row_of_def)
    ultimately have "\<exists>p. p \<in> set (vol_table s) \<and> r_hostname (snd p) = ?n" by force
    then have "List.find (\<lambda>r. r_hostname (snd r) = ?n) (vol_table s) \<noteq> None" unfolding find_None_iff by simp
    then obtain key r where r: "List.find (\<lambda>r. r_hostname (snd r) = ?n) (vol_table s) = Some (key, r)" by auto
    then have "(key, r) \<in> set (vol_table s)" "r_hostname r = ?n" using find_in by fastforce+
    moreover from this(1) obtain j w t' where "key = uuid_text k j" "hm_get (volunteers s) j = Some w"
      "r = row_of k (w\<lparr>last_heartbeat := t'\<rparr>)" by (rule mirror_row [OF inv(2)])
    ultimately have "key = uuid_text k i"
      using map_inv_unique [OF inv(1), of i v j w] assms(3,5,6) by (simp add: row_of_def)
    with r show ?thesis by blast
  qed
  moreover have "tbl_get (asg_table s) (uuid_text k i) = Some (assignment_row_of k a)"
    using mirror_tables(3) [OF inv(2) assms(3)] assms(4) by simp
  ultimately show ?thesis
    using assms(2,6) inv(3,4) assignment_row_roundtrip [OF assms(2)]
    by (auto simp: enroll_lookup_def find_existing_def find_assignment_def db_find_by_hostname_def
        db_get_assignment_def db_query_eq store_simps crates_ok_def)
qed

lemma dead_one:
  assumes "reg_inv k s" "dead_volunteers now s = [(i, b)]"
  obtains v where "hm_get (volunteers s) i = Some v" "assigned_service v = b" "\<not> is_alive now v"
proof -
  have "(i, b) \<in> set (dead_volunteers now s)" using assms(2) by simp
  then obtain v where "v \<in> set (hm_values (volunteers s))" "vid v = i" "assigned_service v = b" "\<not> is_alive now v"
    by (auto simp: dead_volunteers_def)
  with map_inv_value [OF reg_invD(1) [OF assms(1)]] that show ?thesis by auto
qed

text \<open>The rest of an eviction, from the removal of the row on.\<close>

lemma evict_rest:
  assumes "db_faults s = []"
  shows "volunteers (snd (run_task x k (Tick_row now i (Some a) []) s)) = volunteers s"
    "pending_services (snd (run_task x k (Tick_row now i (Some a) []) s)) = pending_services s @ [pending_of a now]"
    "tbl_get (vol_table (snd (run_task x k (Tick_row now i (Some a) []) s))) (uuid_text k i) = None"
    "tbl_get (asg_table (snd (run_task x k (Tick_row now i (Some a) []) s))) (uuid_text k i) = None"
  using assms
  by (simp_all add: run_simps(30-34) Let_def frame no_fault_db push_back_def tbl_get_def tbl_delete_def map_of_delete)

text \<open>The run: the tick takes the node out of the map, the node enrolls, the tick goes on.\<close>

lemma enroll_during_eviction:
  fixes j :: enrolling
  assumes "registrar z = s" "tasks z = []" "dead_volunteers now s = [(i, Some a)]"
  shows "(sys_step x k)\<^sup>*\<^sup>* z (sys_at z
    (snd (run_task x k (Tick_row now i (Some a) [])
       (snd (enroll x k (e_env j) (e_now j) (e_new j) (e_req j) (s\<lparr>volunteers := hm_remove i (volunteers s)\<rparr>))))) []
    (answers z @ [fst (enroll x k (e_env j) (e_now j) (e_new j) (e_req j) (s\<lparr>volunteers := hm_remove i (volunteers s)\<rparr>))]))"
proof -
  let ?s1 = "s\<lparr>volunteers := hm_remove i (volunteers s)\<rparr>"
  let ?tick = "Tick_row now i (Some a) []"
  define en where "en = enroll x k (e_env j) (e_now j) (e_new j) (e_req j) ?s1"
  define fin where "fin = run_task x k ?tick (snd en)"
  have 1: "sys_step x k z (sys_at z s [Tick_scan now] (answers z))"
    using at_arrive [of "Tick_scan now" "[]" x k z s "answers z"] by (simp add: at_self assms)
  have 2: "sys_step x k (sys_at z s [Tick_scan now] (answers z)) (sys_at z s [Tick_map now i (Some a) []] (answers z))"
    using at_go [of 0 "[Tick_scan now]" x k s] assms(3) by simp
  have 3: "sys_step x k (sys_at z s [Tick_map now i (Some a) []] (answers z)) (sys_at z ?s1 [?tick] (answers z))"
    using at_go [of 0 "[Tick_map now i (Some a) []]" x k s] by simp
  have 4: "sys_step x k (sys_at z ?s1 [?tick] (answers z)) (sys_at z ?s1 [?tick, Enroll_memory j] (answers z))"
    using at_arrive [of "Enroll_memory j" "[?tick]" x k z ?s1] by simp
  have 5: "(sys_step x k)\<^sup>*\<^sup>* (sys_at z ?s1 [?tick, Enroll_memory j] (answers z))
      (sys_at z (snd en) [?tick] (answers z @ [fst en]))"
    using at_run [of 1 "[?tick, Enroll_memory j]" x k ?s1 "Some (fst en)" "snd en" z "answers z"]
    by (simp add: run_enroll_pair en_def answered_def)
  have 6: "(sys_step x k)\<^sup>*\<^sup>* (sys_at z (snd en) [?tick] (answers z @ [fst en]))
      (sys_at z (snd fin) [] (answers z @ [fst en]))"
    using at_run [of 0 "[?tick]" x k "snd en" "fst fin" "snd fin" z] own_run_answer
    by (simp add: fin_def run_simps(30-34) answered_def Let_def)
  from 1 2 3 4 have "(sys_step x k)\<^sup>*\<^sup>* z (sys_at z ?s1 [?tick, Enroll_memory j] (answers z))" by simp
  from rtranclp_trans [OF rtranclp_trans [OF this 5] 6] show ?thesis unfolding fin_def en_def .
qed

text \<open>C25 The churn monitor and an enrollment can both take charge of a service: from every state of the
  sequential registrar in which a tick finds exactly one dead volunteer, which has a name and a service,
  there is an order of the steps of that tick and of an enrollment of the same node (after the node has
  left the map and before it has left the tables) in which the node is answered 201 with its old
  identity and its service; but when both are done the service is also in the queue, to be given to the
  next node that enrolls, and neither the node nor its assignment is in the database.\<close>

theorem eviction_race:
  fixes j :: enrolling
  assumes "reachable x k s" and "crates_ok k" and "dead_volunteers now s = [(i, Some a)]"
    and "\<forall>v. hm_get (volunteers s) i = Some v \<longrightarrow> hostname (info v) = hostname (er_info (e_req j))"
    and "hostname (er_info (e_req j)) \<noteq> []"
  shows "\<exists>z z' w. sys_reachable x k z \<and> registrar z = s \<and> tasks z = [] \<and>
    (sys_step x k)\<^sup>*\<^sup>* z z' \<and> tasks z' = [] \<and>
    answers z' = answers z @ [(201, Enroll_response (uuid_text k i) HEARTBEAT_INTERVAL_SECS (payload (Some a)))] \<and>
    hm_get (volunteers (registrar z')) i = Some w \<and> assigned_service w = Some a \<and>
    pending_services (registrar z') = pending_services s @ [pending_of a now] \<and>
    tbl_get (vol_table (registrar z')) (uuid_text k i) = None \<and>
    tbl_get (asg_table (registrar z')) (uuid_text k i) = None"
proof -
  have inv: "reg_inv k s" by (rule reachable_inv [OF assms(1,2)])
  obtain v where v: "hm_get (volunteers s) i = Some v" "assigned_service v = Some a"
    by (rule dead_one [OF inv assms(3)])
  obtain z where z: "sys_reachable x k z" "registrar z = s" "tasks z = []" using reachable_quiet [OF assms(1)] by blast
  let ?s1 = "s\<lparr>volunteers := hm_remove i (volunteers s)\<rparr>"
  define en where "en = enroll x k (e_env j) (e_now j) (e_new j) (e_req j) ?s1"
  define fin where "fin = run_task x k (Tick_row now i (Some a) []) (snd en)"
  have steps: "(sys_step x k)\<^sup>*\<^sup>* z (sys_at z (snd fin) [] (answers z @ [fst en]))"
    unfolding fin_def en_def by (rule enroll_during_eviction [OF z(2,3) assms(3)])
  have en: "en = enroll_finish x k (e_env j) (e_now j) (e_new j) (e_req j) (Some i, Some a) ?s1"
    using lookup_during_eviction [OF inv assms(2) v, of "e_req j"] assms(4,5) v(1) by (simp add: en_def enroll_def)
  have job: "enroll_job x k (e_env j) (e_now j) (e_new j) (e_req j) (Some i, Some a) ?s1 =
      (Some a, reattach x k i (tunnel_addr (e_env j) (tunnel_public_port (e_req j))) a ?s1)"
    by (simp add: enroll_job_def enroll_id_def)
  let ?w = "enrolled x k (e_env j) (e_now j) (e_new j) (e_req j) (Some i, Some a) ?s1"
  have w0: "assigned_service ?w = Some a" "vid ?w = i" by (simp_all add: enrolled_def job fresh_volunteer_def enroll_id_def)
  have faults: "db_faults (snd en) = []"
    unfolding en by (rule enroll_finish_faults) (simp add: reg_invD(3) [OF inv])
  have w: "hm_get (volunteers (snd en)) i = Some ?w" "pending_services (snd en) = pending_services s"
    using reg_invD(4) [OF inv]
    by (simp_all add: en frame job store_simps enroll_id_def)
  have answer: "fst en = (201, Enroll_response (uuid_text k i) HEARTBEAT_INTERVAL_SECS (payload (Some a)))"
    by (simp add: en enroll_finish_response job enroll_id_def)
  show ?thesis
    using z steps w w0(1) evict_rest [OF faults, of x k now i a]
    by (intro exI [of _ z] exI [of _ "sys_at z (snd fin) [] (answers z @ [fst en])"] exI [of _ ?w])
      (simp add: fin_def answer)
qed

definition wit_job :: enrolling where
  "wit_job = \<lparr>e_env = wit_env, e_now = 47 * 10 ^ 9, e_new = 8, e_req = wit_req ''a''\<rparr>"

theorem eviction_race_witness:
  "\<exists>z w. sys_reachable sim_host wit z \<and> tasks z = [] \<and> hm_get (volunteers (registrar z)) 7 = Some w \<and>
     map_option service_name (assigned_service w) = Some ''b'' \<and>
     map p_name (pending_services (registrar z)) = [''b'']"
proof -
  let ?a = "assignment_for (wit_service ''b'') 0"
  have dead: "dead_volunteers (46 * 10 ^ 9) wit_serving = [(7, Some ?a)]"
    using wit_volunteer_alive
    by (simp add: dead_volunteers_def wit_serving_map hm_values_def set_assignment_def is_alive_iff)
      (simp add: wit_volunteer_def fresh_volunteer_def)
  have node: "\<forall>v. hm_get (volunteers wit_serving) 7 = Some v \<longrightarrow> hostname (info v) = hostname (er_info (e_req wit_job))"
    by (simp add: wit_serving_map hm_get_def set_assignment_def wit_job_def wit_volunteer_def fresh_volunteer_def)
  have name: "hostname (er_info (e_req wit_job)) \<noteq> []" by (simp add: wit_job_def wit_req_def)
  have queue: "pending_services wit_serving = []"
    using wit_node_map(2) wit_pick
    by (simp add: wit_serving_def register_service_def register_with_def register_commit_def on_host_eq frame Let_def
        split: option.split sum.split)
  from eviction_race [OF wit_serving_reachable wit_ok dead node name] obtain z z' w where
    "sys_reachable sim_host wit z" "(sys_step sim_host wit)\<^sup>*\<^sup>* z z'" "tasks z' = []"
    "hm_get (volunteers (registrar z')) 7 = Some w" "assigned_service w = Some ?a"
    "pending_services (registrar z') = pending_services wit_serving @ [pending_of ?a (46 * 10 ^ 9)]" by blast
  with sys_reachable_steps [OF this(2,1)] queue show ?thesis
    by (intro exI [of _ z'] exI [of _ w]) (simp add: assignment_for_def pending_of_def wit_service_def)
qed

subsection \<open>A heartbeat and a disconnection\<close>

lemma beat_rest:
  "fst (run_task x k (Beat_row hb v) s) = Some (200, Heartbeat_response (payload (assigned_service v)))"
  "volunteers (snd (run_task x k (Beat_row hb v) s)) = volunteers s"
  "asg_table (snd (run_task x k (Beat_row hb v) s)) = asg_table s"
  "db_faults s = [] \<Longrightarrow> db_faults (snd (run_task x k (Beat_row hb v) s)) = []"
  "db_faults s = [] \<Longrightarrow> vol_table (snd (run_task x k (Beat_row hb v) s)) =
     tbl_replace (uuid_text k (vid v)) (row_of k v) (vol_table s)"
  by (auto simp: run_simps(14-16) on_host_eq beat_answer_def Let_def frame no_fault_db split: sum.split)

text \<open>
  A row written after its volunteer has left: the next start finds it again. Only the tables matter to
  a restart, so it is the restart of a registrar that still has the volunteer.
\<close>

lemma restart_resurrects:
  assumes "reg_inv k s" "crates_ok k" "hm_get (volunteers s) i = Some v" "no_nan w"
    and "vid w = i" "assigned_service w = assigned_service v" "hostname (info w) = hostname (info v)"
    and "vol_table s' = tbl_replace (uuid_text k i) (row_of k w) (tbl_delete (uuid_text k i) (vol_table s))"
    and "asg_table s' = asg_table s" "db_faults s' = []"
  shows "hm_get (volunteers (crash_restart x k now s')) i = Some (survived now w)"
proof -
  note inv = reg_invD [OF assms(1)]
  let ?m = "hm_remove i (volunteers s)"
  let ?t = "s'\<lparr>volunteers := hm_insert i w ?m\<rparr>"
  have valid: "hm_valid ?m" using inv(4) by (simp add: store_simps)
  have "mirror k ?m (tbl_delete (uuid_text k i) (vol_table s)) (asg_table s)"
    by (rule mirror_drop(1) [OF inv(2) assms(2) inv(4)])
  from mirror_write [OF this assms(2) valid, of i w] mirror_tables(3) [OF inv(2) assms(3)] assms(6)
  have "mirror k (hm_insert i w ?m) (vol_table s') (asg_table s')" by (simp add: assms(8,9))
  moreover have "map_inv (hm_insert i w ?m)"
    unfolding map_inv_def
  proof (intro conjI allI impI)
    fix j u assume "hm_get (hm_insert i w ?m) j = Some u"
    then show "vid u = j" "no_nan u"
      using assms(4,5) map_inv_get [OF inv(1), of j u] by (auto simp: store_simps valid inv(4) split: if_splits)
  next
    fix j l u u'
    assume "hm_get (hm_insert i w ?m) j = Some u" "hm_get (hm_insert i w ?m) l = Some u'"
      "hostname (info u) = hostname (info u')" "hostname (info u) \<noteq> []"
    then show "j = l"
      using map_inv_unique [OF inv(1)] assms(3,7) by (auto simp: store_simps valid inv(4) split: if_splits)
  qed (simp add: store_simps valid)
  ultimately have t: "reg_inv k ?t" using assms(10) by (simp add: reg_inv_def)
  have "crash_restart x k now s' = crash_restart x k now ?t" by (simp add: crash_restart_def)
  with restart_outcome(1) [OF t assms(2), of x now i] valid show ?thesis by (simp add: store_simps)
qed

text \<open>A disconnection can be undone by a heartbeat it overtakes: both are answered 200 and the volunteer
  has left the map, but the heartbeat has written its row again, so the next start of the registrar
  brings the volunteer back, with its service.\<close>

theorem disconnect_undone:
  assumes "reachable x k s" and "crates_ok k" and "json_metrics hb"
    and "hm_get (volunteers s) (hb_volunteer_id hb) = Some v" and "uuid_parse k id_str = Some (hb_volunteer_id hb)"
  shows "\<exists>z z'. sys_reachable x k z \<and> registrar z = s \<and> tasks z = [] \<and>
    (sys_step x k)\<^sup>*\<^sup>* z z' \<and> tasks z' = [] \<and>
    answers z' = answers z @ [(200, Status ''disconnected''), (200, Heartbeat_response (payload (assigned_service v)))] \<and>
    hm_get (volunteers (registrar z')) (hb_volunteer_id hb) = None \<and>
    (\<exists>w. hm_get (volunteers (crash_restart x k t (registrar z'))) (hb_volunteer_id hb) = Some w \<and>
       info w = info v \<and> assigned_service w = assigned_service v)"
proof -
  let ?i = "hb_volunteer_id hb" and ?w = "beat now hb v"
  have inv: "reg_inv k s" by (rule reachable_inv [OF assms(1,2)])
  note invs = reg_invD [OF inv]
  have w: "vid ?w = ?i" "no_nan ?w" "assigned_service ?w = assigned_service v" "info ?w = info v"
    using map_inv_get [OF invs(1) assms(4)] assms(3) by (simp_all add: beat_def no_nan_def json_metrics_def)
  obtain z where z: "sys_reachable x k z" "registrar z = s" "tasks z = []" using reachable_quiet [OF assms(1)] by blast
  let ?s1 = "s\<lparr>volunteers := hm_insert ?i ?w (volunteers s)\<rparr>"
  define s2 where "s2 = snd (disconnect x k id_str ?s1)"
  define s3 where "s3 = snd (run_task x k (Beat_row hb ?w) s2)"
  have get: "hm_get (volunteers ?s1) ?i = Some ?w" "hm_valid (volunteers ?s1)"
    using invs(4) by (simp_all add: store_simps)
  have dis: "fst (disconnect x k id_str ?s1) = (200, Status ''disconnected'')"
    using get assms(5) by (simp add: disconnect_def Let_def)
  have s2: "volunteers s2 = hm_remove ?i (volunteers ?s1)" "vol_table s2 = tbl_delete (uuid_text k ?i) (vol_table s)"
    "asg_table s2 = asg_table s" "db_faults s2 = []"
    using get assms(5) invs(3) by (simp_all add: s2_def disconnect_def Let_def frame no_fault_db)
  have 1: "sys_step x k z (sys_at z s [Beat_map now hb] (answers z))"
    using at_arrive [of "Beat_map now hb" "[]" x k z s "answers z"] by (simp add: at_self z)
  have 2: "sys_step x k (sys_at z s [Beat_map now hb] (answers z)) (sys_at z ?s1 [Beat_row hb ?w] (answers z))"
    using at_go [of 0 "[Beat_map now hb]" x k s] assms(4) by simp
  have 3: "sys_step x k (sys_at z ?s1 [Beat_row hb ?w] (answers z)) (sys_at z ?s1 [Beat_row hb ?w, Leave_map id_str] (answers z))"
    using at_arrive [of "Leave_map id_str" "[Beat_row hb ?w]" x k z ?s1] by simp
  have 4: "(sys_step x k)\<^sup>*\<^sup>* (sys_at z ?s1 [Beat_row hb ?w, Leave_map id_str] (answers z))
      (sys_at z s2 [Beat_row hb ?w] (answers z @ [(200, Status ''disconnected'')]))"
    using at_run [of 1 "[Beat_row hb ?w, Leave_map id_str]" x k ?s1 "Some (200, Status ''disconnected'')" s2 z "answers z"]
    by (simp add: run_leave dis s2_def answered_def prod_eq_iff)
  let ?as = "answers z @ [(200, Status ''disconnected''), (200, Heartbeat_response (payload (assigned_service v)))]"
  have 5: "(sys_step x k)\<^sup>*\<^sup>* (sys_at z s2 [Beat_row hb ?w] (answers z @ [(200, Status ''disconnected'')])) (sys_at z s3 [] ?as)"
  proof -
    have "run_task x k (Beat_row hb ?w) s2 = (Some (200, Heartbeat_response (payload (assigned_service v))), s3)"
      by (simp add: prod_eq_iff s3_def beat_rest(1) w)
    then show ?thesis using at_run [of 0 "[Beat_row hb ?w]" x k s2 _ s3 z "answers z @ [(200, Status ''disconnected'')]"]
      by (simp add: answered_def)
  qed
  from 1 2 3 have "(sys_step x k)\<^sup>*\<^sup>* z (sys_at z ?s1 [Beat_row hb ?w, Leave_map id_str] (answers z))" by simp
  then have steps: "(sys_step x k)\<^sup>*\<^sup>* z (sys_at z s3 [] ?as)" by (rule rtranclp_trans [OF rtranclp_trans [OF _ 4] 5])
  have gone: "hm_get (volunteers s3) ?i = None" using get(2) by (simp add: s3_def beat_rest s2 store_simps)
  have "hm_get (volunteers (crash_restart x k t s3)) ?i = Some (survived t ?w)"
    by (rule restart_resurrects [OF inv assms(2,4) w(2,1,3)])
      (simp_all add: w s3_def beat_rest s2)
  with gone z steps show ?thesis
    by (intro exI [of _ z] exI [of _ "sys_at z s3 [] ?as"]) (simp add: survived_def w)
qed

theorem disconnect_undone_witness:
  "\<exists>z w. sys_reachable sim_host wit z \<and> hm_get (volunteers (registrar z)) 7 = None \<and>
     hm_get (volunteers (crash_restart sim_host wit 99 (registrar z))) 7 = Some w"
proof -
  let ?hb = "\<lparr>hb_volunteer_id = 7, hb_cpu_pct = Fin 1, hb_mem_pct = Fin 1, hb_load_avg = Fin 1,
      hb_active_requests = 0, hb_service_running = None, hb_service_image = None\<rparr>"
  have "json_metrics ?hb" "uuid_parse wit (show_nat 7) = Some (hb_volunteer_id ?hb)"
    "hm_get (volunteers wit_node) (hb_volunteer_id ?hb) = Some wit_volunteer"
    by (simp_all add: json_metrics_def wit_def wit_node_map hm_get_def)
  from disconnect_undone [OF wit_node_reachable wit_ok this(1,3,2), where t = 99] obtain z z' where
    "sys_reachable sim_host wit z" "(sys_step sim_host wit)\<^sup>*\<^sup>* z z'"
    "hm_get (volunteers (registrar z')) 7 = None"
    "\<exists>w. hm_get (volunteers (crash_restart sim_host wit 99 (registrar z'))) 7 = Some w" by auto
  with sys_reachable_steps [OF this(2,1)] show ?thesis by blast
qed

subsection \<open>A client that goes away\<close>

lemma unknown_lookup:
  assumes "reg_inv k s" "\<forall>i v. hm_get (volunteers s) i = Some v \<longrightarrow> hostname (info v) \<noteq> hostname (er_info req)"
  shows "enroll_lookup k req s = ((None, None), s)"
proof -
  note inv = reg_invD [OF assms(1)]
  have "List.find (\<lambda>v. hostname (info v) = hostname (er_info req)) (hm_values (volunteers s)) = None"
    using assms(2) by (auto simp: find_None_iff hm_values_iff inv(4))
  then show ?thesis using lookup_mirror [OF inv(2,1,3)] by (simp add: known_def)
qed

text \<open>C26 A service that is waiting can be lost when the enrollment that took it from the queue is abandoned:
  from every state of the sequential registrar with a service in the queue, for every enrollment of a node
  with a name that no volunteer has, there is a run of that enrollment, cut off right after it took
  the service (the server drops the handler of a client that has closed its connection), after which
  the service is neither assigned nor queued, nothing else has changed and nobody is answered.\<close>

theorem abandoned_enrollment_loses_service:
  fixes j :: enrolling
  assumes "reachable x k s" and "crates_ok k" and "pending_services s = p # ps"
    and "\<forall>i v. hm_get (volunteers s) i = Some v \<longrightarrow> hostname (info v) \<noteq> hostname (er_info (e_req j))"
  shows "\<exists>z z'. sys_reachable x k z \<and> registrar z = s \<and> tasks z = [] \<and>
    (sys_step x k)\<^sup>*\<^sup>* z z' \<and> tasks z' = [] \<and> answers z' = answers z \<and>
    registrar z' = s\<lparr>pending_services := ps\<rparr> \<and>
    services s = services (registrar z') + {#pending_job p#}"
proof -
  let ?n = "hostname (er_info (e_req j))"
  have inv: "reg_inv k s" by (rule reachable_inv [OF assms(1,2)])
  obtain z where z: "sys_reachable x k z" "registrar z = s" "tasks z = []" using reachable_quiet [OF assms(1)] by blast
  have look: "List.find (\<lambda>v. hostname (info v) = ?n) (hm_values (volunteers s)) = None"
    using assms(4) by (auto simp: find_None_iff hm_values_iff reg_invD(4) [OF inv])
  have row: "db_find_by_hostname k ?n s = (None, s)" if "?n \<noteq> []"
    using unknown_lookup [OF inv assms(4)] that look
    by (auto simp: prod_eq_iff enroll_lookup_def find_existing_def find_assignment_def split_beta split: option.splits prod.splits)
  have 1: "sys_step x k z (sys_at z s [Enroll_memory j] (answers z))"
    using at_arrive [of "Enroll_memory j" "[]" x k z s "answers z"] by (simp add: at_self z)
  have 2: "(sys_step x k)\<^sup>*\<^sup>* (sys_at z s [Enroll_memory j] (answers z)) (sys_at z s [Enroll_pop j (e_new j)] (answers z))"
  proof (cases "?n = []")
    case True
    then show ?thesis using at_go [of 0 "[Enroll_memory j]" x k s] by (intro r_into_rtranclp) simp
  next
    case False
    have "sys_step x k (sys_at z s [Enroll_memory j] (answers z)) (sys_at z s [Enroll_name j] (answers z))"
      using at_go [of 0 "[Enroll_memory j]" x k s] False look by simp
    moreover have "sys_step x k (sys_at z s [Enroll_name j] (answers z)) (sys_at z s [Enroll_pop j (e_new j)] (answers z))"
      using at_go [of 0 "[Enroll_name j]" x k s] row [OF False] by simp
    ultimately show ?thesis by simp
  qed
  let ?s1 = "s\<lparr>pending_services := ps\<rparr>"
  have 3: "sys_step x k (sys_at z s [Enroll_pop j (e_new j)] (answers z)) (sys_at z ?s1 [Enroll_assign j (e_new j) p] (answers z))"
    using at_go [of 0 "[Enroll_pop j (e_new j)]" x k s] assms(3) by simp
  have 4: "sys_step x k (sys_at z ?s1 [Enroll_assign j (e_new j) p] (answers z)) (sys_at z ?s1 [] (answers z))"
    using at_cancel [of 0 "[Enroll_assign j (e_new j) p]" x k z ?s1] by simp
  from 1 2 have "(sys_step x k)\<^sup>*\<^sup>* z (sys_at z s [Enroll_pop j (e_new j)] (answers z))"
    by (rule converse_rtranclp_into_rtranclp)
  with 3 4 have "(sys_step x k)\<^sup>*\<^sup>* z (sys_at z ?s1 [] (answers z))" by simp
  with z assms(3) show ?thesis
    by (intro exI [of _ z] exI [of _ "sys_at z ?s1 [] (answers z)"]) (simp add: services_def)
qed

theorem abandoned_enrollment_loses_service_witness:
  "\<exists>z. sys_reachable sim_host wit z \<and> tasks z = [] \<and> services (registrar z) = {#}"
proof -
  obtain p where p: "pending_services wit_queue = [p]" "volunteers wit_queue = []"
    using wit_queue_state by auto
  then have none: "\<forall>i v. hm_get (volunteers wit_queue) i = Some v \<longrightarrow> hostname (info v) \<noteq> hostname (er_info (e_req wit_job))"
    by simp
  from abandoned_enrollment_loses_service [OF wit_queue_reachable wit_ok p(1) none] obtain z z' where
    "sys_reachable sim_host wit z" "(sys_step sim_host wit)\<^sup>*\<^sup>* z z'" "tasks z' = []"
    "registrar z' = wit_queue\<lparr>pending_services := []\<rparr>" by blast
  with sys_reachable_steps [OF this(2,1)] p(2) show ?thesis
    by (intro exI [of _ z']) (simp add: services_def placed_def)
qed

end
