(* ===== verification/Registry.thy ===== *)
theory Registry
  imports Registrar_Races
begin

text \<open>
  What the registrar promises, without the database, HAProxy, the clock and the metrics: a registry of
  nodes, each with a name, an address and at most one job, and a queue of jobs. Eight guarded events
  change it. Every handler of the registrar performs a short sequence of them.
\<close>

subsection \<open>The registry\<close>

record node =
  n_name :: string
  n_addr :: string
  n_job :: "job option"

record registry =
  nodes :: "uuid \<Rightarrow> node option"
  waiting :: "job list"

datatype event =
  Join uuid string string  \<comment> \<open>a new node, its name and address\<close>
| Move uuid string
| Take uuid  \<comment> \<open>a node gets the first job of the queue\<close>
| Place uuid job
| Queue job
| Leave uuid
| Evict uuid
| Restart

text \<open>An event whose guard fails cannot happen. A name is unique, unless it is empty.\<close>

definition name_free :: "string \<Rightarrow> registry \<Rightarrow> bool" where
  "name_free n r \<longleftrightarrow> n = [] \<or> (\<forall>i v. nodes r i = Some v \<longrightarrow> n_name v \<noteq> n)"

fun perform :: "event \<Rightarrow> registry \<Rightarrow> registry option" where
  "perform (Join i n addr) r =
     (if nodes r i = None \<and> name_free n r
      then Some (r\<lparr>nodes := (nodes r)(i \<mapsto> \<lparr>n_name = n, n_addr = addr, n_job = None\<rparr>)\<rparr>) else None)"
| "perform (Move i addr) r =
     (case nodes r i of Some v \<Rightarrow> Some (r\<lparr>nodes := (nodes r)(i \<mapsto> v\<lparr>n_addr := addr\<rparr>)\<rparr>) | None \<Rightarrow> None)"
| "perform (Take i) r =
     (case (nodes r i, waiting r) of
        (Some v, j # js) \<Rightarrow>
          if n_job v = None then Some (r\<lparr>nodes := (nodes r)(i \<mapsto> v\<lparr>n_job := Some j\<rparr>), waiting := js\<rparr>) else None
      | _ \<Rightarrow> None)"
| "perform (Place i j) r =
     (case nodes r i of
        Some v \<Rightarrow> if n_job v = None then Some (r\<lparr>nodes := (nodes r)(i \<mapsto> v\<lparr>n_job := Some j\<rparr>)\<rparr>) else None
      | None \<Rightarrow> None)"
| "perform (Queue j) r = Some (r\<lparr>waiting := waiting r @ [j]\<rparr>)"
| "perform (Leave i) r = (if nodes r i = None then None else Some (r\<lparr>nodes := (nodes r)(i := None)\<rparr>))"
| "perform (Evict i) r =
     (case nodes r i of
        Some v \<Rightarrow> Some (r\<lparr>nodes := (nodes r)(i := None),
          waiting := waiting r @ (case n_job v of Some j \<Rightarrow> [j] | None \<Rightarrow> [])\<rparr>)
      | None \<Rightarrow> None)"
| "perform Restart r = Some (r\<lparr>waiting := []\<rparr>)"

fun performs :: "event list \<Rightarrow> registry \<Rightarrow> registry option" where
  "performs [] r = Some r"
| "performs (e # es) r = Option.bind (perform e r) (performs es)"

text \<open>The registry of a registrar.\<close>

definition node_of :: "volunteer_state \<Rightarrow> node" where
  "node_of v = \<lparr>n_name = hostname (info v), n_addr = service_addr (info v), n_job = map_option job (assigned_service v)\<rparr>"

definition registry_of :: "'h reg \<Rightarrow> registry" where
  "registry_of s = \<lparr>nodes = (\<lambda>i. map_option node_of (hm_get (volunteers s) i)),
     waiting = map pending_job (pending_services s)\<rparr>"

subsection \<open>Names stay unique\<close>

definition names_unique :: "registry \<Rightarrow> bool" where
  "names_unique r \<longleftrightarrow> (\<forall>i j v w. nodes r i = Some v \<longrightarrow> nodes r j = Some w \<longrightarrow> n_name v = n_name w \<longrightarrow>
     n_name v \<noteq> [] \<longrightarrow> i = j)"

lemma names_uniqueI:
  "(\<And>i j v w. nodes r i = Some v \<Longrightarrow> nodes r j = Some w \<Longrightarrow> n_name v = n_name w \<Longrightarrow> n_name v \<noteq> [] \<Longrightarrow> i = j)
    \<Longrightarrow> names_unique r"
  unfolding names_unique_def by blast

lemma names_uniqueD:
  "names_unique r \<Longrightarrow> nodes r i = Some v \<Longrightarrow> nodes r j = Some w \<Longrightarrow> n_name v = n_name w \<Longrightarrow> n_name v \<noteq> [] \<Longrightarrow> i = j"
  unfolding names_unique_def by blast

lemma name_freeD: "name_free n r \<Longrightarrow> n \<noteq> [] \<Longrightarrow> nodes r i = Some v \<Longrightarrow> n_name v \<noteq> n"
  unfolding name_free_def by blast

text \<open>Only \<open>Join\<close> brings a name in: every other event keeps the names of the nodes it leaves.\<close>

lemma perform_names_kept:
  assumes "perform e r = Some r'" "\<And>i n a. e \<noteq> Join i n a" "nodes r' i = Some v'"
  shows "\<exists>v. nodes r i = Some v \<and> n_name v = n_name v'"
  using assms by (cases e) (auto split: if_splits option.splits list.splits)

lemma perform_names:
  assumes "perform e r = Some r'" "names_unique r"
  shows "names_unique r'"
proof (cases "\<exists>i n a. e = Join i n a")
  case True
  then obtain i n a where e: "e = Join i n a" by blast
  with assms(1) have free: "name_free n r"
    and r': "nodes r' = (nodes r)(i \<mapsto> \<lparr>n_name = n, n_addr = a, n_job = None\<rparr>)"
    by (auto split: if_splits)
  show ?thesis
    by (rule names_uniqueI)
      (auto simp: r' split: if_splits dest: names_uniqueD [OF assms(2)],
        use free in \<open>auto simp: name_free_def\<close>)
next
  case False
  then have kept: "\<And>i v'. nodes r' i = Some v' \<Longrightarrow> \<exists>v. nodes r i = Some v \<and> n_name v = n_name v'"
    using perform_names_kept [OF assms(1)] by blast
  show ?thesis
  proof (rule names_uniqueI)
    fix i j v w
    assume h: "nodes r' i = Some v" "nodes r' j = Some w" "n_name v = n_name w" "n_name v \<noteq> []"
    from kept [OF h(1)] kept [OF h(2)] h(3,4) names_uniqueD [OF assms(2), of i _ j] show "i = j" by metis
  qed
qed

lemma performs_names: "performs es r = Some r' \<Longrightarrow> names_unique r \<Longrightarrow> names_unique r'"
  by (induction es arbitrary: r) (auto simp: bind_eq_Some_conv dest: perform_names simp del: perform.simps)

subsection \<open>Simulation\<close>

lemma registry_fields [simp]:
  "nodes (registry_of s) i = map_option node_of (hm_get (volunteers s) i)"
  "waiting (registry_of s) = map pending_job (pending_services s)"
  by (simp_all add: registry_of_def)

lemma registry_eqI:
  assumes "\<And>i. nodes r i = map_option node_of (hm_get (volunteers s) i)"
    and "waiting r = map pending_job (pending_services s)"
  shows "r = registry_of s"
  using assms by (cases r) (auto simp: registry_of_def)

text \<open>A handler that writes one volunteer: the entry after it decides the registry after it.\<close>

lemma registry_insert:
  assumes "hm_valid (volunteers s)" "volunteers t = hm_insert i v (volunteers s)"
    and "map pending_job (pending_services t) = q"
  shows "registry_of t = (registry_of s)\<lparr>nodes := (nodes (registry_of s))(i \<mapsto> node_of v), waiting := q\<rparr>"
  using assms by (auto simp: registry_of_def store_simps fun_eq_iff)

lemma registry_remove:
  assumes "hm_valid (volunteers s)" "volunteers t = hm_remove i (volunteers s)"
    and "map pending_job (pending_services t) = q"
  shows "registry_of t = (registry_of s)\<lparr>nodes := (nodes (registry_of s))(i := None), waiting := q\<rparr>"
  using assms by (auto simp: registry_of_def store_simps fun_eq_iff)

lemma registry_same: "volunteers t = volunteers s \<Longrightarrow> pending_services t = pending_services s \<Longrightarrow> registry_of t = registry_of s"
  by (simp add: registry_of_def)

text \<open>
  An enrollment answered with the identity \<open>i\<close>: a node that is not there joins, under the identity made
  for this request; one that is there moves. A node without a job takes one if the answer carries one.
\<close>

definition enroll_events :: "uuid \<Rightarrow> uuid \<Rightarrow> string \<Rightarrow> string \<Rightarrow> bool \<Rightarrow> registry \<Rightarrow> event list" where
  "enroll_events new i name addr given r =
     (case nodes r i of
        None \<Rightarrow> Join new name addr # (if given then [Take new] else [])
      | Some v \<Rightarrow>
          if n_name v = name then Move i addr # (if given \<and> n_job v = None then [Take i] else []) else [])"

lemma simulates_enroll:
  assumes "reg_inv k s" "fresh_id k n s"
  shows "\<exists>i p. fst (enroll x k e now n req s) = (201, Enroll_response (uuid_text k i) HEARTBEAT_INTERVAL_SECS p) \<and>
    performs (enroll_events n i (hostname (er_info req)) (tunnel_addr e (tunnel_public_port req)) (p \<noteq> None) (registry_of s))
      (registry_of s) = Some (registry_of (snd (enroll x k e now n req s)))"
proof -
  note inv = reg_invD [OF assms(1)]
  let ?n = "hostname (er_info req)" and ?addr = "tunnel_addr e (tunnel_public_port req)"
  let ?f = "known ?n (volunteers s)"
  let ?i = "enroll_id n ?f" and ?v = "enrolled x k e now n req ?f s" and ?t = "snd (enroll_finish x k e now n req ?f s)"
  let ?q = "map pending_job (pending_services ?t)"
  have t: "registry_of ?t = (registry_of s)\<lparr>nodes := (nodes (registry_of s))(?i \<mapsto> node_of ?v), waiting := ?q\<rparr>"
    by (rule registry_insert [OF inv(4)]) (simp_all add: frame)
  have v: "node_of ?v = \<lparr>n_name = ?n, n_addr = ?addr, n_job = map_option job (fst (enroll_job x k e now n req ?f s))\<rparr>"
    by (simp add: node_of_def enrolled_def fresh_volunteer_def)
  let ?R = "registry_of s"
  let ?R1 = "?R\<lparr>nodes := (nodes ?R)(?i \<mapsto> \<lparr>n_name = ?n, n_addr = ?addr, n_job = map_option job (snd ?f)\<rparr>)\<rparr>"
  have job: "job (assignment_of p now) = pending_job p" for p
    by (simp add: job_def pending_job_def assignment_of_def)
  define given where "given \<longleftrightarrow> payload (fst (enroll_job x k e now n req ?f s)) \<noteq> None"
  have last: "performs (if given \<and> snd ?f = None then [Take ?i] else []) ?R1 = Some (registry_of ?t)"
  proof (cases "snd ?f")
    case (Some a)
    then have "fst (enroll_job x k e now n req ?f s) = Some a" "pending_services ?t = pending_services s"
      by (simp_all add: enroll_job_def Let_def frame)
    with Some t v show ?thesis by simp
  next
    case None
    then have ej: "enroll_job x k e now n req ?f s = take_pending x k now ?i ?addr s" by (simp add: enroll_job_def Let_def)
    show ?thesis
    proof (rule take_pending_cases [of x k now ?i ?addr s])
      assume "fst (take_pending x k now ?i ?addr s) = None"
        "pending_services (snd (take_pending x k now ?i ?addr s)) = pending_services s"
      with None t v ej show ?thesis by (simp add: frame payload_def given_def)
    next
      fix p ps
      assume "pending_services s = p # ps" "fst (take_pending x k now ?i ?addr s) = Some (assignment_of p now)"
        "pending_services (snd (take_pending x k now ?i ?addr s)) = ps"
      with None t v ej job show ?thesis by (simp add: frame payload_def given_def)
    qed
  qed
  have first: "performs (e0 # (if given \<and> snd ?f = None then [Take ?i] else [])) ?R = Some (registry_of ?t)"
    if "perform e0 ?R = Some ?R1" for e0
    using that last by (simp del: perform.simps)
  have answer: "fst (enroll_finish x k e now n req ?f s) =
      (201, Enroll_response (uuid_text k ?i) HEARTBEAT_INTERVAL_SECS (payload (fst (enroll_job x k e now n req ?f s))))"
    by (simp add: enroll_finish_response enrolled_def fresh_volunteer_def)
  have "performs (enroll_events n ?i ?n ?addr given ?R) ?R = Some (registry_of ?t)"
  proof (cases "fst ?f")
    case None
    then have f: "?f = (None, None)" using known_None [of ?n "volunteers s" "snd ?f"] by (cases ?f) simp
    have absent: "nodes ?R ?i = None" using assms(2) None by (simp add: enroll_id_def fresh_id_def)
    moreover have "name_free ?n ?R"
      using f by (auto simp: name_free_def known_def node_of_def find_None_iff hm_values_iff inv(4) split: if_splits option.splits)
    ultimately have "perform (Join ?i ?n ?addr) ?R = Some ?R1" by (simp add: f)
    from first [OF this] absent None f show ?thesis
      by (cases given) (simp_all add: enroll_events_def enroll_id_def del: perform.simps performs.simps)
  next
    case (Some j)
    then have f: "?f = (Some j, snd ?f)" by (cases ?f) simp
    from known_Some [OF inv(1) this] obtain w where
      w: "hm_get (volunteers s) j = Some w" "assigned_service w = snd ?f" "hostname (info w) = ?n" by blast
    have "perform (Move ?i ?addr) ?R = Some ?R1" using w Some by (simp add: enroll_id_def node_of_def)
    from first [OF this] w Some show ?thesis
      by (cases given; cases "snd ?f") (simp_all add: enroll_events_def enroll_id_def node_of_def del: perform.simps performs.simps)
  qed
  with answer show ?thesis unfolding enroll_known [OF assms(1)] given_def by blast
qed

lemma simulates_heartbeat:
  assumes "reg_inv k s"
  shows "registry_of (snd (heartbeat x k now hb s)) = registry_of s"
proof (cases "hm_get (volunteers s) (hb_volunteer_id hb)")
  case (Some v)
  then show ?thesis
    using reg_invD(4) [OF assms]
    by (auto simp: heartbeat_def Let_def registry_of_def frame store_simps fun_eq_iff node_of_def beat_def)
qed (simp add: heartbeat_def)

text \<open>What the registrar does with a request that names a node: the answer's status and the events.\<close>

definition named_event :: "crates \<Rightarrow> string \<Rightarrow> (uuid \<Rightarrow> event) \<Rightarrow> registry \<Rightarrow> nat \<times> event list" where
  "named_event k id_str ev r =
     (case uuid_parse k id_str of
        None \<Rightarrow> (400, [])
      | Some i \<Rightarrow> if nodes r i = None then (404, []) else (200, [ev i]))"

lemma simulates_disconnect:
  assumes "reg_inv k s"
  shows "\<exists>code es. named_event k id_str Leave (registry_of s) = (code, es) \<and>
    fst (fst (disconnect x k id_str s)) = code \<and>
    performs es (registry_of s) = Some (registry_of (snd (disconnect x k id_str s)))"
proof (cases "\<exists>i v. uuid_parse k id_str = Some i \<and> hm_get (volunteers s) i = Some v")
  case True
  then obtain i v where i: "uuid_parse k id_str = Some i" "hm_get (volunteers s) i = Some v" by blast
  have "registry_of (snd (disconnect x k id_str s)) =
      (registry_of s)\<lparr>nodes := (nodes (registry_of s))(i := None), waiting := map pending_job (pending_services s)\<rparr>"
    by (rule registry_remove [OF reg_invD(4) [OF assms]]) (simp_all add: disconnect_def i Let_def frame)
  moreover have "fst (fst (disconnect x k id_str s)) = 200" by (simp add: disconnect_def i Let_def)
  ultimately show ?thesis using i by (simp add: named_event_def)
next
  case False
  then show ?thesis
    by (cases "uuid_parse k id_str")
      (auto simp: named_event_def disconnect_def Let_def hm_remove_absent invalid_id_def not_found_def)
qed

lemma simulates_move:
  assumes "reg_inv k s"
  shows "\<exists>code es. named_event k id_str (\<lambda>i. Move i (tunnel_addr e port)) (registry_of s) = (code, es) \<and>
    fst (fst (update_tunnel_port x k e id_str port s)) = code \<and>
    performs es (registry_of s) = Some (registry_of (snd (update_tunnel_port x k e id_str port s)))"
proof (cases "\<exists>i v. uuid_parse k id_str = Some i \<and> hm_get (volunteers s) i = Some v")
  case True
  then obtain i v where i: "uuid_parse k id_str = Some i" "hm_get (volunteers s) i = Some v" by blast
  have "registry_of (snd (update_tunnel_port x k e id_str port s)) =
      (registry_of s)\<lparr>nodes := (nodes (registry_of s))(i \<mapsto> node_of (v\<lparr>info := (info v)\<lparr>service_addr := tunnel_addr e port\<rparr>\<rparr>)),
        waiting := map pending_job (pending_services s)\<rparr>"
    by (rule registry_insert [OF reg_invD(4) [OF assms]]) (simp_all add: update_tunnel_port_def i Let_def frame)
  moreover have "fst (fst (update_tunnel_port x k e id_str port s)) = 200"
    by (simp add: update_tunnel_port_def i Let_def)
  ultimately show ?thesis using i by (simp add: named_event_def node_of_def)
next
  case False
  then show ?thesis
    by (cases "uuid_parse k id_str")
      (auto simp: named_event_def update_tunnel_port_def Let_def invalid_id_def not_found_def)
qed

text \<open>A registration: the events are those of its answer, and the answer is that of the free node picked.\<close>

definition register_event :: "'h host \<Rightarrow> crates \<Rightarrow> int \<Rightarrow> register_request \<Rightarrow> 'h reg \<Rightarrow> (nat \<times> string option) \<times> event list" where
  "register_event x k now rq s =
     (case register_pick now s of
        None \<Rightarrow> ((201, None), [Queue (request_job rq)])
      | Some v \<Rightarrow>
          if isl (fst (assign_service x (rq_name rq) (rq_domain rq) (vid v) (service_addr (info v)) (host_state s)))
          then ((500, None), [])
          else ((201, Some (uuid_text k (vid v))), [Place (vid v) (request_job rq)]))"

fun told_node :: "response \<Rightarrow> nat \<times> string option" where
  "told_node (code, Register_response _ _ node) = (code, node)"
| "told_node (code, _) = (code, None)"

lemma simulates_register:
  assumes "reg_inv k s"
  shows "\<exists>told es. register_event x k now rq s = (told, es) \<and>
    told_node (fst (register_service x k now now' rq s)) = told \<and>
    performs es (registry_of s) = Some (registry_of (snd (register_service x k now now' rq s)))"
proof (cases "register_pick now s")
  case None
  then show ?thesis
    by (simp add: register_event_def register_service_def register_with_def registry_of_def push_back_def
        pending_job_def request_job_def)
next
  case (Some v)
  note inv = reg_invD [OF assms]
  have v: "hm_get (volunteers s) (vid v) = Some v" "assigned_service v = None"
    using register_pick_Some(1,3) [OF Some] by (simp_all add: map_inv_value [OF inv(1)])
  let ?t = "snd (register_service x k now now' rq s)"
  show ?thesis
  proof (cases "fst (assign_service x (rq_name rq) (rq_domain rq) (vid v) (service_addr (info v)) (host_state s))")
    case (Inl e)
    then show ?thesis
      by (simp add: register_event_def register_service_def register_with_def Some on_host_eq registry_of_def
          tunnel_addr_for_def)
  next
    case (Inr u)
    have "registry_of ?t = (registry_of s)\<lparr>nodes := (nodes (registry_of s))(vid v \<mapsto>
        node_of (set_assignment (assignment_for rq now') v)), waiting := map pending_job (pending_services s)\<rparr>"
      by (rule registry_insert [OF inv(4)])
        (simp_all add: register_service_def register_with_def register_commit_def Some on_host_eq Inr v Let_def frame
          tunnel_addr_for_def)
    with v have "performs [Place (vid v) (request_job rq)] (registry_of s) = Some (registry_of ?t)"
      by (simp add: node_of_def set_assignment_def job_def request_job_def assignment_for_def)
    moreover have "told_node (fst (register_service x k now now' rq s)) = (201, Some (uuid_text k (vid v)))"
      by (simp add: register_service_def register_with_def register_commit_def Some on_host_eq Inr Let_def
          tunnel_addr_for_def)
    ultimately show ?thesis using Some Inr by (simp add: register_event_def)
  qed
qed

lemma simulates_evict:
  assumes "hm_valid (volunteers s)" "hm_get (volunteers s) i = Some v" "assigned_service v = a"
  shows "perform (Evict i) (registry_of s) = Some (registry_of (evict x k now (i, a) s))"
proof -
  have "map pending_job (pending_services (evict x k now (i, a) s)) =
      map pending_job (pending_services s) @ (case a of Some b \<Rightarrow> [job b] | None \<Rightarrow> [])"
    by (simp add: evict_effect pending_of_def pending_job_def job_def split: option.split)
  from registry_remove [OF assms(1) evict_effect(1) [of x k now i a s] this] assms(2,3) show ?thesis
    by (simp add: node_of_def split: option.split)
qed

lemma simulates_evictions:
  assumes "hm_valid (volunteers s)" "distinct (map fst ds)"
    and "\<And>i a. (i, a) \<in> set ds \<Longrightarrow> \<exists>v. hm_get (volunteers s) i = Some v \<and> assigned_service v = a"
  shows "performs (map (\<lambda>d. Evict (fst d)) ds) (registry_of s) = Some (registry_of (fold (evict x k now) ds s))"
  using assms
proof (induction ds arbitrary: s)
  case (Cons d ds)
  obtain i a where d: "d = (i, a)" by (cases d)
  let ?s1 = "evict x k now (i, a) s"
  from Cons.prems(3) [of i a] d obtain v where v: "hm_get (volunteers s) i = Some v" "assigned_service v = a" by auto
  have "performs (map (\<lambda>d. Evict (fst d)) ds) (registry_of ?s1) = Some (registry_of (fold (evict x k now) ds ?s1))"
  proof (rule Cons.IH)
    show "hm_valid (volunteers ?s1)" using Cons.prems(1) by (simp add: evict_effect store_simps)
    fix j b assume "(j, b) \<in> set ds"
    moreover from this have "j \<noteq> i" using Cons.prems(2) d by (auto simp: image_iff)
    ultimately show "\<exists>v. hm_get (volunteers ?s1) j = Some v \<and> assigned_service v = b"
      using Cons.prems(1,3) by (auto simp: evict_effect store_simps)
  qed (use Cons.prems(2) in simp)
  with simulates_evict [OF Cons.prems(1) v, of x k now] d show ?case by (simp del: perform.simps)
qed simp

lemma simulates_tick:
  assumes "reg_inv k s"
  shows "performs (map (\<lambda>d. Evict (fst d)) (dead_volunteers now s)) (registry_of s) =
    Some (registry_of (churn_tick x k now s))"
proof -
  note inv = reg_invD [OF assms]
  have "performs (map (\<lambda>d. Evict (fst d)) (dead_volunteers now s)) (registry_of s) =
      Some (registry_of (fold (evict x k now) (dead_volunteers now s) s))"
    by (rule simulates_evictions [OF inv(4)]) (use dead_distinct [OF inv(1)] in auto)
  then show ?thesis by (simp add: churn_tick_def Let_def registry_of_def frame)
qed

lemma evictions_of_tick:
  assumes "reg_inv k s"
  shows "\<exists>is. distinct is \<and>
    set is = {i. \<exists>v. hm_get (volunteers s) i = Some v \<and> now - last_heartbeat v \<ge> 45 * 10 ^ 9} \<and>
    performs (map Evict is) (registry_of s) = Some (registry_of (churn_tick x k now s))"
proof (intro exI conjI)
  note inv = reg_invD [OF assms]
  show "distinct (map fst (dead_volunteers now s))" by (rule dead_distinct(1) [OF inv(1)])
  show "set (map fst (dead_volunteers now s)) =
      {i. \<exists>v. hm_get (volunteers s) i = Some v \<and> now - last_heartbeat v \<ge> 45 * 10 ^ 9}"
    using dead_distinct(2) [OF inv(1)] by (force simp: is_alive_iff)
  show "performs (map Evict (map fst (dead_volunteers now s))) (registry_of s) = Some (registry_of (churn_tick x k now s))"
    using simulates_tick [OF assms, of now x] by (simp add: comp_def)
qed

lemma node_survived: "node_of (survived now v) = node_of v"
  by (simp add: node_of_def survived_def)

lemma simulates_restart:
  assumes "reg_inv k s" "crates_ok k"
  shows "performs [Restart] (registry_of s) = Some (registry_of (crash_restart x k now s))"
proof -
  have "map_option node_of (map_option (survived now) z) = map_option node_of z" for z
    by (cases z) (simp_all add: node_survived)
  then show ?thesis
    using restart_outcome(1,2) [OF assms, of x now] by (simp add: registry_of_def fun_eq_iff)
qed

subsection \<open>The registrar refines the registry\<close>

definition empty_registry :: registry where
  "empty_registry = \<lparr>nodes = (\<lambda>_. None), waiting = []\<rparr>"

lemma performs_append:
  "performs es r = Some r1 \<Longrightarrow> performs fs r1 = q \<Longrightarrow> performs (es @ fs) r = q"
  by (induction es arbitrary: r) (auto simp: bind_eq_Some_conv simp del: perform.simps)

lemma boot_registry: "registry_of (start x k now (new_app [] [] [] h)) = empty_registry"
  unfolding start_empty by (simp add: registry_of_def empty_registry_def new_app_def hm_get_def)

lemma step_refines:
  assumes "reg_inv k s" "request_step x k s t"
  shows "\<exists>es. performs es (registry_of s) = Some (registry_of t)"
  using assms(2)
proof cases
  case (enroll n e now req)
  with simulates_enroll [OF assms(1), of n x e now req] show ?thesis by blast
next
  case (heartbeat hb now)
  then show ?thesis using simulates_heartbeat [OF assms(1), of x now hb] by (intro exI [of _ "[]"]) simp
next
  case (disconnect id_str)
  with simulates_disconnect [OF assms(1), of id_str x] show ?thesis by blast
next
  case (move e id_str port)
  with simulates_move [OF assms(1), of id_str e port x] show ?thesis by blast
next
  case (register now now' rq)
  with simulates_register [OF assms(1), of x now rq now'] show ?thesis by blast
next
  case (tick now)
  with simulates_tick [OF assms(1), of now x] show ?thesis by blast
next
  case (outside h)
  then show ?thesis by (intro exI [of _ "[]"]) (simp add: registry_of_def)
qed

lemma reachable_history:
  assumes "reachable x k s" "crates_ok k"
  shows "\<exists>es. performs es empty_registry = Some (registry_of s)"
  using assms(1)
proof (induction rule: reachable.induct)
  case (boot now h)
  show ?case by (intro exI [of _ "[]"]) (simp add: boot_registry)
next
  case (request s t)
  with step_refines [OF reachable_inv [OF request.hyps(1) assms(2)]] show ?case by (blast intro: performs_append)
next
  case (restart s now)
  with simulates_restart [OF reachable_inv [OF restart.hyps assms(2)] assms(2), of x now] show ?case
    by (blast intro: performs_append)
qed

text \<open>C4 The registrar refines the registry, for requests, ticks and restarts served one at a time, each
  in one piece, with no failing database statement. Every state it reaches is the outcome of a history
  of registry events from the empty registry, in which no two nodes share a (non-empty) name, and each
  handler performs exactly the events its answer tells. An enrollment is answered 201 with an identity
  and perhaps a job: when no node has that identity it is the one made for this request and the node
  joins under it, otherwise the node has the name of the request and moves; a node without a job takes
  the first of the queue if and only if the answer carries a job. A heartbeat changes nothing. A
  disconnection (or a new port) of a known node is answered 200 and the node leaves (or moves); of an
  unknown one it is answered 404, of an identity that cannot be read 400, and nothing changes. A
  registration is answered 201 without a node and queued when no free live node is picked, otherwise
  201 with the picked node and placed there, or, when HAProxy refuses, 500 and nothing changes. A churn
  tick evicts exactly the nodes last heard 45 seconds ago or more, each once; a restart forgets the
  queue and nothing else.\<close>

theorem registrar_refines_registry:
  assumes "reachable x k s" and "crates_ok k"
  shows "(\<exists>es. performs es empty_registry = Some (registry_of s)) \<and> names_unique (registry_of s) \<and>
    (fresh_id k n s \<longrightarrow>
      (\<exists>i p. fst (enroll x k e now n req s) = (201, Enroll_response (uuid_text k i) HEARTBEAT_INTERVAL_SECS p) \<and>
        performs (enroll_events n i (hostname (er_info req)) (tunnel_addr e (tunnel_public_port req)) (p \<noteq> None)
            (registry_of s)) (registry_of s) = Some (registry_of (snd (enroll x k e now n req s))))) \<and>
    registry_of (snd (heartbeat x k now hb s)) = registry_of s \<and>
    (\<exists>code es. named_event k id_str Leave (registry_of s) = (code, es) \<and>
      fst (fst (disconnect x k id_str s)) = code \<and>
      performs es (registry_of s) = Some (registry_of (snd (disconnect x k id_str s)))) \<and>
    (\<exists>code es. named_event k id_str (\<lambda>i. Move i (tunnel_addr e port)) (registry_of s) = (code, es) \<and>
      fst (fst (update_tunnel_port x k e id_str port s)) = code \<and>
      performs es (registry_of s) = Some (registry_of (snd (update_tunnel_port x k e id_str port s)))) \<and>
    (\<exists>told es. register_event x k now rq s = (told, es) \<and>
      told_node (fst (register_service x k now now' rq s)) = told \<and>
      performs es (registry_of s) = Some (registry_of (snd (register_service x k now now' rq s)))) \<and>
    (\<exists>is. distinct is \<and>
      set is = {i. \<exists>v. hm_get (volunteers s) i = Some v \<and> now - last_heartbeat v \<ge> 45 * 10 ^ 9} \<and>
      performs (map Evict is) (registry_of s) = Some (registry_of (churn_tick x k now s))) \<and>
    performs [Restart] (registry_of s) = Some (registry_of (crash_restart x k now s))"
proof -
  note inv = reachable_inv [OF assms]
  obtain es where es: "performs es empty_registry = Some (registry_of s)"
    using reachable_history [OF assms] by blast
  have "names_unique empty_registry" by (simp add: names_unique_def empty_registry_def)
  from performs_names [OF es this] es show ?thesis
    using simulates_enroll [OF inv] simulates_heartbeat [OF inv] simulates_disconnect [OF inv]
      simulates_move [OF inv] simulates_register [OF inv] evictions_of_tick [OF inv] simulates_restart [OF inv assms(2)]
    by (intro conjI impI) blast+
qed

theorem registrar_refines_registry_witness:
  "registry_of wit_serving = \<lparr>nodes = [7 \<mapsto> \<lparr>n_name = ''a'', n_addr = tunnel_addr wit_env 30000,
       n_job = Some (''b'', ''a.org'', ''img'', 80)\<rparr>], waiting = []\<rparr> \<and>
   registry_of (crash_restart sim_host wit 9 wit_serving) = registry_of wit_serving \<and>
   (\<exists>es. performs es empty_registry = Some (registry_of wit_serving))"
proof -
  have "pending_services wit_serving = []"
    by (simp add: wit_serving_def register_service_def wit_pick register_with_def on_host_eq register_commit_def
        Let_def frame wit_node_map split: option.split sum.split)
  moreover have "node_of (set_assignment (assignment_for (wit_service ''b'') 0) wit_volunteer) =
      \<lparr>n_name = ''a'', n_addr = tunnel_addr wit_env 30000, n_job = Some (''b'', ''a.org'', ''img'', 80)\<rparr>"
    by (simp add: node_of_def set_assignment_def wit_volunteer_def fresh_volunteer_def wit_req_def assignment_for_def
        job_def wit_service_def)
  ultimately have r: "registry_of wit_serving = \<lparr>nodes = [7 \<mapsto> \<lparr>n_name = ''a'', n_addr = tunnel_addr wit_env 30000,
       n_job = Some (''b'', ''a.org'', ''img'', 80)\<rparr>], waiting = []\<rparr>"
    by (simp add: registry_of_def wit_serving_map fun_eq_iff hm_get_def)
  have "\<exists>es. performs es empty_registry = Some (registry_of wit_serving)"
    "performs [Restart] (registry_of wit_serving) = Some (registry_of (crash_restart sim_host wit 9 wit_serving))"
    using registrar_refines_registry [OF wit_serving_reachable wit_ok, where now = 9] by blast+
  with r show ?thesis by simp
qed

end
