(* ===== verification/Config_Samples.thy ===== *)
theory Config_Samples
  imports Haproxy_Runtime
begin

text \<open>
  The configuration files of the unit tests of \<^verbatim>\<open>config.rs\<close>, and what the edits make of them.
\<close>

definition SAMPLE_CFG :: string where
  "SAMPLE_CFG = unlines
     [''global'',
      ''    daemon'',
      [],
      ''defaults'',
      ''    mode http'',
      [],
      ''frontend openshrd'',
      ''    bind *:80'',
      ''    default_backend volunteers'',
      [],
      ''backend volunteers'',
      ''    balance leastconn'']"

definition CFG_WITH_SVC :: string where
  "CFG_WITH_SVC = unlines
     [''global'',
      ''    daemon'',
      [],
      ''defaults'',
      ''    mode http'',
      [],
      ''frontend openshrd'',
      ''    bind *:80'',
      ''    acl host_svc_foo hdr(host) -i foo.example.com'',
      ''    use_backend svc_foo if host_svc_foo'',
      ''    default_backend volunteers'',
      [],
      ''backend volunteers'',
      ''    balance leastconn'',
      [],
      ''backend svc_foo'',
      ''    balance leastconn'',
      ''    option httpchk GET /health'',
      ''    http-check expect status 200'']"

lemma lines_of_lines: "list_all plain_line ls \<Longrightarrow> str_lines (unlines ls) = ls"
  using str_lines_unlines [of ls "[]"] by simp

lemma sample_lines:
  "str_lines SAMPLE_CFG = [''global'', ''    daemon'', [], ''defaults'', ''    mode http'', [], ''frontend openshrd'',
     ''    bind *:80'', ''    default_backend volunteers'', [], ''backend volunteers'', ''    balance leastconn'']"
  "str_lines CFG_WITH_SVC = [''global'', ''    daemon'', [], ''defaults'', ''    mode http'', [], ''frontend openshrd'',
     ''    bind *:80'', ''    acl host_svc_foo hdr(host) -i foo.example.com'', ''    use_backend svc_foo if host_svc_foo'',
     ''    default_backend volunteers'', [], ''backend volunteers'', ''    balance leastconn'', [], ''backend svc_foo'',
     ''    balance leastconn'', ''    option httpchk GET /health'', ''    http-check expect status 200'']"
  unfolding SAMPLE_CFG_def CFG_WITH_SVC_def
  by (rule lines_of_lines; simp add: plain_line_def)+

lemma sample_ok: "cfg_ok SAMPLE_CFG" "backends_in SAMPLE_CFG ''volunteers''" "\<not> service_exists SAMPLE_CFG m"
proof -
  have "CR \<notin> set SAMPLE_CFG" by (simp add: SAMPLE_CFG_def unlines_def)
  then show "cfg_ok SAMPLE_CFG" by (simp add: cfg_ok_def sample_lines is_routing_def trim_def is_ws_def)
  show "backends_in SAMPLE_CFG ''volunteers''"
    by (simp add: backends_in_def sample_lines trim_def is_ws_def starts_section_def)
  show "\<not> service_exists SAMPLE_CFG m"
    by (simp add: service_exists_def sample_lines trim_def is_ws_def acl_marker_def)
qed

lemma sample_without: "remove_service_text CFG_WITH_SVC ''svc_foo'' = SAMPLE_CFG"
proof -
  let ?ls = "[''global'', ''    daemon'', [], ''defaults'', ''    mode http'', [], ''frontend openshrd'',
    ''    bind *:80'', ''    default_backend volunteers'', [], ''backend volunteers'', ''    balance leastconn'']"
  have "remove_lines ''svc_foo'' False (str_lines CFG_WITH_SVC) = ?ls @ [[]]"
    unfolding sample_lines
    by (simp add: starts_section_def backend_header_def trim_def is_ws_def indent_def Let_def)
  then show ?thesis by (simp only: remove_service_text_def join_nl_snoc SAMPLE_CFG_def append_Nil2)
qed

lemma sample_with:
  "\<exists>c. add_service_text SAMPLE_CFG ''svc_foo'' ''foo.example.com'' = Some c \<and>
     take 14 (str_lines c) = take 14 (str_lines CFG_WITH_SVC)"
proof -
  have cr: "CR \<notin> set SAMPLE_CFG" using sample_ok(1) by (simp add: cfg_ok_def)
  have w: "word ''svc_foo''" "plain_line ''foo.example.com''" by (simp_all add: word_def is_ws_def plain_line_def)
  obtain c where c: "add_service_text SAMPLE_CFG ''svc_foo'' ''foo.example.com'' = Some c"
    using cfg_ok_add [OF sample_ok(1)] by blast
  from add_service_lines [OF c cr w] obtain n where "position is_routing (str_lines SAMPLE_CFG) = Some n"
    "str_lines c = take n (str_lines SAMPLE_CFG) @ [acl_line ''svc_foo'' ''foo.example.com'', use_line ''svc_foo''] @
      drop n (str_lines SAMPLE_CFG) @ backend_lines ''svc_foo''" by metis
  moreover have "position is_routing (str_lines SAMPLE_CFG) = Some 8"
    by (simp add: sample_lines is_routing_def trim_def is_ws_def)
  ultimately have "take 14 (str_lines c) = take 14 (str_lines CFG_WITH_SVC)"
    by (simp add: sample_lines acl_line_def use_line_def indent_def)
  with c show ?thesis by blast
qed

text \<open>The unit tests of \<^verbatim>\<open>config.rs\<close> pass on the model. Beyond them: removing the service from the file
  that has it gives exactly the file that does not, and adding it there gives the same routing lines at
  the same place; only the backend block differs, the test file has an older one.\<close>

theorem unit_test_files:
  "service_exists CFG_WITH_SVC ''svc_foo'' \<and> \<not> service_exists SAMPLE_CFG ''svc_foo'' \<and>
   \<not> service_exists CFG_WITH_SVC ''svc_bar'' \<and>
   services_in SAMPLE_CFG = [] \<and> services_in CFG_WITH_SVC = [''svc_foo''] \<and>
   remove_service_text CFG_WITH_SVC ''svc_foo'' = SAMPLE_CFG \<and>
   (\<exists>c. add_service_text SAMPLE_CFG ''svc_foo'' ''foo.example.com'' = Some c \<and>
     take 14 (str_lines c) = take 14 (str_lines CFG_WITH_SVC))"
proof -
  have "service_exists CFG_WITH_SVC ''svc_foo''" "\<not> service_exists CFG_WITH_SVC ''svc_bar''"
    by (simp_all add: service_exists_def sample_lines trim_def is_ws_def acl_marker_def)
  moreover have "services_in SAMPLE_CFG = []" "services_in CFG_WITH_SVC = [''svc_foo'']"
    by (simp_all add: services_in_def sample_lines service_of_line_def trim_def is_ws_def List.map_filter_def)
  ultimately show ?thesis using sample_ok(3) sample_without sample_with by blast
qed

end
