(* ===== verification/Registrar_Proxy.thy ===== *)
theory Registrar_Proxy
  imports Registrar_Properties Config_Samples
begin

text \<open>
  The registrar and HAProxy together: what the crash recovery of \<^verbatim>\<open>main.rs\<close> and the heartbeats of
  \<^verbatim>\<open>enrollment.rs\<close> leave in the configuration file and in the running HAProxy.
\<close>

subsection \<open>The file and the running HAProxy agree\<close>

text \<open>
  The running worker knows the backends of the file, and the file has a backend for the volunteers and
  for every service it routes. Adding a service keeps it so.
\<close>

definition in_step :: "('h \<Rightarrow> string) \<Rightarrow> ('h \<Rightarrow> proxy) \<Rightarrow> 'h \<Rightarrow> bool" where
  "in_step file view h \<longleftrightarrow> cfg_ok (file h) \<and> known_backend (view h) = backends_in (file h) \<and>
     backends_in (file h) ''volunteers'' \<and>
     (\<forall>n. word n \<longrightarrow> service_exists (file h) n \<longrightarrow> backends_in (file h) n)"

lemma backends_kept:
  assumes "add_service_text c n d = Some c'" "CR \<notin> set c" "word n" "plain_line d" "backends_in c b"
  shows "backends_in c' b"
proof -
  obtain j where "str_lines c' = take j (str_lines c) @ [acl_line n d, use_line n] @
      drop j (str_lines c) @ backend_lines n"
    using add_service_lines [OF assms(1-4)] by metis
  moreover have "set (str_lines c) = set (take j (str_lines c)) \<union> set (drop j (str_lines c))"
    by (metis append_take_drop_id set_append)
  ultimately have "set (str_lines c) \<subseteq> set (str_lines c')" by auto
  with assms(5) show ?thesis by (auto simp: backends_in_def list_ex_iff)
qed

lemma ensure_backends:
  assumes "cfg_ok c" "word n" "plain_line d" "backends_in c b"
  shows "backends_in (ensure_text (n, d) c) b"
proof (cases "service_exists c n")
  case False
  obtain c' where "add_service_text c n d = Some c'" using cfg_ok_add [OF assms(1)] by blast
  with False backends_kept [OF this _ assms(2-4)] assms(1) show ?thesis by (simp add: ensure_text_def cfg_ok_def)
qed (simp add: ensure_text_def assms(4))

lemma add_in_step:
  assumes "haproxy_host is_ip x file view" "in_step file view h" "word n" "plain_line d"
    and "add_service x n d h = (Inr (), h')"
  shows "in_step file view h'"
proof -
  have h: "cfg_ok (file h)" "known_backend (view h) = backends_in (file h)" "backends_in (file h) ''volunteers''"
    "\<And>m. word m \<Longrightarrow> service_exists (file h) m \<Longrightarrow> backends_in (file h) m"
    using assms(2) by (auto simp: in_step_def)
  note ok = add_service_ok [OF assms(1) h(1) assms(3-5)]
  show ?thesis
  proof (cases "service_exists (file h) n")
    case True
    with ok(1,4) assms(2) show ?thesis by (simp add: in_step_def ensure_text_def)
  next
    case False
    with ok(4) have v': "known_backend (view h') = backends_in (file h')" "backends_in (file h') n" by simp_all
    have "backends_in (file h') m" if "word m" "service_exists (file h') m" for m
      using that v'(2) cfg.has_ensure [OF h(1) assms(3,4) that(1)] h(4) [OF that(1)]
        ensure_backends [OF h(1) assms(3,4), of m] ok(1) by auto
    then show ?thesis
      using v' ok(1,2) ensure_backends [OF h(1) assms(3,4) h(3)] by (simp add: in_step_def)
  qed
qed

subsection \<open>The first pass: the services\<close>

text \<open>What the two passes do to the host, one volunteer after the other.\<close>

definition host_config :: "'h host \<Rightarrow> volunteer_state \<Rightarrow> 'h \<Rightarrow> 'h" where
  "host_config x v h =
     (case assigned_service v of
        Some a \<Rightarrow> snd (ensure_service_config x (service_name a) (domain a) h) | None \<Rightarrow> h)"

definition host_servers :: "'h host \<Rightarrow> crates \<Rightarrow> volunteer_state \<Rightarrow> 'h \<Rightarrow> 'h" where
  "host_servers x k v h =
     (let h = snd (upsert_volunteer x k ''volunteers'' (vid v) (service_addr (info v)) 1 h)
      in case assigned_service v of
           Some a \<Rightarrow> snd (restore_service_server x (service_name a) (vid v) (service_addr (info v)) h) | None \<Rightarrow> h)"

lemma recover_host:
  "host_state (fold (recover_config x) vs s) = fold (host_config x) vs (host_state s)"
  "host_state (fold (recover_servers x k) vs s) = fold (host_servers x k) vs (host_state s)"
proof -
  show "host_state (fold (recover_config x) vs s) = fold (host_config x) vs (host_state s)"
    by (induction vs arbitrary: s) (simp_all add: recover_config_def host_config_def on_host_eq split: option.split)
  show "host_state (fold (recover_servers x k) vs s) = fold (host_servers x k) vs (host_state s)"
    by (induction vs arbitrary: s)
      (simp_all add: recover_servers_def host_servers_def on_host_eq Let_def split: option.split)
qed

lemma start_host:
  assumes "db_faults s = []" "vs = fst (db_load_all k (snd (db_prune_orphan_assignments s)))"
  shows "host_state (start x k now s) = fold (host_servers x k) vs (fold (host_config x) vs (host_state s))"
proof -
  have "snd (db_load_all k (snd (db_prune_orphan_assignments s))) =
      s\<lparr>asg_table := kept_assignments (vol_table s) (asg_table s)\<rparr>"
    using assms(1)
    by (simp add: db_prune_orphan_assignments_def Let_def kept_assignments_def db_load_all_def
        db_load_assignments_def db_query_eq)
  then show ?thesis
    using assms by (simp add: start_def split_beta Let_def recover_host frame)
qed

text \<open>A volunteer HAProxy can be told about: address and names in the form the admin socket takes.\<close>

definition tellable :: "(string \<Rightarrow> bool) \<Rightarrow> volunteer_state \<Rightarrow> bool" where
  "tellable is_ip v \<longleftrightarrow>
     (\<exists>ip port. service_addr (info v) = ip @ '':'' @ port \<and> api_addr is_ip ip port) \<and>
     (\<forall>a. assigned_service v = Some a \<longrightarrow> api_word (service_name a) \<and> plain_line (domain a))"

text \<open>The answers of the configuration calls of the first pass, which the code only logs.\<close>

primrec config_calls :: "'h host \<Rightarrow> volunteer_state list \<Rightarrow> 'h \<Rightarrow> (error + unit) list" where
  "config_calls x [] h = []"
| "config_calls x (v # vs) h =
     (case assigned_service v of
        Some a \<Rightarrow>
          (case ensure_service_config x (service_name a) (domain a) h of (r, h') \<Rightarrow> r # config_calls x vs h')
      | None \<Rightarrow> config_calls x vs h)"

text \<open>When all of them are Ok, the services are in the file and in HAProxy, and what was routed is.\<close>

lemma config_pass:
  assumes "haproxy_host is_ip x file view" "\<forall>v \<in> set vs. tellable is_ip v" "in_step file view h"
    and "list_all (\<lambda>r. r = Inr ()) (config_calls x vs h)"
  defines "h' \<equiv> fold (host_config x) vs h"
  shows "in_step file view h' \<and>
    (\<forall>m. word m \<longrightarrow> service_exists (file h') m \<longleftrightarrow>
       service_exists (file h) m \<or> (\<exists>v \<in> set vs. \<exists>a. assigned_service v = Some a \<and> m = ''svc_'' @ service_name a)) \<and>
    (\<forall>m e. domain_routed (file h) m e \<longrightarrow> domain_routed (file h') m e) \<and>
    (\<forall>v \<in> set vs. \<forall>a. assigned_service v = Some a \<longrightarrow> \<not> service_exists (file h) (''svc_'' @ service_name a) \<longrightarrow>
       (\<exists>w \<in> set vs. \<exists>b. assigned_service w = Some b \<and> service_name b = service_name a \<and>
          domain_routed (file h') (''svc_'' @ service_name a) (domain b)))"
  using assms(2-4) unfolding h'_def
proof (induction vs arbitrary: h)
  case (Cons v vs)
  show ?case
  proof (cases "assigned_service v")
    case None
    with Cons show ?thesis by (simp add: host_config_def)
  next
    case (Some a)
    let ?n = "''svc_'' @ service_name a" and ?f = "fold (host_config x) vs"
    have a: "word ?n" "plain_line (domain a)"
      using Cons.prems(1) Some svc_word(2) by (auto simp: tellable_def api_word_def)
    obtain r h1 where r: "add_service x ?n (domain a) h = (r, h1)" by (cases "add_service x ?n (domain a) h")
    have c: "host_config x v h = h1" "r = Inr ()" "list_all (\<lambda>r. r = Inr ()) (config_calls x vs h1)"
      using r Some Cons.prems(3)
      by (cases r; simp add: host_config_def ensure_service_config_def okE_def map_errE_def tryE_def)+
    have ok: "cfg_ok (file h)" using Cons.prems(2) by (simp add: in_step_def)
    note add = add_service_ok [OF assms(1) ok a r [unfolded c(2)]]
    have step: "in_step file view h1" using add_in_step [OF assms(1) Cons.prems(2) a] r c(2) by simp
    from Cons.IH [OF _ step c(3)] Cons.prems(1)
    have ih: "in_step file view (?f h1)"
      "\<And>m. word m \<Longrightarrow> service_exists (file (?f h1)) m \<longleftrightarrow>
         service_exists (file h1) m \<or> (\<exists>v \<in> set vs. \<exists>a. assigned_service v = Some a \<and> m = ''svc_'' @ service_name a)"
      "\<And>m e. domain_routed (file h1) m e \<Longrightarrow> domain_routed (file (?f h1)) m e"
      "\<And>u b. u \<in> set vs \<Longrightarrow> assigned_service u = Some b \<Longrightarrow> \<not> service_exists (file h1) (''svc_'' @ service_name b) \<Longrightarrow>
         \<exists>w \<in> set vs. \<exists>c. assigned_service w = Some c \<and> service_name c = service_name b \<and>
           domain_routed (file (?f h1)) (''svc_'' @ service_name b) (domain c)"
      by auto
    have ex: "service_exists (file h1) m \<longleftrightarrow> service_exists (file h) m \<or> m = ?n" if "word m" for m
      using cfg.has_ensure [OF ok a that] add(1) by simp
    have kept: "domain_routed (file (?f h1)) m e" if "domain_routed (file h) m e" for m e
      using ih(3) routed_after_ensure(2) [OF ok a that] add(1) by simp
    have new: "\<exists>w \<in> set (v # vs). \<exists>c. assigned_service w = Some c \<and> service_name c = service_name b \<and>
        domain_routed (file (?f h1)) (''svc_'' @ service_name b) (domain c)"
      if u: "u \<in> set (v # vs)" "assigned_service u = Some b" "\<not> service_exists (file h) (''svc_'' @ service_name b)" for u b
    proof (cases "service_name b = service_name a")
      case True
      with u(3) add(4) ih(3) have "domain_routed (file (?f h1)) ?n (domain a)" by auto
      with True Some show ?thesis by auto
    next
      case False
      with u Some have "u \<in> set vs" by auto
      moreover have "word (''svc_'' @ service_name b)"
        using u(1,2) Cons.prems(1) svc_word(2) by (auto simp: tellable_def api_word_def)
      ultimately show ?thesis using ih(4) [of u b] u(2,3) ex False by auto
    qed
    from ih(1,2) ex kept new c(1) Some show ?thesis by auto
  qed
qed simp

subsection \<open>The second pass: the servers\<close>

definition ready_at :: "string \<Rightarrow> u32 \<Rightarrow> srv" where
  "ready_at addr w = \<lparr>srv_addr = addr, srv_weight = w, srv_state = ''ready''\<rparr>"

lemma upsert_ready:
  assumes "haproxy_host is_ip x file view" "api_word b" "api_word s" "api_addr is_ip ip port" "unat w \<le> 256"
    and "known_backend (view h) b"
  shows "\<exists>h'. upsert_server x b s (ip @ '':'' @ port) w h = (Inr (), h') \<and>
    view h' = put_srv (b, s) (Some (ready_at (ip @ '':'' @ port) w)) (view h) \<and> file h' = file h"
proof -
  have adm: "haproxy_admin is_ip x view" using assms(1) by (simp add: haproxy_host_def)
  from succeedsD [OF upsert_server_done [OF adm assms(2-6)]] obtain h' where
    "upsert_server x b s (ip @ '':'' @ port) w h = (Inr (), h')"
    "view h' = put_srv (b, s) (Some (ready_at (ip @ '':'' @ port) w)) (view h)"
    by (auto simp: ready_at_def)
  with keepsD [OF keeps_upsert [OF assms(1)]] show ?thesis by blast
qed

text \<open>One volunteer: its own server, and the server of its service.\<close>

definition put_known :: "string \<Rightarrow> string \<Rightarrow> srv \<Rightarrow> proxy \<Rightarrow> proxy" where
  "put_known b n u p = (if known_backend p b then put_srv (b, n) (Some u) p else p)"

definition with_servers :: "crates \<Rightarrow> volunteer_state \<Rightarrow> proxy \<Rightarrow> proxy" where
  "with_servers k v p =
     (let p = put_known ''volunteers'' (uuid_simple k (vid v)) (ready_at (service_addr (info v)) 1) p
      in case assigned_service v of
           Some a \<Rightarrow> put_known (''svc_'' @ service_name a) ''primary'' (ready_at (service_addr (info v)) 100) p
         | None \<Rightarrow> p)"

lemma with_servers_known [simp]:
  "known_backend (with_servers k v p) = known_backend p"
  "known_backend (fold (with_servers k) vs p) = known_backend p"
proof -
  show step: "known_backend (with_servers k v p) = known_backend p" for v p
    by (simp add: with_servers_def put_known_def Let_def split: option.split)
  show "known_backend (fold (with_servers k) vs p) = known_backend p"
    by (induction vs arbitrary: p) (simp_all add: step)
qed

lemma with_servers_at:
  "known_backend p ''volunteers'' \<Longrightarrow> servers (with_servers k v p) (''volunteers'', n) =
     (if n = uuid_simple k (vid v) then Some (ready_at (service_addr (info v)) 1) else servers p (''volunteers'', n))"
  "known_backend p (''svc_'' @ m) \<Longrightarrow> servers (with_servers k v p) (''svc_'' @ m, ''primary'') =
     (case assigned_service v of
        Some a \<Rightarrow> if service_name a = m then Some (ready_at (service_addr (info v)) 100)
                 else servers p (''svc_'' @ m, ''primary'')
      | None \<Rightarrow> servers p (''svc_'' @ m, ''primary''))"
  by (auto simp: with_servers_def put_known_def Let_def split: option.split)

lemma upsert_known:
  assumes "haproxy_host is_ip x file view" "api_word b" "api_word s" "api_addr is_ip ip port" "unat w \<le> 256"
  shows "\<exists>r h'. upsert_server x b s (ip @ '':'' @ port) w h = (r, h') \<and>
    view h' = put_known b s (ready_at (ip @ '':'' @ port) w) (view h) \<and> file h' = file h"
proof (cases "known_backend (view h) b")
  case True
  with upsert_ready [OF assms True] show ?thesis by (auto simp: put_known_def)
next
  case False
  have adm: "haproxy_admin is_ip x view" using assms(1) by (simp add: haproxy_host_def)
  from failsD [OF upsert_server_unknown [OF adm assms(2-4) False]] keepsD [OF keeps_upsert [OF assms(1)]] False
  show ?thesis by (fastforce simp: put_known_def)
qed

lemma servers_step:
  assumes "haproxy_host is_ip x file view" "crates_ok k" "tellable is_ip v"
  shows "view (host_servers x k v h) = with_servers k v (view h) \<and> file (host_servers x k v h) = file h"
proof -
  obtain ip port where a: "service_addr (info v) = ip @ '':'' @ port" "api_addr is_ip ip port"
    using assms(3) by (auto simp: tellable_def)
  have s: "api_word (uuid_simple k (vid v))" using assms(2) by (simp add: crates_ok_def)
  from upsert_known [OF assms(1) primary_word(2) s a(2), of 1 h] obtain r h1 where
    1: "upsert_server x ''volunteers'' (uuid_simple k (vid v)) (ip @ '':'' @ port) 1 h = (r, h1)"
      "view h1 = put_known ''volunteers'' (uuid_simple k (vid v)) (ready_at (ip @ '':'' @ port) 1) (view h)"
      "file h1 = file h" by auto
  have up: "snd (upsert_volunteer x k ''volunteers'' (vid v) (ip @ '':'' @ port) 1 h) = h1"
    using 1(1) by (cases r) (simp_all add: upsert_volunteer_def server_name_for_def okE_def tryE_def)
  show ?thesis
  proof (cases "assigned_service v")
    case None
    then show ?thesis using 1 up a(1) by (simp add: host_servers_def with_servers_def)
  next
    case (Some b)
    then have n: "api_word (''svc_'' @ service_name b)"
      using assms(3) svc_word(1) by (auto simp: tellable_def)
    from upsert_known [OF assms(1) n primary_word(1) a(2), of 100 h1] obtain q h2 where
      "upsert_server x (''svc_'' @ service_name b) ''primary'' (ip @ '':'' @ port) 100 h1 = (q, h2)"
      "view h2 = put_known (''svc_'' @ service_name b) ''primary'' (ready_at (ip @ '':'' @ port) 100) (view h1)"
      "file h2 = file h1" by auto
    with 1 up a(1) Some show ?thesis
      by (simp add: host_servers_def with_servers_def restore_service_server_def upsert_svc_server_def)
  qed
qed

lemma servers_pass:
  assumes "haproxy_host is_ip x file view" "crates_ok k" "\<forall>v \<in> set vs. tellable is_ip v"
  shows "view (fold (host_servers x k) vs h) = fold (with_servers k) vs (view h) \<and>
    file (fold (host_servers x k) vs h) = file h"
  using assms(3)
proof (induction vs arbitrary: h)
  case (Cons v vs)
  have step: "view (host_servers x k v h) = with_servers k v (view h) \<and> file (host_servers x k v h) = file h"
    by (rule servers_step [OF assms(1,2)]) (use Cons.prems in simp_all)
  with Cons.IH [of "host_servers x k v h"] Cons.prems show ?case by simp
qed simp

lemma fold_servers:
  assumes "inj (uuid_simple k)" "distinct (map vid vs)"
  shows "v \<in> set vs \<Longrightarrow> known_backend p ''volunteers'' \<Longrightarrow>
      servers (fold (with_servers k) vs p) (''volunteers'', uuid_simple k (vid v)) = Some (ready_at (service_addr (info v)) 1)"
    and "v \<in> set vs \<Longrightarrow> assigned_service v = Some a \<Longrightarrow> known_backend p (''svc_'' @ service_name a) \<Longrightarrow>
      \<exists>w \<in> set vs. \<exists>b. assigned_service w = Some b \<and> service_name b = service_name a \<and>
        servers (fold (with_servers k) vs p) (''svc_'' @ service_name a, ''primary'') =
          Some (ready_at (service_addr (info w)) 100)"
  using assms(2)
proof (induction vs rule: rev_induct)
  case (snoc u us)
  {
    case 1
    show ?case
    proof (cases "v = u")
      case True
      with 1(2) show ?thesis by (simp add: with_servers_at)
    next
      case False
      then have v: "v \<in> set us" using 1 by simp
      then have "vid v \<in> set (map vid us)" by simp
      moreover have "vid u \<notin> set (map vid us)" using 1(3) by simp
      ultimately have "vid v \<noteq> vid u" by metis
      then have "uuid_simple k (vid v) \<noteq> uuid_simple k (vid u)" using assms(1) by (simp add: inj_eq)
      with snoc.IH(1) [OF v 1(2)] 1(2,3) show ?thesis by (simp add: with_servers_at)
    qed
  next
    case 2
    show ?case
    proof (cases "\<exists>b. assigned_service u = Some b \<and> service_name b = service_name a")
      case True
      then show ?thesis using 2(3) by (intro bexI [of _ u]) (auto simp: with_servers_at simp del: append_Cons)
    next
      case False
      then have v: "v \<in> set us" using 2 by auto
      from snoc.IH(2) [OF v 2(2,3)] 2(4) obtain w b where "w \<in> set us" "assigned_service w = Some b"
        "service_name b = service_name a"
        "servers (fold (with_servers k) us p) (''svc_'' @ service_name a, ''primary'') =
          Some (ready_at (service_addr (info w)) 100)" by auto
      with False 2(3) show ?thesis
        by (intro bexI [of _ w] exI [of _ b]) (auto simp: with_servers_at simp del: append_Cons split: option.split)
    qed
  }
qed simp_all

subsection \<open>Assigning a service\<close>

text \<open>An assignment that succeeds keeps file and HAProxy in step and leaves the server of the service
  ready; a new service is routed at its domain, and what was routed still is.\<close>

lemma assign_in_step:
  assumes "haproxy_host is_ip x file view" "in_step file view h" "api_word n" "plain_line d"
    and "api_addr is_ip ip port" and "assign_service x n d i (ip @ '':'' @ port) h = (Inr (), h')"
  shows "in_step file view h'" "service_exists (file h') (''svc_'' @ n)"
    "servers (view h') (''svc_'' @ n, ''primary'') = Some (ready_at (ip @ '':'' @ port) 100)"
    "\<not> service_exists (file h) (''svc_'' @ n) \<Longrightarrow> domain_routed (file h') (''svc_'' @ n) d"
    "domain_routed (file h) m e \<Longrightarrow> domain_routed (file h') m e"
proof -
  have w: "word (''svc_'' @ n)" using assms(3) svc_word(2) by (simp add: api_word_def)
  have ok: "cfg_ok (file h)" using assms(2) by (simp add: in_step_def)
  obtain h1 where 1: "add_service x (''svc_'' @ n) d h = (Inr (), h1)"
    using assms(6) by (auto simp: assign_service_def tryE_eq_Inr_iff map_errE_def split: prod.splits sum.splits)
  note add = add_service_ok [OF assms(1) ok w assms(4) 1]
  have h': "file h' = file h1" "view h' = put_srv (''svc_'' @ n, ''primary'') (Some (ready_at (ip @ '':'' @ port) 100)) (view h1)"
    using assign_service_cases [OF assms(1,3,5) 1, of i] assms(6) by (auto simp: ready_at_def split: if_splits)
  show "in_step file view h'"
    using add_in_step [OF assms(1,2) w assms(4) 1] h' by (simp add: in_step_def)
  show "service_exists (file h') (''svc_'' @ n)" using add(3) h'(1) by simp
  show "servers (view h') (''svc_'' @ n, ''primary'') = Some (ready_at (ip @ '':'' @ port) 100)" using h'(2) by simp
  show "domain_routed (file h') (''svc_'' @ n) d" if "\<not> service_exists (file h) (''svc_'' @ n)"
    using add(4) that h'(1) by simp
  show "domain_routed (file h') m e" if "domain_routed (file h) m e"
    using routed_after_ensure(2) [OF ok w assms(4) that] add(1) h'(1) by simp
qed

subsection \<open>A concrete registrar and HAProxy\<close>

text \<open>HAProxy on the file of the unit tests, and one volunteer enrolled.\<close>

definition wit_fresh_start :: "(string \<times> proxy) reg" where
  "wit_fresh_start = new_app [] [] [] (SAMPLE_CFG, \<lparr>known_backend = backends_in SAMPLE_CFG, servers = Map.empty\<rparr>)"

definition wit_routed :: "(string \<times> proxy) reg" where
  "wit_routed = snd (enroll sim_host wit wit_env 0 7 (wit_req ''a'') wit_fresh_start)"

lemma wit_routed_reachable: "reachable sim_host wit wit_fresh_start" "reachable sim_host wit wit_routed"
proof -
  show 1: "reachable sim_host wit wit_fresh_start"
    unfolding wit_fresh_start_def using reachable.boot [of sim_host wit 0] by (simp only: start_empty)
  have "fresh_id wit 7 wit_fresh_start" by (simp add: fresh_id_def wit_fresh_start_def new_app_def tbl_get_def)
  then show "reachable sim_host wit wit_routed"
    unfolding wit_routed_def by (rule reachable.request [OF 1 request_step.enroll])
qed

lemma wit_routed_state:
  "volunteers wit_routed = [(7, wit_volunteer)]"
  "host_state wit_routed = snd (upsert_volunteer sim_host wit ''volunteers'' 7 (tunnel_addr wit_env 30000) 100
     (host_state wit_fresh_start))"
proof -
  have e: "enroll sim_host wit wit_env 0 7 (wit_req ''a'') wit_fresh_start =
      enroll_finish sim_host wit wit_env 0 7 (wit_req ''a'') (None, None) wit_fresh_start"
    using enroll_known [OF reachable_inv [OF wit_routed_reachable(1) wit_ok], of sim_host wit_env 0 7 "wit_req ''a''"]
    by (simp add: known_def wit_fresh_start_def new_app_def hm_values_def)
  show "volunteers wit_routed = [(7, wit_volunteer)]"
    unfolding wit_routed_def e
    by (simp add: frame enrolled_def enroll_job_def enroll_id_def take_pending_def wit_fresh_start_def
        new_app_def hm_insert_def wit_volunteer_def wit_req_def)
  show "host_state wit_routed = snd (upsert_volunteer sim_host wit ''volunteers'' 7 (tunnel_addr wit_env 30000) 100
     (host_state wit_fresh_start))"
    unfolding wit_routed_def e
    by (simp add: wit_fresh_start_def new_app_def hm_values_def enroll_finish_def Let_def
        take_pending_def on_host_eq frame wit_req_def)
qed

lemma wit_routed_in_step: "in_step fst snd (host_state wit_routed)"
  "servers (snd (host_state wit_routed)) = [(''volunteers'', show_nat 7) \<mapsto> ready_at (tunnel_addr wit_env 30000) 100]"
proof -
  let ?p = "\<lparr>known_backend = backends_in SAMPLE_CFG, servers = Map.empty\<rparr>"
  have h: "host_state wit_fresh_start = (SAMPLE_CFG, ?p)" by (simp add: wit_fresh_start_def new_app_def)
  from upsert_ready [OF sim_host_ok primary_word(2) show_nat_word wit_addr(2), of 100 "(SAMPLE_CFG, ?p)" 7]
  obtain h' where h': "upsert_server sim_host ''volunteers'' (show_nat 7) (tunnel_addr wit_env 30000) 100 (SAMPLE_CFG, ?p)
      = (Inr (), h')" "snd h' = put_srv (''volunteers'', show_nat 7) (Some (ready_at (tunnel_addr wit_env 30000) 100)) ?p"
      "fst h' = SAMPLE_CFG"
    using sample_ok(2) unfolding wit_addr(1) by auto
  moreover have "server_name_for wit 7 = show_nat 7" by (simp add: server_name_for_def wit_def)
  ultimately have "host_state wit_routed = h'"
    by (simp add: wit_routed_state(2) h upsert_volunteer_def okE_def)
  with h' sample_ok show "in_step fst snd (host_state wit_routed)"
    "servers (snd (host_state wit_routed)) = [(''volunteers'', show_nat 7) \<mapsto> ready_at (tunnel_addr wit_env 30000) 100]"
    by (simp_all add: in_step_def)
qed

lemma wit_tellable: "tellable (\<lambda>_. True) wit_volunteer"
proof -
  have "service_addr (info wit_volunteer) = ''10.0.0.1'' @ '':'' @ show_nat 30000" "assigned_service wit_volunteer = None"
    by (simp_all add: wit_volunteer_def fresh_volunteer_def wit_addr(1))
  with wit_addr(2) show ?thesis
    unfolding tellable_def
    by (intro conjI exI [of _ "''10.0.0.1''"] exI [of _ "show_nat 30000"]) simp_all
qed

text \<open>A service that waits, and the volunteer that takes it.\<close>

definition wit_waiting :: "(string \<times> proxy) reg" where
  "wit_waiting = snd (register_service sim_host wit 0 0 (wit_service ''b'') wit_fresh_start)"

definition wit_deployed :: "(string \<times> proxy) reg" where
  "wit_deployed = snd (enroll sim_host wit wit_env 0 7 (wit_req ''a'') wit_waiting)"

definition wit_job :: pending_service where
  "wit_job = \<lparr>p_name = ''b'', p_domain = ''a.org'', p_image = ''img'', p_service_port = 80, registered_at = 0\<rparr>"

lemma wit_waiting_state:
  "volunteers wit_waiting = []" "pending_services wit_waiting = [wit_job]"
  "host_state wit_waiting = host_state wit_fresh_start" "vol_table wit_waiting = []" "asg_table wit_waiting = []"
  by (simp_all add: wit_waiting_def register_service_def register_pick_def active_volunteers_def hm_values_def
      wit_fresh_start_def new_app_def register_with_def push_back_def wit_service_def wit_job_def)

lemma wit_waiting_reachable: "reachable sim_host wit wit_waiting" "fresh_id wit 7 wit_waiting"
proof -
  show "reachable sim_host wit wit_waiting"
    unfolding wit_waiting_def by (rule reachable.request [OF wit_routed_reachable(1) request_step.register])
  show "fresh_id wit 7 wit_waiting" by (simp add: fresh_id_def wit_waiting_state tbl_get_def)
qed

lemma wit_deployed_reachable: "reachable sim_host wit wit_deployed"
  unfolding wit_deployed_def by (rule reachable.request [OF wit_waiting_reachable(1) request_step.enroll [OF wit_waiting_reachable(2)]])

lemma wit_fresh_in_step: "in_step fst snd (host_state wit_fresh_start)" "fst (host_state wit_fresh_start) = SAMPLE_CFG"
  using sample_ok by (simp_all add: wit_fresh_start_def new_app_def in_step_def)

lemma wit_job_words: "api_word ''b''" "plain_line ''a.org''" "word (''svc_'' @ ''b'')"
  by (simp_all add: api_word_def word_def is_ws_def plain_line_def)

lemma wit_assigned:
  "\<exists>h'. assign_service sim_host ''b'' ''a.org'' i (tunnel_addr wit_env 30000) (host_state wit_fresh_start) = (Inr (), h')"
proof -
  let ?h = "host_state wit_fresh_start"
  have c: "cfg_ok (fst ?h)" using wit_fresh_in_step(1) by (simp add: in_step_def)
  obtain r h' where r: "assign_service sim_host ''b'' ''a.org'' i (''10.0.0.1'' @ '':'' @ show_nat 30000) ?h = (r, h')"
    by (cases "assign_service sim_host ''b'' ''a.org'' i (''10.0.0.1'' @ '':'' @ show_nat 30000) ?h")
  from assign_service_outcome [OF sim_host_ok c wit_job_words(1,2) wit_addr(2) r]
    sim_add_service [OF c wit_job_words(3,2)] sample_ok(3) have "r = Inr ()"
    by (auto simp: wit_fresh_in_step(2))
  with r show ?thesis unfolding wit_addr(1) by blast
qed

lemma wit_deployed_map:
  "volunteers wit_deployed = [(7, set_assignment (assignment_of wit_job 0) wit_volunteer)]"
proof -
  have e: "enroll sim_host wit wit_env 0 7 (wit_req ''a'') wit_waiting =
      enroll_finish sim_host wit wit_env 0 7 (wit_req ''a'') (None, None) wit_waiting"
    using enroll_known [OF reachable_inv [OF wit_waiting_reachable(1) wit_ok], of sim_host wit_env 0 7 "wit_req ''a''"]
    by (simp add: known_def wit_waiting_state hm_values_def)
  obtain h' where h': "assign_service sim_host ''b'' ''a.org'' 7 (tunnel_addr wit_env 30000) (host_state wit_fresh_start) = (Inr (), h')"
    using wit_assigned by blast
  show ?thesis
    unfolding wit_deployed_def e
    by (simp add: frame enrolled_def enroll_job_def enroll_id_def take_pending_def wit_waiting_state on_host_eq
        hm_insert_def wit_volunteer_def wit_req_def set_assignment_def fresh_volunteer_def h' wit_job_def)
qed

lemma wit_name: "uuid_simple wit 7 = show_nat 7"
  by (simp add: wit_def)

subsection \<open>Recovery\<close>

text \<open>What the recovery reads from the database.\<close>

definition recovered :: "crates \<Rightarrow> 'h reg \<Rightarrow> volunteer_state list" where
  "recovered k s = fst (db_load_all k (snd (db_prune_orphan_assignments
     (new_app (vol_table s) (asg_table s) (db_faults s) (host_state s)))))"

lemma restart_host:
  assumes "reg_inv k s" "crates_ok k" "t = crash_restart x k now s"
  shows "host_state t = fold (host_servers x k) (recovered k s) (fold (host_config x) (recovered k s) (host_state s))"
    and "distinct (map vid (recovered k s))"
    and "\<And>u. u \<in> set (recovered k s) \<Longrightarrow>
      \<exists>w. hm_get (volunteers s) (vid u) = Some w \<and> info u = info w \<and> assigned_service u = assigned_service w"
    and "\<And>i w. hm_get (volunteers s) i = Some w \<Longrightarrow> \<exists>u \<in> set (recovered k s). vid u = i"
proof -
  note inv = reg_invD [OF assms(1)]
  let ?s0 = "new_app (vol_table s) (asg_table s) (db_faults s) (host_state s)"
  have f0: "db_faults ?s0 = []" using inv(3) by (simp add: new_app_def)
  note vs_def = recovered_def [of k s]
  have vs: "recovered k s = load_rows k (vol_table s) (collect_assignments k (kept_assignments (vol_table s) (asg_table s)))"
    using start_fields(6) [OF f0 vs_def] by (simp add: new_app_def)
  note rows = loaded_rows [OF inv(2,1) assms(2) vs]
  show "host_state t = fold (host_servers x k) (recovered k s) (fold (host_config x) (recovered k s) (host_state s))"
    using start_host [OF f0 vs_def, of x now] by (simp add: assms(3) crash_restart_def) (simp add: new_app_def)
  show "\<exists>w. hm_get (volunteers s) (vid u) = Some w \<and> info u = info w \<and> assigned_service u = assigned_service w"
    if "u \<in> set (recovered k s)" for u
  proof -
    from rows(2) [OF that, of now] obtain w where "hm_get (volunteers s) (vid u) = Some w" "restored now u = survived now w"
      by blast
    then show ?thesis
      by (intro exI [of _ w], cases u, cases w) (simp add: restored_def survived_def)
  qed
qed (use loaded_rows [OF reg_invD(2,1) [OF assms(1)] assms(2)] start_fields(6) [OF _ recovered_def [of k s]] reg_invD(3) [OF assms(1)]
  in \<open>auto simp: new_app_def\<close>)

text \<open>What the second pass leaves for a volunteer of the map that survived.\<close>

lemma survivors_served:
  assumes "inj (uuid_simple k)" "distinct (map vid vs)"
    and same: "\<And>u. u \<in> set vs \<Longrightarrow>
      \<exists>w. hm_get m (vid u) = Some w \<and> info u = info w \<and> assigned_service u = assigned_service w"
    and "u \<in> set vs" "hm_get m (vid u) = Some v"
  shows "known_backend p ''volunteers'' \<Longrightarrow>
      servers (fold (with_servers k) vs p) (''volunteers'', uuid_simple k (vid u)) = Some (ready_at (service_addr (info v)) 1)"
    "assigned_service v = Some a \<Longrightarrow> known_backend p (''svc_'' @ service_name a) \<Longrightarrow>
      \<exists>j w b. hm_get m j = Some w \<and> assigned_service w = Some b \<and> service_name b = service_name a \<and>
       servers (fold (with_servers k) vs p) (''svc_'' @ service_name a, ''primary'') = Some (ready_at (service_addr (info w)) 100)"
proof -
  note servers = fold_servers [OF assms(1,2), where p = p]
  from same [OF assms(4)] assms(5) have uv: "info u = info v" "assigned_service u = assigned_service v" by auto
  show "servers (fold (with_servers k) vs p) (''volunteers'', uuid_simple k (vid u)) = Some (ready_at (service_addr (info v)) 1)"
    if "known_backend p ''volunteers''"
    using servers(1) [OF assms(4) that] uv by simp
  assume "assigned_service v = Some a" "known_backend p (''svc_'' @ service_name a)"
  with servers(2) [OF assms(4)] uv(2) obtain w b where w: "w \<in> set vs" "assigned_service w = Some b"
    "service_name b = service_name a"
    "servers (fold (with_servers k) vs p) (''svc_'' @ service_name a, ''primary'') = Some (ready_at (service_addr (info w)) 100)"
    by metis
  from same [OF w(1)] w(2) obtain w' where "hm_get m (vid w) = Some w'" "info w = info w'"
    "assigned_service w' = Some b" by auto
  with w(3,4) show "\<exists>j w b. hm_get m j = Some w \<and> assigned_service w = Some b \<and> service_name b = service_name a \<and>
       servers (fold (with_servers k) vs p) (''svc_'' @ service_name a, ''primary'') = Some (ready_at (service_addr (info w)) 100)"
    by metis
qed

text \<open>The services of the survivors, when every configuration call answered Ok.\<close>

lemma survivors_routed:
  assumes inv: "reg_inv k s" "crates_ok k" and host: "haproxy_host is_ip x file view" "in_step file view (host_state s)"
    and tell: "\<forall>u \<in> set (recovered k s). tellable is_ip u"
    and ok: "list_all (\<lambda>r. r = Inr ()) (config_calls x (recovered k s) (host_state s))"
    and h: "h = fold (host_config x) (recovered k s) (host_state s)"
    and v: "hm_get (volunteers s) i = Some v" "assigned_service v = Some a"
  shows "service_exists (file h) (''svc_'' @ service_name a)"
    and "service_exists (file (host_state s)) (''svc_'' @ service_name a) \<or>
      (\<exists>j w b. hm_get (volunteers s) j = Some w \<and> assigned_service w = Some b \<and> service_name b = service_name a \<and>
         domain_routed (file h) (''svc_'' @ service_name a) (domain b))"
proof -
  note vs = restart_host [OF inv refl]
  note pass = config_pass [OF host(1) tell host(2) ok, folded h]
  from vs(4) [OF v(1)] obtain u where u: "u \<in> set (recovered k s)" "vid u = i" by blast
  with vs(3) [OF u(1)] v have a: "assigned_service u = Some a" by auto
  then have "word (''svc_'' @ service_name a)" using tell u(1) svc_word(2) by (auto simp: tellable_def api_word_def)
  with pass u(1) a show "service_exists (file h) (''svc_'' @ service_name a)" by blast
  show "service_exists (file (host_state s)) (''svc_'' @ service_name a) \<or>
      (\<exists>j w b. hm_get (volunteers s) j = Some w \<and> assigned_service w = Some b \<and> service_name b = service_name a \<and>
         domain_routed (file h) (''svc_'' @ service_name a) (domain b))"
  proof (cases "service_exists (file (host_state s)) (''svc_'' @ service_name a)")
    case False
    with pass u(1) a obtain w b where w: "w \<in> set (recovered k s)" "assigned_service w = Some b"
      "service_name b = service_name a" "domain_routed (file h) (''svc_'' @ service_name a) (domain b)" by blast
    from vs(3) [OF w(1)] w(2) obtain w' where "hm_get (volunteers s) (vid w) = Some w'" "assigned_service w' = Some b" by auto
    with w(3,4) show ?thesis by blast
  qed simp
qed

text \<open>C10 Crash recovery restores the routing, after a state reached by requests, ticks and restarts one at a
  time with no failing database statement, while HAProxy's admin socket answers and for names and
  addresses that HAProxy takes. Whatever fails in the edits of the configuration: every volunteer has
  its server, ready, with weight 1, at its address, if HAProxy knows the backend of the volunteers after
  the restart; and the backend of every assigned service that HAProxy knows has its server, ready, with
  weight 100, at the address of a volunteer the service is assigned to. When file and HAProxy agreed
  before and every configuration call of the recovery answers Ok, they agree afterwards and HAProxy knows
  all those backends; every service is in the file, one that was not there before with the domain of a
  volunteer it is assigned to; and every domain routed before is still routed.\<close>

theorem restart_restores_proxy:
  assumes "reachable x k s" and "crates_ok k" and "haproxy_host is_ip x file view"
    and "\<forall>i v. hm_get (volunteers s) i = Some v \<longrightarrow> tellable is_ip v"
    and "t = crash_restart x k now s"
  shows "(\<forall>i v. hm_get (volunteers s) i = Some v \<longrightarrow>
      (known_backend (view (host_state t)) ''volunteers'' \<longrightarrow>
        servers (view (host_state t)) (''volunteers'', uuid_simple k i) =
          Some \<lparr>srv_addr = service_addr (info v), srv_weight = 1, srv_state = ''ready''\<rparr>) \<and>
      (\<forall>a. assigned_service v = Some a \<longrightarrow> known_backend (view (host_state t)) (''svc_'' @ service_name a) \<longrightarrow>
        (\<exists>j w b. hm_get (volunteers s) j = Some w \<and> assigned_service w = Some b \<and> service_name b = service_name a \<and>
          servers (view (host_state t)) (''svc_'' @ service_name a, ''primary'') =
            Some \<lparr>srv_addr = service_addr (info w), srv_weight = 100, srv_state = ''ready''\<rparr>))) \<and>
    (in_step file view (host_state s) \<longrightarrow>
     list_all (\<lambda>r. r = Inr ()) (config_calls x (recovered k s) (host_state s)) \<longrightarrow>
      in_step file view (host_state t) \<and>
      (\<forall>m d. domain_routed (file (host_state s)) m d \<longrightarrow> domain_routed (file (host_state t)) m d) \<and>
      (\<forall>i v a. hm_get (volunteers s) i = Some v \<longrightarrow> assigned_service v = Some a \<longrightarrow>
        service_exists (file (host_state t)) (''svc_'' @ service_name a) \<and>
        known_backend (view (host_state t)) (''svc_'' @ service_name a) \<and>
        (service_exists (file (host_state s)) (''svc_'' @ service_name a) \<or>
         (\<exists>j w b. hm_get (volunteers s) j = Some w \<and> assigned_service w = Some b \<and> service_name b = service_name a \<and>
            domain_routed (file (host_state t)) (''svc_'' @ service_name a) (domain b)))))"
proof -
  note inv = reachable_inv [OF assms(1,2)]
  note vs = restart_host [OF inv assms(2,5)]
  define h where "h = fold (host_config x) (recovered k s) (host_state s)"
  have tell: "\<forall>u \<in> set (recovered k s). tellable is_ip u"
    using vs(3) assms(4) by (fastforce simp: tellable_def)
  from servers_pass [OF assms(3,2) tell] have t:
    "view (host_state t) = fold (with_servers k) (recovered k s) (view h)" "file (host_state t) = file h"
    by (simp_all add: vs(1) h_def)
  have "inj (uuid_simple k)" using assms(2) by (simp add: crates_ok_def)
  note served = survivors_served [OF this vs(2) vs(3), where p = "view h"]
  have first: "(known_backend (view (host_state t)) ''volunteers'' \<longrightarrow>
        servers (view (host_state t)) (''volunteers'', uuid_simple k i) = Some (ready_at (service_addr (info v)) 1)) \<and>
      (\<forall>a. assigned_service v = Some a \<longrightarrow> known_backend (view (host_state t)) (''svc_'' @ service_name a) \<longrightarrow>
        (\<exists>j w b. hm_get (volunteers s) j = Some w \<and> assigned_service w = Some b \<and> service_name b = service_name a \<and>
          servers (view (host_state t)) (''svc_'' @ service_name a, ''primary'') = Some (ready_at (service_addr (info w)) 100)))"
    if v: "hm_get (volunteers s) i = Some v" for i v
  proof -
    from vs(4) [OF v] obtain u where u: "u \<in> set (recovered k s)" "vid u = i" by blast
    with served(1) [OF _ u(1)] served(2) [OF _ u(1)] v show ?thesis unfolding t(1) by simp
  qed
  have second: "in_step file view (host_state t)"
    "domain_routed (file (host_state s)) m d \<longrightarrow> domain_routed (file (host_state t)) m d"
    "hm_get (volunteers s) i = Some v \<Longrightarrow> assigned_service v = Some a \<Longrightarrow>
        service_exists (file (host_state t)) (''svc_'' @ service_name a) \<and>
        known_backend (view (host_state t)) (''svc_'' @ service_name a) \<and>
        (service_exists (file (host_state s)) (''svc_'' @ service_name a) \<or>
         (\<exists>j w b. hm_get (volunteers s) j = Some w \<and> assigned_service w = Some b \<and> service_name b = service_name a \<and>
            domain_routed (file (host_state t)) (''svc_'' @ service_name a) (domain b)))"
    if ok: "in_step file view (host_state s)"
      "list_all (\<lambda>r. r = Inr ()) (config_calls x (recovered k s) (host_state s))" for m d i v a
  proof -
    note pass = config_pass [OF assms(3) tell ok, folded h_def]
    then show in_step: "in_step file view (host_state t)" using t by (simp add: in_step_def)
    show "domain_routed (file (host_state s)) m d \<longrightarrow> domain_routed (file (host_state t)) m d"
      using pass t(2) by simp
    assume v: "hm_get (volunteers s) i = Some v" "assigned_service v = Some a"
    note routed = survivors_routed [OF inv assms(2,3) ok(1) tell ok(2) h_def v, folded t(2)]
    have "word (''svc_'' @ service_name a)" using assms(4) v svc_word(2) by (auto simp: tellable_def api_word_def)
    with in_step routed(1) have "known_backend (view (host_state t)) (''svc_'' @ service_name a)"
      by (simp add: in_step_def)
    with routed show "service_exists (file (host_state t)) (''svc_'' @ service_name a) \<and>
        known_backend (view (host_state t)) (''svc_'' @ service_name a) \<and>
        (service_exists (file (host_state s)) (''svc_'' @ service_name a) \<or>
         (\<exists>j w b. hm_get (volunteers s) j = Some w \<and> assigned_service w = Some b \<and> service_name b = service_name a \<and>
            domain_routed (file (host_state t)) (''svc_'' @ service_name a) (domain b)))" by blast
  qed
  show ?thesis
    using first second unfolding ready_at_def by (intro conjI allI impI) blast+
qed

text \<open>On the simulated host every configuration call answers Ok.\<close>

lemma sim_config_calls:
  assumes "\<forall>v \<in> set vs. tellable is_ip v" "cfg_ok (fst h)"
  shows "list_all (\<lambda>r. r = Inr ()) (config_calls sim_host vs h)"
  using assms
proof (induction vs arbitrary: h)
  case (Cons v vs)
  show ?case
  proof (cases "assigned_service v")
    case None
    with Cons show ?thesis by simp
  next
    case (Some a)
    then have a: "word (''svc_'' @ service_name a)" "plain_line (domain a)"
      using Cons.prems(1) svc_word(2) by (auto simp: tellable_def api_word_def)
    from sim_add_service [OF Cons.prems(2) a] obtain h' where
      h': "add_service sim_host (''svc_'' @ service_name a) (domain a) h = (Inr (), h')" by blast
    from Cons.IH [of h'] Cons.prems(1) add_service_ok(2) [OF sim_host_ok Cons.prems(2) a h'] h' Some show ?thesis
      by (simp add: ensure_service_config_def okE_def)
  qed
qed simp

text \<open>Here HAProxy has been set up anew, on a file without services, before the registrar starts again.\<close>

definition wit_lost :: "(string \<times> proxy) reg" where
  "wit_lost = wit_deployed\<lparr>host_state := host_state wit_fresh_start\<rparr>"

theorem restart_restores_proxy_witness:
  "let h = host_state (crash_restart sim_host wit 9 wit_lost)
   in servers (snd h) (''volunteers'', show_nat 7) =
        Some \<lparr>srv_addr = tunnel_addr wit_env 30000, srv_weight = 1, srv_state = ''ready''\<rparr> \<and>
      servers (snd h) (''svc_b'', ''primary'') =
        Some \<lparr>srv_addr = tunnel_addr wit_env 30000, srv_weight = 100, srv_state = ''ready''\<rparr> \<and>
      domain_routed (fst h) ''svc_b'' ''a.org''"
proof -
  let ?v = "set_assignment (assignment_of wit_job 0) wit_volunteer" and ?t = "crash_restart sim_host wit 9 wit_lost"
  have r: "reachable sim_host wit wit_lost"
    unfolding wit_lost_def by (rule reachable.request [OF wit_deployed_reachable request_step.outside])
  have one: "hm_get (volunteers wit_lost) i = Some v \<longleftrightarrow> i = 7 \<and> v = ?v" for i v
    by (auto simp: wit_lost_def wit_deployed_map hm_get_def)
  have v: "assigned_service ?v = Some (assignment_of wit_job 0)" "service_name (assignment_of wit_job 0) = ''b''"
    "domain (assignment_of wit_job 0) = ''a.org''" "service_addr (info ?v) = tunnel_addr wit_env 30000"
    by (simp_all add: set_assignment_def assignment_of_def wit_job_def wit_volunteer_def fresh_volunteer_def)
  have tv: "tellable (\<lambda>_. True) ?v"
    using wit_tellable wit_job_words v by (auto simp: tellable_def set_assignment_def)
  then have tell: "\<forall>i v. hm_get (volunteers wit_lost) i = Some v \<longrightarrow> tellable (\<lambda>_. True) v" by (simp add: one)
  have st: "in_step fst snd (host_state wit_lost)" "\<not> service_exists (fst (host_state wit_lost)) n" for n
    using wit_fresh_in_step sample_ok(3) by (simp_all add: wit_lost_def)
  have "\<forall>u \<in> set (recovered wit wit_lost). tellable (\<lambda>_. True) u"
    using restart_host(3) [OF reachable_inv [OF r wit_ok] wit_ok refl] tell by (fastforce simp: tellable_def)
  then have calls: "list_all (\<lambda>r. r = Inr ()) (config_calls sim_host (recovered wit wit_lost) (host_state wit_lost))"
    using sim_config_calls st(1) by (auto simp: in_step_def)
  note spec = restart_restores_proxy [OF r wit_ok sim_host_ok tell refl, of 9]
  note second = conjunct2 [OF spec, rule_format, OF st(1) calls]
  have v7: "hm_get (volunteers wit_lost) 7 = Some ?v" by (simp add: one)
  have t: "in_step fst snd (host_state ?t)" using second by blast
  then have known: "known_backend (snd (host_state ?t)) ''volunteers''" by (simp add: in_step_def)
  from second v7 v(1,2) have b: "known_backend (snd (host_state ?t)) (''svc_'' @ ''b'')" by (metis (no_types))
  from second v7 v(1,2) st(2) obtain j w c where "hm_get (volunteers wit_lost) j = Some w" "assigned_service w = Some c"
    "domain_routed (fst (host_state ?t)) (''svc_'' @ ''b'') (domain c)" by (metis (no_types))
  then have "domain_routed (fst (host_state ?t)) (''svc_'' @ ''b'') ''a.org''" using v by (auto simp: one)
  moreover have "servers (snd (host_state ?t)) (''volunteers'', show_nat 7) =
      Some \<lparr>srv_addr = tunnel_addr wit_env 30000, srv_weight = 1, srv_state = ''ready''\<rparr>"
    using conjunct1 [OF conjunct1 [OF spec, rule_format, OF v7]] v(4) known by (simp add: wit_name)
  moreover from conjunct1 [OF spec] v7 v(1,2) b obtain j w where "hm_get (volunteers wit_lost) j = Some w"
    "servers (snd (host_state ?t)) (''svc_'' @ ''b'', ''primary'') =
      Some \<lparr>srv_addr = service_addr (info w), srv_weight = 100, srv_state = ''ready''\<rparr>" by (metis (no_types))
  then have "servers (snd (host_state ?t)) (''svc_'' @ ''b'', ''primary'') =
      Some \<lparr>srv_addr = tunnel_addr wit_env 30000, srv_weight = 100, srv_state = ''ready''\<rparr>" using v(4) by (auto simp: one)
  ultimately show ?thesis by (simp add: Let_def)
qed

subsection \<open>Heartbeats\<close>

lemma heartbeat_host:
  assumes "hm_get (volunteers s) (hb_volunteer_id hb) = Some v"
  shows "host_state (snd (heartbeat x k now hb s)) =
    (let w = weight (metrics (beat now hb v)); (r, h) = set_volunteer_weight x k ''volunteers'' (vid v) w (host_state s)
     in case r of
          Inr _ \<Rightarrow> h
        | Inl e \<Rightarrow> if contains ''No such server'' (error_text e)
                    then snd (add_volunteer x k ''volunteers'' (vid v) (service_addr (info v)) w h) else h)"
proof -
  have "vid (beat now hb v) = vid v" "info (beat now hb v) = info v" by (simp_all add: beat_def)
  then show ?thesis
    using assms by (simp add: heartbeat_def push_weight_def on_host_eq Let_def frame split: sum.split prod.split)
qed

lemma add_volunteer_done:
  assumes "haproxy_admin is_ip x view" "api_word b" "api_word (uuid_simple k i)" "api_addr is_ip ip port" "unat w \<le> 256"
    and "known_backend (view h) b" "servers (view h) (b, uuid_simple k i) = None"
  shows "\<exists>h'. add_volunteer x k b i (ip @ '':'' @ port) w h = (Inr (), h') \<and>
    view h' = put_srv (b, uuid_simple k i) (Some (ready_at (ip @ '':'' @ port) w)) (view h)"
proof -
  let ?s = "uuid_simple k i" and ?a = "ip @ '':'' @ port"
  from add_new [OF assms(1-3,6,7,4) refl] obtain h1 u where
    1: "add_server x b ?s ?a h = (Inr (), h1)"
      "view h1 = put_srv (b, ?s) (Some \<lparr>srv_addr = ?a, srv_weight = u, srv_state = ''maint''\<rparr>) (view h)"
    by blast
  let ?v1 = "\<lparr>srv_addr = ?a, srv_weight = u, srv_state = ''maint''\<rparr>"
  have "succeeds view (set_weight x b ?s w) (view h1) (put_srv (b, ?s) (Some (?v1\<lparr>srv_weight := w\<rparr>)) (view h))"
    using set_existing(1) [OF assms(1-3), of "view h1" ?v1 w] 1(2) assms(5,6) by simp
  moreover have "succeeds view (set_state x b ?s ''ready'') (put_srv (b, ?s) (Some (?v1\<lparr>srv_weight := w\<rparr>)) (view h))
      (put_srv (b, ?s) (Some (ready_at ?a w)) (view h))"
    using set_existing(2) [OF assms(1-3), of "put_srv (b, ?s) (Some (?v1\<lparr>srv_weight := w\<rparr>)) (view h)"
        "?v1\<lparr>srv_weight := w\<rparr>" "''ready''"] assms(6) by (simp add: ready_at_def)
  ultimately have "succeeds view (tryE (map_errE Runtime (set_weight x b ?s w)) (\<lambda>_.
      tryE (map_errE Runtime (set_state x b ?s ''ready'')) (\<lambda>_. okE ()))) (view h1)
      (put_srv (b, ?s) (Some (ready_at ?a w)) (view h))"
    by (intro succeeds_tryE succeeds_then_ok) simp_all
  from succeedsD [OF this] 1(1) show ?thesis by (simp add: add_volunteer_def server_name_for_def Let_def)
qed

text \<open>C19 Heartbeats repair what a reload wipes: when HAProxy has lost the server of a volunteer, its next
  heartbeat adds it again, ready, at the volunteer's address and with the weight of the reported load;
  when the server is there, the heartbeat sets its weight and nothing else, so a server that a failed
  move left in maintenance stays in maintenance.\<close>

theorem heartbeat_repairs_server:
  assumes "reachable x k s" and "crates_ok k" and "haproxy_admin is_ip x view"
    and "hm_get (volunteers s) (hb_volunteer_id hb) = Some v" and "tellable is_ip v"
    and "known_backend (view (host_state s)) ''volunteers''"
    and "w = weight \<lparr>cpu_pct = hb_cpu_pct hb, mem_pct = hb_mem_pct hb, load_avg = hb_load_avg hb,
           active_requests = hb_active_requests hb\<rparr>"
  shows "servers (view (host_state (snd (heartbeat x k now hb s)))) =
    (servers (view (host_state s)))((''volunteers'', uuid_simple k (hb_volunteer_id hb)) \<mapsto>
       (case servers (view (host_state s)) (''volunteers'', uuid_simple k (hb_volunteer_id hb)) of
          Some u \<Rightarrow> u\<lparr>srv_weight := w\<rparr>
        | None \<Rightarrow> \<lparr>srv_addr = service_addr (info v), srv_weight = w, srv_state = ''ready''\<rparr>))"
proof -
  let ?h = "host_state s" and ?n = "uuid_simple k (hb_volunteer_id hb)"
  have id: "vid v = hb_volunteer_id hb"
    using map_inv_get [OF reg_invD(1) [OF reachable_inv [OF assms(1,2)]] assms(4)] by simp
  have n: "api_word ?n" using assms(2) by (simp add: crates_ok_def)
  have w: "weight (metrics (beat now hb v)) = w" "unat w \<le> 256"
    using weight_le_100 [of "metrics (beat now hb v)"] assms(7) by (simp_all add: beat_def)
  obtain ip port where a: "service_addr (info v) = ip @ '':'' @ port" "api_addr is_ip ip port"
    using assms(5) by (auto simp: tellable_def)
  note host = heartbeat_host [OF assms(4), of x k now]
  show ?thesis
  proof (cases "servers (view ?h) (''volunteers'', ?n)")
    case (Some u)
    from succeedsD [OF set_existing(1) [OF assms(3) primary_word(2) n assms(6) Some w(2)]] obtain h1 where
      "set_weight x ''volunteers'' ?n w ?h = (Inr (), h1)"
      "view h1 = put_srv (''volunteers'', ?n) (Some (u\<lparr>srv_weight := w\<rparr>)) (view ?h)" by blast
    with Some show ?thesis
      by (simp add: host w id set_volunteer_weight_def server_name_for_def Let_def okE_def)
  next
    case None
    from set_missing(1) [OF assms(3) primary_word(2) n _ refl w(2), of ?h] None assms(6) obtain r h1 where
      1: "set_weight x ''volunteers'' ?n w ?h = (Inl (Response r), h1)" "contains ''No such server'' r"
        "view h1 = view ?h" by auto
    have c: "contains ''No such server'' (error_text (Runtime (Response r)))"
      using contains_append_left [OF 1(2), of "''runtime API error: haproxy returned an error response: ''"] by simp
    from add_volunteer_done [OF assms(3) primary_word(2) n a(2) w(2), of h1] 1(3) None assms(6) obtain h2 where
      "add_volunteer x k ''volunteers'' (hb_volunteer_id hb) (ip @ '':'' @ port) w h1 = (Inr (), h2)"
      "view h2 = put_srv (''volunteers'', ?n) (Some (ready_at (ip @ '':'' @ port) w)) (view ?h)" by auto
    with None a(1) 1(1) c show ?thesis
      by (simp add: host w id set_volunteer_weight_def server_name_for_def Let_def ready_at_def
          del: contains.simps error_text.simps)
  qed
qed

definition wit_load :: heartbeat_request where
  "wit_load = \<lparr>hb_volunteer_id = 7, hb_cpu_pct = Fin 0, hb_mem_pct = Fin 0, hb_load_avg = Fin 0,
     hb_active_requests = 0, hb_service_running = None, hb_service_image = None\<rparr>"

theorem heartbeat_repairs_server_witness:
  "servers (snd (host_state (snd (heartbeat sim_host wit 9 wit_load (wit_routed\<lparr>host_state := host_state wit_fresh_start\<rparr>))))) =
     [(''volunteers'', show_nat 7) \<mapsto> \<lparr>srv_addr = tunnel_addr wit_env 30000,
        srv_weight = weight \<lparr>cpu_pct = Fin 0, mem_pct = Fin 0, load_avg = Fin 0, active_requests = 0\<rparr>,
        srv_state = ''ready''\<rparr>]"
proof -
  let ?s = "wit_routed\<lparr>host_state := host_state wit_fresh_start\<rparr>"
  have r: "reachable sim_host wit ?s" by (rule reachable.request [OF wit_routed_reachable(2) request_step.outside])
  have v: "hm_get (volunteers ?s) (hb_volunteer_id wit_load) = Some wit_volunteer"
    by (simp add: wit_routed_state(1) hm_get_def wit_load_def)
  have h: "known_backend (snd (host_state ?s)) ''volunteers''" "servers (snd (host_state ?s)) = Map.empty"
    using sample_ok(2) by (simp_all add: wit_fresh_start_def new_app_def)
  have a: "service_addr (info wit_volunteer) = tunnel_addr wit_env 30000" "uuid_simple wit (hb_volunteer_id wit_load) = show_nat 7"
    by (simp_all add: wit_volunteer_def fresh_volunteer_def wit_load_def wit_name)
  have w: "hb_cpu_pct wit_load = Fin 0" "hb_mem_pct wit_load = Fin 0" "hb_load_avg wit_load = Fin 0"
    "hb_active_requests wit_load = 0" by (simp_all add: wit_load_def)
  show ?thesis
    using heartbeat_repairs_server [OF r wit_ok sim_admin v wit_tellable h(1) refl, of 9]
    unfolding h(2) a w by simp
qed

end
