(* ===== verification/Registrar_Routing.thy ===== *)
theory Registrar_Routing
  imports Registrar_Proxy
begin

text \<open>
  What the handlers of the registrar do to HAProxy when volunteers come and go: an enrollment leaves a
  volunteer reachable, with its service if HAProxy took it; a disconnection and an eviction take its
  server away, or leave it in maintenance when HAProxy cancels the deletion, and only that one, so the
  server of its service stays.
\<close>

subsection \<open>Volunteers that come\<close>

lemma enroll_finish_host:
  "host_state (snd (enroll_finish x k e now n req f s)) =
     snd (upsert_volunteer x k ''volunteers'' (enroll_id n f) (tunnel_addr e (tunnel_public_port req)) 100
       (host_state (snd (enroll_job x k e now n req f s))))"
  by (simp add: enroll_finish_def enroll_job_def enroll_id_def Let_def split_beta frame on_host_eq split: option.split)

text \<open>A service HAProxy can be told about.\<close>

definition routable :: "string \<Rightarrow> string \<Rightarrow> bool" where
  "routable n d \<longleftrightarrow> api_word n \<and> plain_line d"

definition serves_at :: "('h \<Rightarrow> string) \<Rightarrow> ('h \<Rightarrow> proxy) \<Rightarrow> string \<Rightarrow> string \<Rightarrow> 'h \<Rightarrow> bool" where
  "serves_at file view n addr h \<longleftrightarrow> service_exists (file h) (''svc_'' @ n) \<and>
     servers (view h) (''svc_'' @ n, ''primary'') = Some (ready_at addr 100)"

text \<open>The name and domain of the service an enrollment tries to give to the volunteer: the one that it
  had before, or else the first of the queue.\<close>

definition offered_by :: "uuid option \<times> service_assignment option \<Rightarrow> 'h reg \<Rightarrow> (string \<times> string) option" where
  "offered_by f s =
     (case snd f of
        Some a \<Rightarrow> Some (service_name a, domain a)
      | None \<Rightarrow> (case pending_services s of p # _ \<Rightarrow> Some (p_name p, p_domain p) | [] \<Rightarrow> None))"

definition offered :: "enroll_request \<Rightarrow> 'h reg \<Rightarrow> (string \<times> string) option" where
  "offered req s = offered_by (known (hostname (er_info req)) (volunteers s)) s"

lemma job_host:
  assumes "tunnel_addr e (tunnel_public_port req) = addr"
  shows "case offered_by f s of
      None \<Rightarrow> host_state (snd (enroll_job x k e now n req f s)) = host_state s \<and> fst (enroll_job x k e now n req f s) = None
    | Some (m, d) \<Rightarrow> \<exists>r h. assign_service x m d (enroll_id n f) addr (host_state s) = (r, h) \<and>
        host_state (snd (enroll_job x k e now n req f s)) = h \<and>
        (r = Inr () \<longrightarrow> (\<exists>b. fst (enroll_job x k e now n req f s) = Some b \<and> service_name b = m \<and> domain b = d)) \<and>
        (isl r \<longrightarrow> fst (enroll_job x k e now n req f s) = snd f \<and>
           pending_services (snd (enroll_job x k e now n req f s)) = pending_services s)"
proof (cases "snd f")
  case (Some a)
  obtain r h where "assign_service x (service_name a) (domain a) (enroll_id n f) addr (host_state s) = (r, h)"
    by (cases "assign_service x (service_name a) (domain a) (enroll_id n f) addr (host_state s)")
  with Some show ?thesis
    by (simp add: offered_by_def enroll_job_def Let_def reattach_def assms on_host_eq frame)
next
  case None
  then have job: "enroll_job x k e now n req f s = take_pending x k now (enroll_id n f) addr s"
    by (simp add: enroll_job_def Let_def assms)
  show ?thesis
  proof (cases "pending_services s")
    case Nil
    with None show ?thesis by (simp add: offered_by_def job take_pending_def)
  next
    case (Cons p ps)
    obtain r h where r: "assign_service x (p_name p) (p_domain p) (enroll_id n f) addr (host_state s) = (r, h)"
      by (cases "assign_service x (p_name p) (p_domain p) (enroll_id n f) addr (host_state s)")
    with Cons None show ?thesis
      by (cases r) (simp_all add: offered_by_def job take_pending_def on_host_eq frame assignment_of_def push_front_def)
  qed
qed

text \<open>What an attempt to assign leaves of the own servers of the volunteers' backend.\<close>

lemma assign_known:
  assumes "haproxy_host is_ip x file view" "in_step file view h" "routable n d" "api_addr is_ip ip port"
    and "assign_service x n d i (ip @ '':'' @ port) h = (r, h')"
  shows "known_backend (view h') ''volunteers''"
proof (cases r)
  case (Inl e)
  have "cfg_ok (file h)" using assms(2) by (simp add: in_step_def)
  from assign_service_outcome [OF assms(1) this _ _ assms(4,5)] assms(3) Inl have "view h' = view h"
    by (simp add: routable_def)
  then show ?thesis using assms(2) by (simp add: in_step_def)
next
  case (Inr u)
  with assms(5) have "assign_service x n d i (ip @ '':'' @ port) h = (Inr (), h')" by simp
  from assign_in_step(1) [OF assms(1,2) _ _ assms(4) this] assms(3) show ?thesis
    by (simp add: routable_def in_step_def)
qed

text \<open>C11 After an enrollment visitors reach the volunteer: HAProxy has its server, ready, at the tunnel
  address it enrolled with, whatever became of a service. The service offered to it is the one it had,
  or else the first of the queue. If its assignment in HAProxy answers Ok, the volunteer has that
  service, the file has it, at the offered domain when it was not in the file before, and the server of
  the service is ready at that address; if it fails, a service that it had stays with it and one of the
  queue stays where it was. This for a registrar that serves one request at a time without failing
  database statements, while the admin socket answers, when file and HAProxy agreed before.\<close>

theorem enrolled_is_routed:
  assumes "reachable x k s" and "crates_ok k" and "fresh_id k n s"
    and "haproxy_host is_ip x file view" and "in_step file view (host_state s)"
    and "tunnel_addr e (tunnel_public_port req) = ip @ '':'' @ port" and "api_addr is_ip ip port"
    and "\<forall>m d. offered req s = Some (m, d) \<longrightarrow> routable m d"
    and "enroll x k e now n req s = (r, s')"
  shows "\<exists>i v. r = (201, Enroll_response (uuid_text k i) HEARTBEAT_INTERVAL_SECS (payload (assigned_service v))) \<and>
    hm_get (volunteers s') i = Some v \<and>
    servers (view (host_state s')) (''volunteers'', uuid_simple k i) = Some (ready_at (ip @ '':'' @ port) 100) \<and>
    (case offered req s of
       None \<Rightarrow> assigned_service v = None
     | Some (m, d) \<Rightarrow>
         (if fst (assign_service x m d i (ip @ '':'' @ port) (host_state s)) = Inr ()
          then (\<exists>b. assigned_service v = Some b \<and> service_name b = m \<and> domain b = d) \<and>
            serves_at file view m (ip @ '':'' @ port) (host_state s') \<and> in_step file view (host_state s') \<and>
            (\<not> service_exists (file (host_state s)) (''svc_'' @ m) \<longrightarrow> domain_routed (file (host_state s')) (''svc_'' @ m) d)
          else assigned_service v = snd (known (hostname (er_info req)) (volunteers s)) \<and>
            pending_services s' = pending_services s))"
proof -
  note inv = reg_invD [OF reachable_inv [OF assms(1,2)]]
  let ?a = "ip @ '':'' @ port"
  let ?f = "known (hostname (er_info req)) (volunteers s)"
  let ?i = "enroll_id n ?f" and ?v = "enrolled x k e now n req ?f s" and ?job = "enroll_job x k e now n req ?f s"
  have en: "enroll_finish x k e now n req ?f s = (r, s')"
    using assms(9) by (simp add: enroll_known [OF reachable_inv [OF assms(1,2)]])
  note job = job_host [OF assms(6), where f = ?f and s = s and x = x and k = k and now = now and n = n, folded offered_def]
  have known: "known_backend (view (host_state (snd ?job))) ''volunteers''"
  proof (cases "offered req s")
    case None
    with job assms(5) show ?thesis by (simp add: in_step_def)
  next
    case (Some md)
    obtain m d where md: "md = (m, d)" by (cases md)
    with job Some obtain q h where q: "assign_service x m d ?i ?a (host_state s) = (q, h)" "host_state (snd ?job) = h"
      by auto
    have "routable m d" using assms(8) Some md by simp
    from assign_known [OF assms(4,5) this assms(7) q(1)] q(2) show ?thesis by simp
  qed
  have s: "api_word (uuid_simple k ?i)" using assms(2) by (simp add: crates_ok_def)
  from upsert_ready [OF assms(4) primary_word(2) s assms(7) _ known, of 100] obtain h where
    h: "upsert_server x ''volunteers'' (uuid_simple k ?i) ?a 100 (host_state (snd ?job)) = (Inr (), h)"
      "view h = put_srv (''volunteers'', uuid_simple k ?i) (Some (ready_at ?a 100)) (view (host_state (snd ?job)))"
      "file h = file (host_state (snd ?job))" by auto
  have host: "host_state s' = h"
    using enroll_finish_host [of x k e now n req ?f s] en h(1)
    by (simp add: assms(6) upsert_volunteer_def server_name_for_def okE_def)
  have map: "hm_get (volunteers s') ?i = Some ?v"
    "r = (201, Enroll_response (uuid_text k ?i) HEARTBEAT_INTERVAL_SECS (payload (assigned_service ?v)))"
    "pending_services s' = pending_services (snd ?job)"
    using enroll_finish_frame [of x k e now n req ?f s] enroll_finish_response [of x k e now n req ?f s] en inv(4)
    by (simp_all add: store_simps)
  have v: "assigned_service ?v = fst ?job" by (simp add: enrolled_def fresh_volunteer_def)
  have offer: "case offered req s of
       None \<Rightarrow> fst ?job = None
     | Some (m, d) \<Rightarrow>
         (if fst (assign_service x m d ?i ?a (host_state s)) = Inr ()
          then (\<exists>b. fst ?job = Some b \<and> service_name b = m \<and> domain b = d) \<and>
            serves_at file view m ?a h \<and> in_step file view h \<and>
            (\<not> service_exists (file (host_state s)) (''svc_'' @ m) \<longrightarrow> domain_routed (file h) (''svc_'' @ m) d)
          else fst ?job = snd ?f \<and> pending_services (snd ?job) = pending_services s)"
  proof (cases "offered req s")
    case None
    with job show ?thesis by simp
  next
    case (Some md)
    obtain m d where md: "md = (m, d)" by (cases md)
    with job Some obtain q h1 where q: "assign_service x m d ?i ?a (host_state s) = (q, h1)" "host_state (snd ?job) = h1"
      "q = Inr () \<longrightarrow> (\<exists>b. fst ?job = Some b \<and> service_name b = m \<and> domain b = d)"
      "isl q \<longrightarrow> fst ?job = snd ?f \<and> pending_services (snd ?job) = pending_services s" by auto
    have "routable m d" using assms(8) Some md by simp
    then have w: "api_word m" "plain_line d" by (simp_all add: routable_def)
    show ?thesis
    proof (cases q)
      case (Inl er)
      with q Some md show ?thesis by simp
    next
      case (Inr u)
      with q(1) have "assign_service x m d ?i ?a (host_state s) = (Inr (), h1)" by simp
      note step = assign_in_step [OF assms(4,5) w assms(7) this]
      from step(1) h(2,3) q(2) have "in_step file view h" by (simp add: in_step_def)
      with step(2-4) h(2,3) q Inr Some md show ?thesis by (auto simp: serves_at_def)
    qed
  qed
  show ?thesis
  proof (intro exI conjI)
    show "r = (201, Enroll_response (uuid_text k ?i) HEARTBEAT_INTERVAL_SECS (payload (assigned_service ?v)))"
      "hm_get (volunteers s') ?i = Some ?v" by (rule map)+
    show "servers (view (host_state s')) (''volunteers'', uuid_simple k ?i) = Some (ready_at ?a 100)"
      by (simp add: host h(2))
    show "case offered req s of
       None \<Rightarrow> assigned_service ?v = None
     | Some (m, d) \<Rightarrow>
         (if fst (assign_service x m d ?i ?a (host_state s)) = Inr ()
          then (\<exists>b. assigned_service ?v = Some b \<and> service_name b = m \<and> domain b = d) \<and>
            serves_at file view m ?a (host_state s') \<and> in_step file view (host_state s') \<and>
            (\<not> service_exists (file (host_state s)) (''svc_'' @ m) \<longrightarrow> domain_routed (file (host_state s')) (''svc_'' @ m) d)
          else assigned_service ?v = snd ?f \<and> pending_services s' = pending_services s)"
      using offer unfolding v host map(3) .
  qed
qed

text \<open>A service waits when the volunteer enrolls.\<close>

theorem enrolled_is_routed_witness:
  "servers (snd (host_state wit_deployed)) (''volunteers'', show_nat 7) = Some (ready_at (tunnel_addr wit_env 30000) 100) \<and>
   serves_at fst snd ''b'' (tunnel_addr wit_env 30000) (host_state wit_deployed) \<and>
   domain_routed (fst (host_state wit_deployed)) ''svc_b'' ''a.org''"
proof -
  have "known (hostname (er_info (wit_req ''a''))) (volunteers wit_waiting) = (None, None)"
    by (simp add: known_def wit_waiting_state hm_values_def)
  then have o: "offered (wit_req ''a'') wit_waiting = Some (''b'', ''a.org'')"
    by (simp add: offered_def offered_by_def wit_waiting_state wit_job_def)
  have h: "in_step fst snd (host_state wit_waiting)" "\<not> service_exists (fst (host_state wit_waiting)) n" for n
    using wit_fresh_in_step sample_ok(3) by (simp_all add: wit_waiting_state)
  have p: "tunnel_addr wit_env (tunnel_public_port (wit_req ''a'')) = ''10.0.0.1'' @ '':'' @ show_nat 30000"
    by (simp add: wit_req_def wit_addr(1))
  have w: "\<forall>m d. offered (wit_req ''a'') wit_waiting = Some (m, d) \<longrightarrow> routable m d"
    using wit_job_words by (simp add: o routable_def)
  obtain r where r: "enroll sim_host wit wit_env 0 7 (wit_req ''a'') wit_waiting = (r, wit_deployed)"
    unfolding wit_deployed_def by (metis surjective_pairing)
  note spec = enrolled_is_routed [OF wit_waiting_reachable(1) wit_ok wit_waiting_reachable(2) sim_host_ok h(1) p wit_addr(2) w r]
  from spec [unfolded o option.case prod.case] obtain i v where iv: "hm_get (volunteers wit_deployed) i = Some v"
    "servers (snd (host_state wit_deployed)) (''volunteers'', uuid_simple wit i) = Some (ready_at (''10.0.0.1'' @ '':'' @ show_nat 30000) 100)"
    "if fst (assign_service sim_host ''b'' ''a.org'' i (''10.0.0.1'' @ '':'' @ show_nat 30000) (host_state wit_waiting)) = Inr ()
     then (\<exists>c. assigned_service v = Some c \<and> service_name c = ''b'' \<and> domain c = ''a.org'') \<and>
       serves_at fst snd ''b'' (''10.0.0.1'' @ '':'' @ show_nat 30000) (host_state wit_deployed) \<and>
       in_step fst snd (host_state wit_deployed) \<and>
       (\<not> service_exists (fst (host_state wit_waiting)) (''svc_'' @ ''b'') \<longrightarrow>
        domain_routed (fst (host_state wit_deployed)) (''svc_'' @ ''b'') ''a.org'')
     else assigned_service v = snd (known (hostname (er_info (wit_req ''a''))) (volunteers wit_waiting)) \<and>
       pending_services wit_deployed = pending_services wit_waiting"
    by (elim exE conjE) (rule that)
  have "i = 7" using iv(1) by (simp add: wit_deployed_map hm_get_def split: if_splits)
  moreover have "fst (assign_service sim_host ''b'' ''a.org'' i (''10.0.0.1'' @ '':'' @ show_nat 30000) (host_state wit_waiting)) = Inr ()"
    using wit_assigned [of i] unfolding wit_addr(1) wit_waiting_state(3) by auto
  ultimately show ?thesis using iv(2,3) h(2) by (simp add: wit_addr(1) wit_name)
qed

subsection \<open>Volunteers that go\<close>

text \<open>A server that is taken out: it is gone, or it is still there in maintenance.\<close>

definition taken_out :: "srv option \<Rightarrow> srv option \<Rightarrow> bool" where
  "taken_out before after \<longleftrightarrow> after = None \<or> after = map_option (srv_state_update (\<lambda>_. ''maint'')) before"

lemma taken_out_again: "taken_out u v \<Longrightarrow> taken_out v w \<Longrightarrow> taken_out u w"
  by (cases u) (auto simp: taken_out_def)

lemma remove_gone:
  assumes "haproxy_admin is_ip x view" "crates_ok k" "known_backend (view h) ''volunteers''"
  obtains u where "view (snd (remove_volunteer x k ''volunteers'' i h)) = put_srv (''volunteers'', uuid_simple k i) u (view h)"
    "taken_out (servers (view h) (''volunteers'', uuid_simple k i)) u"
proof -
  have s: "api_word (server_name_for k i)" using assms(2) by (simp add: crates_ok_def server_name_for_def)
  show ?thesis
  proof (cases "servers (view h) (''volunteers'', server_name_for k i)")
    case None
    with failsD [OF remove_volunteer_missing [OF assms(1) primary_word(2) s, of "view h"]]
    obtain e h' where "remove_volunteer x k ''volunteers'' i h = (Inl e, h')" "view h' = view h" by auto
    with None show ?thesis
      by (intro that [of None]) (simp_all add: put_srv_def server_name_for_def fun_upd_idem taken_out_def)
  next
    case (Some u)
    from remove_volunteer_done [OF assms(1) primary_word(2) s assms(3) Some] obtain r h' where
      r: "remove_volunteer x k ''volunteers'' i h = (r, h')"
      "view h' = put_srv (''volunteers'', uuid_simple k i) None (view h) \<or>
       view h' = put_srv (''volunteers'', uuid_simple k i) (Some (u\<lparr>srv_state := ''maint''\<rparr>)) (view h)"
      by (auto simp: server_name_for_def)
    show ?thesis
    proof (cases "view h' = put_srv (''volunteers'', uuid_simple k i) None (view h)")
      case True
      with r(1) show ?thesis by (intro that [of None]) (simp_all add: taken_out_def)
    next
      case False
      with r Some show ?thesis
        by (intro that [of "Some (u\<lparr>srv_state := ''maint''\<rparr>)"]) (simp_all add: taken_out_def server_name_for_def)
    qed
  qed
qed

lemma disconnect_host:
  assumes "uuid_parse k id_str = Some i" "hm_get (volunteers s) i = Some v"
  shows "host_state (snd (disconnect x k id_str s)) = snd (remove_volunteer x k ''volunteers'' i (host_state s))"
  using assms by (simp add: disconnect_def Let_def frame on_host_eq)

lemma evict_host:
  "host_state (evict x k now d s) = snd (remove_volunteer x k ''volunteers'' (fst d) (host_state s))"
  by (cases d) (simp add: evict_def Let_def frame on_host_eq split: option.split)

lemma evict_all_host:
  assumes "haproxy_admin is_ip x view" "crates_ok k" "known_backend (view (host_state s)) ''volunteers''"
  shows "if \<exists>d \<in> set ds. t = (''volunteers'', uuid_simple k (fst d))
    then taken_out (servers (view (host_state s)) t) (servers (view (host_state (fold (evict x k now) ds s))) t)
    else servers (view (host_state (fold (evict x k now) ds s))) t = servers (view (host_state s)) t"
  using assms(3)
proof (induction ds arbitrary: s)
  case (Cons d ds)
  obtain u where v: "view (host_state (evict x k now d s)) = put_srv (''volunteers'', uuid_simple k (fst d)) u (view (host_state s))"
    "taken_out (servers (view (host_state s)) (''volunteers'', uuid_simple k (fst d))) u"
    unfolding evict_host by (rule remove_gone [OF assms(1,2) Cons.prems])
  with Cons.prems have "known_backend (view (host_state (evict x k now d s))) ''volunteers''" by simp
  note ih = Cons.IH [OF this]
  show ?case
  proof (cases "t = (''volunteers'', uuid_simple k (fst d))")
    case True
    with ih v show ?thesis by (auto simp: put_srv_def taken_out_again split: if_splits)
  next
    case False
    with ih v(1) show ?thesis by (auto simp: put_srv_def split: if_splits)
  qed
qed simp

text \<open>C12 Volunteers that go are taken out of HAProxy, and nothing else is: after a disconnection the server of the
  volunteer, after a churn tick those of the volunteers it evicts, are gone or, where HAProxy cancelled
  the deletion, stay in maintenance, where they get no requests; every other server is as it was. In
  particular the server of a service stays, ready, at the address of a volunteer that has gone, until the
  service is given to another one. This while the admin socket answers and HAProxy knows the backend of
  the volunteers, for handlers that run one at a time.\<close>

theorem gone_volunteers_unrouted:
  assumes "reachable x k s" and "crates_ok k" and "haproxy_admin is_ip x view"
    and "known_backend (view (host_state s)) ''volunteers''"
  shows "(\<forall>id_str i v t. uuid_parse k id_str = Some i \<and> hm_get (volunteers s) i = Some v \<longrightarrow>
      (if t = (''volunteers'', uuid_simple k i)
       then taken_out (servers (view (host_state s)) t) (servers (view (host_state (snd (disconnect x k id_str s)))) t)
       else servers (view (host_state (snd (disconnect x k id_str s)))) t = servers (view (host_state s)) t)) \<and>
    (\<forall>t. if \<exists>i v. hm_get (volunteers s) i = Some v \<and> \<not> is_alive now v \<and> t = (''volunteers'', uuid_simple k i)
       then taken_out (servers (view (host_state s)) t) (servers (view (host_state (churn_tick x k now s))) t)
       else servers (view (host_state (churn_tick x k now s))) t = servers (view (host_state s)) t)"
proof (rule conjI; intro allI impI; (elim conjE)?)
  fix id_str i v t assume a: "uuid_parse k id_str = Some i" "hm_get (volunteers s) i = Some v"
  obtain u where "view (snd (remove_volunteer x k ''volunteers'' i (host_state s))) =
      put_srv (''volunteers'', uuid_simple k i) u (view (host_state s))"
    "taken_out (servers (view (host_state s)) (''volunteers'', uuid_simple k i)) u"
    by (rule remove_gone [OF assms(3,2,4)])
  with disconnect_host [OF a]
  show "if t = (''volunteers'', uuid_simple k i)
       then taken_out (servers (view (host_state s)) t) (servers (view (host_state (snd (disconnect x k id_str s)))) t)
       else servers (view (host_state (snd (disconnect x k id_str s)))) t = servers (view (host_state s)) t"
    by (simp add: put_srv_def)
next
  fix t
  have "host_state (churn_tick x k now s) = host_state (fold (evict x k now) (dead_volunteers now s) s)"
    by (simp add: churn_tick_def Let_def frame)
  moreover have "(\<exists>d \<in> set (dead_volunteers now s). t = (''volunteers'', uuid_simple k (fst d))) \<longleftrightarrow>
      (\<exists>i \<in> fst ` set (dead_volunteers now s). t = (''volunteers'', uuid_simple k i))" by blast
  then have "(\<exists>d \<in> set (dead_volunteers now s). t = (''volunteers'', uuid_simple k (fst d))) \<longleftrightarrow>
      (\<exists>i v. hm_get (volunteers s) i = Some v \<and> \<not> is_alive now v \<and> t = (''volunteers'', uuid_simple k i))"
    unfolding Bex_def dead_iff [OF reg_invD(1) [OF reachable_inv [OF assms(1,2)]]] by blast
  ultimately show "if \<exists>i v. hm_get (volunteers s) i = Some v \<and> \<not> is_alive now v \<and> t = (''volunteers'', uuid_simple k i)
       then taken_out (servers (view (host_state s)) t) (servers (view (host_state (churn_tick x k now s))) t)
       else servers (view (host_state (churn_tick x k now s))) t = servers (view (host_state s)) t"
    using evict_all_host [OF assms(3,2,4), of "dead_volunteers now s" t now] by simp
qed

theorem gone_volunteers_unrouted_witness:
  "taken_out (Some (ready_at (tunnel_addr wit_env 30000) 100))
     (servers (snd (host_state (churn_tick sim_host wit (50 * 10 ^ 9) wit_routed))) (''volunteers'', show_nat 7)) \<and>
   servers (snd (host_state (churn_tick sim_host wit (40 * 10 ^ 9) wit_routed))) =
     [(''volunteers'', show_nat 7) \<mapsto> ready_at (tunnel_addr wit_env 30000) 100]"
proof -
  have known: "known_backend (snd (host_state wit_routed)) ''volunteers''"
    using wit_routed_in_step(1) by (simp add: in_step_def)
  have one: "hm_get (volunteers wit_routed) i = Some v \<longleftrightarrow> i = 7 \<and> v = wit_volunteer" for i v
    by (auto simp: wit_routed_state(1) hm_get_def)
  note gone = conjunct2 [OF gone_volunteers_unrouted [OF wit_routed_reachable(2) wit_ok sim_admin known], rule_format]
  have "taken_out (Some (ready_at (tunnel_addr wit_env 30000) 100))
     (servers (snd (host_state (churn_tick sim_host wit (50 * 10 ^ 9) wit_routed))) (''volunteers'', show_nat 7))"
    using gone [of "50 * 10 ^ 9" "(''volunteers'', show_nat 7)"]
    by (simp add: one wit_volunteer_alive wit_name wit_routed_in_step(2))
  moreover have "servers (snd (host_state (churn_tick sim_host wit (40 * 10 ^ 9) wit_routed))) t =
      servers (snd (host_state wit_routed)) t" for t
    using gone [of "40 * 10 ^ 9" t] by (simp add: one wit_volunteer_alive)
  ultimately show ?thesis by (simp add: fun_eq_iff wit_routed_in_step(2))
qed

end
