(* ===== verification/Registrar_Boot.thy ===== *)
theory Registrar_Boot
  imports Registrar_Properties
begin

text \<open>
  The start of the registrar's process: \<^verbatim>\<open>Db::init\<close> of \<^verbatim>\<open>db.rs\<close> with the two table
  definitions, and \<^verbatim>\<open>main\<close> up to the crash recovery.
\<close>

subsection \<open>The schema\<close>

datatype sql_type = TEXT | INTEGER | REAL

datatype sql_value = NULL | Sql_text string | Sql_int i64 | Sql_real f32

record column =
  col_name :: string
  col_type :: sql_type
  not_null :: bool
  col_default :: "sql_value option"

definition key_column :: "string \<Rightarrow> column" where
  "key_column n = \<lparr>col_name = n, col_type = TEXT, not_null = False, col_default = None\<rparr>"

definition required :: "string \<Rightarrow> sql_type \<Rightarrow> column" where
  "required n t = \<lparr>col_name = n, col_type = t, not_null = True, col_default = None\<rparr>"

definition column_default :: "string \<Rightarrow> sql_type \<Rightarrow> sql_value \<Rightarrow> column" where
  "column_default n t d = \<lparr>col_name = n, col_type = t, not_null = True, col_default = Some d\<rparr>"

definition CREATE_VOLUNTEERS_TABLE :: "column list" where
  "CREATE_VOLUNTEERS_TABLE =
     [key_column ''id'',
      required ''hostname'' TEXT,
      required ''os'' TEXT,
      required ''arch'' TEXT,
      required ''cpu_cores'' INTEGER,
      required ''cpu_model'' TEXT,
      required ''memory_total_mb'' INTEGER,
      required ''disk_free_gb'' INTEGER,
      required ''docker_version'' TEXT,
      required ''tunnel_version'' TEXT,
      required ''service_addr'' TEXT,
      column_default ''cpu_pct'' REAL (Sql_real (Fin 0)),
      column_default ''mem_pct'' REAL (Sql_real (Fin 0)),
      column_default ''load_avg'' REAL (Sql_real (Fin 0)),
      column_default ''active_requests'' INTEGER (Sql_int 0),
      required ''enrolled_at'' TEXT,
      required ''last_heartbeat'' TEXT]"

definition CREATE_ASSIGNMENTS_TABLE :: "column list" where
  "CREATE_ASSIGNMENTS_TABLE =
     [key_column ''volunteer_id'',
      required ''service_name'' TEXT,
      required ''domain'' TEXT,
      required ''image'' TEXT,
      required ''service_port'' INTEGER,
      required ''assigned_at'' TEXT]"

text \<open>The columns an \<^verbatim>\<open>INSERT\<close> names, with the values bound to its parameters. A NaN is bound as NULL.\<close>

definition bind_real :: "f32 \<Rightarrow> sql_value" where
  "bind_real x = (if x = NaN then NULL else Sql_real x)"

definition volunteer_bindings :: "crates \<Rightarrow> volunteer_state \<Rightarrow> (string \<times> sql_value) list" where
  "volunteer_bindings k v = zip
     [''id'', ''hostname'', ''os'', ''arch'', ''cpu_cores'', ''cpu_model'', ''memory_total_mb'', ''disk_free_gb'',
      ''docker_version'', ''tunnel_version'', ''service_addr'',
      ''cpu_pct'', ''mem_pct'', ''load_avg'', ''active_requests'', ''enrolled_at'', ''last_heartbeat'']
     [Sql_text (uuid_text k (vid v)),
      Sql_text (hostname (info v)),
      Sql_text (os (info v)),
      Sql_text (arch (info v)),
      Sql_int (ucast (cpu_cores (info v))),
      Sql_text (cpu_model (info v)),
      Sql_int (ucast (memory_total_mb (info v))),
      Sql_int (ucast (disk_free_gb (info v))),
      Sql_text (docker_version (info v)),
      Sql_text (tunnel_version (info v)),
      Sql_text (service_addr (info v)),
      bind_real (cpu_pct (metrics v)),
      bind_real (mem_pct (metrics v)),
      bind_real (load_avg (metrics v)),
      Sql_int (ucast (active_requests (metrics v))),
      Sql_text (to_rfc3339 k (enrolled_at v)),
      Sql_text (to_rfc3339 k (last_heartbeat v))]"

definition assignment_bindings :: "crates \<Rightarrow> uuid \<Rightarrow> service_assignment \<Rightarrow> (string \<times> sql_value) list" where
  "assignment_bindings k i a = zip
     [''volunteer_id'', ''service_name'', ''domain'', ''image'', ''service_port'', ''assigned_at'']
     [Sql_text (uuid_text k i),
      Sql_text (service_name a),
      Sql_text (domain a),
      Sql_text (image a),
      Sql_int (ucast (service_port a)),
      Sql_text (to_rfc3339 k (assigned_at a))]"

text \<open>
  What \<^verbatim>\<open>INSERT OR REPLACE\<close> stores: the bound value of each column of the table; its default when no
  value is bound, or when NULL is bound to a column that does not admit it; without a default the
  statement fails. A value of another type than the column's is not stored as it is.
\<close>

fun has_type :: "sql_type \<Rightarrow> sql_value \<Rightarrow> bool" where
  "has_type t NULL = True"
| "has_type t (Sql_text x) = (t = TEXT)"
| "has_type t (Sql_int x) = (t = INTEGER)"
| "has_type t (Sql_real x) = (t = REAL)"

definition stored_value :: "(string \<times> sql_value) list \<Rightarrow> column \<Rightarrow> sql_value option" where
  "stored_value bs c =
     (case map_of bs (col_name c) of
        None \<Rightarrow> if col_default c = None \<and> not_null c then None
                else Some (case col_default c of Some d \<Rightarrow> d | None \<Rightarrow> NULL)
      | Some v \<Rightarrow> if v = NULL \<and> not_null c then col_default c
                  else if has_type (col_type c) v then Some v else None)"

fun stored_row :: "(string \<times> sql_value) list \<Rightarrow> column list \<Rightarrow> (string \<times> sql_value) list option" where
  "stored_row bs [] = Some []"
| "stored_row bs (c # cs) =
     (case (stored_value bs c, stored_row bs cs) of
        (Some v, Some r) \<Rightarrow> Some ((col_name c, v) # r) | _ \<Rightarrow> None)"

text \<open>The fields of \<^verbatim>\<open>DbRow\<close> and \<^verbatim>\<open>AssignmentRow\<close>, as columns of the table.\<close>

definition row_columns :: "string \<Rightarrow> db_row \<Rightarrow> (string \<times> sql_value) list" where
  "row_columns key r =
     [(''id'', Sql_text key),
      (''hostname'', Sql_text (r_hostname r)), (''os'', Sql_text (r_os r)), (''arch'', Sql_text (r_arch r)),
      (''cpu_cores'', Sql_int (r_cpu_cores r)), (''cpu_model'', Sql_text (r_cpu_model r)),
      (''memory_total_mb'', Sql_int (r_memory_total_mb r)), (''disk_free_gb'', Sql_int (r_disk_free_gb r)),
      (''docker_version'', Sql_text (r_docker_version r)), (''tunnel_version'', Sql_text (r_tunnel_version r)),
      (''service_addr'', Sql_text (r_service_addr r)),
      (''cpu_pct'', Sql_real (r_cpu_pct r)), (''mem_pct'', Sql_real (r_mem_pct r)),
      (''load_avg'', Sql_real (r_load_avg r)), (''active_requests'', Sql_int (r_active_requests r)),
      (''enrolled_at'', Sql_text (r_enrolled_at r)), (''last_heartbeat'', Sql_text (r_last_heartbeat r))]"

definition assignment_columns :: "string \<Rightarrow> assignment_row \<Rightarrow> (string \<times> sql_value) list" where
  "assignment_columns key r =
     [(''volunteer_id'', Sql_text key), (''service_name'', Sql_text (r_service_name r)),
      (''domain'', Sql_text (r_domain r)), (''image'', Sql_text (r_image r)),
      (''service_port'', Sql_int (r_service_port r)), (''assigned_at'', Sql_text (r_assigned_at r))]"

lemma stored_bind_real:
  "map_of bs n = Some (bind_real x) \<Longrightarrow>
     stored_value bs (column_default n REAL (Sql_real (Fin 0))) = Some (Sql_real (real_column x))"
  by (simp add: stored_value_def column_default_def bind_real_def real_column_def)

lemma stored_column:
  "map_of bs n = Some (Sql_text t) \<Longrightarrow> stored_value bs (required n TEXT) = Some (Sql_text t)"
  "map_of bs n = Some (Sql_text t) \<Longrightarrow> stored_value bs (key_column n) = Some (Sql_text t)"
  "map_of bs n = Some (Sql_int i) \<Longrightarrow> stored_value bs (required n INTEGER) = Some (Sql_int i)"
  "map_of bs n = Some (Sql_int i) \<Longrightarrow> stored_value bs (column_default n INTEGER d) = Some (Sql_int i)"
  by (simp_all add: stored_value_def required_def key_column_def column_default_def)

lemma column_names [simp]: "col_name (key_column n) = n" "col_name (required n t) = n" "col_name (column_default n t d) = n"
  by (simp_all add: key_column_def required_def column_default_def)

text \<open>The rows of the model are the rows of the tables: for every volunteer and every assignment, the
  statement that stores it binds each column of the schema to a value of the column's type and stores
  exactly the fields of the row; no column is left out, none violates NOT NULL, and a load that is not a
  number is stored as the column's default.\<close>

theorem rows_fit_schema:
  "stored_row (volunteer_bindings k v) CREATE_VOLUNTEERS_TABLE = Some (row_columns (uuid_text k (vid v)) (row_of k v)) \<and>
   stored_row (assignment_bindings k i a) CREATE_ASSIGNMENTS_TABLE =
     Some (assignment_columns (uuid_text k i) (assignment_row_of k a))"
proof
  show "stored_row (volunteer_bindings k v) CREATE_VOLUNTEERS_TABLE = Some (row_columns (uuid_text k (vid v)) (row_of k v))"
    by (simp add: CREATE_VOLUNTEERS_TABLE_def volunteer_bindings_def stored_column stored_bind_real row_columns_def row_of_def)
  show "stored_row (assignment_bindings k i a) CREATE_ASSIGNMENTS_TABLE =
     Some (assignment_columns (uuid_text k i) (assignment_row_of k a))"
    by (simp add: CREATE_ASSIGNMENTS_TABLE_def assignment_bindings_def stored_column assignment_columns_def assignment_row_of_def)
qed

subsection \<open>Opening the database\<close>

text \<open>A database file: its two tables, if they were created. What can fail, with the error.\<close>

record database =
  d_volunteers :: "db_row table option"
  d_assignments :: "assignment_row table option"

record init_errors =
  connect_error :: "io_error option"
  volunteers_error :: "io_error option"
  assignments_error :: "io_error option"

definition attempt :: "'e option \<Rightarrow> ('s \<Rightarrow> 's) \<Rightarrow> 's \<Rightarrow> ('e + unit) \<times> 's" where
  "attempt failure f s = (case failure of Some e \<Rightarrow> (Inl e, s) | None \<Rightarrow> (Inr (), f s))"

text \<open>\<^verbatim>\<open>CREATE TABLE IF NOT EXISTS\<close>.\<close>

definition created :: "'r table option \<Rightarrow> 'r table option" where
  "created t = (case t of Some rows \<Rightarrow> Some rows | None \<Rightarrow> Some [])"

text \<open>The directory of the file is made first; whether that succeeds is ignored, and connecting shows it.\<close>

definition db_init :: "init_errors \<Rightarrow> database \<Rightarrow> (io_error + unit) \<times> database" where
  "db_init errs =
     tryE (attempt (connect_error errs) id) (\<lambda>_.
     tryE (attempt (volunteers_error errs) (\<lambda>d. d\<lparr>d_volunteers := created (d_volunteers d)\<rparr>)) (\<lambda>_.
     tryE (attempt (assignments_error errs) (\<lambda>d. d\<lparr>d_assignments := created (d_assignments d)\<rparr>)) (\<lambda>_. okE ())))"

subsection \<open>The start of the process\<close>

definition db_path :: "string option \<Rightarrow> string" where
  "db_path OPENSHARD_DB = (case OPENSHARD_DB of Some p \<Rightarrow> p | None \<Rightarrow> ''/opt/openshard/data/openshard.db'')"

text \<open>
  The paths that the HAProxy library reads from its environment, and the one that the start waits for before
  it sends the first command; they are one path.
\<close>

definition cfg_path :: "string option \<Rightarrow> string" where
  "cfg_path HAPROXY_CFG = (case HAPROXY_CFG of Some p \<Rightarrow> p | None \<Rightarrow> ''/etc/haproxy/haproxy.cfg'')"

definition socket_path :: "string option \<Rightarrow> string" where
  "socket_path HAPROXY_SOCKET = (case HAPROXY_SOCKET of Some p \<Rightarrow> p | None \<Rightarrow> ''/run/haproxy/admin.sock'')"

definition awaited_path :: "string option \<Rightarrow> string" where
  "awaited_path HAPROXY_SOCKET = (case HAPROXY_SOCKET of Some p \<Rightarrow> p | None \<Rightarrow> ''/run/haproxy/admin.sock'')"

lemma awaits_the_socket_it_uses: "awaited_path var = socket_path var"
  by (simp add: awaited_path_def socket_path_def)

text \<open>\<^verbatim>\<open>main\<close> up to the router: exit with a code, or run on the recovered state.\<close>

definition main_start ::
  "'h host \<Rightarrow> crates \<Rightarrow> string option \<Rightarrow> init_errors \<Rightarrow> int \<Rightarrow> bool list \<Rightarrow> 'h \<Rightarrow> (string \<Rightarrow> database) \<Rightarrow>
     (nat + 'h reg) \<times> (string \<Rightarrow> database)" where
  "main_start x k OPENSHARD_DB errs now faults h files =
     (let p = db_path OPENSHARD_DB
      in case db_init errs (files p) of
           (Inl _, d) \<Rightarrow> (Inl 1, files(p := d))
         | (Inr _, d) \<Rightarrow>
             (Inr (start x k now (new_app (the (d_volunteers d)) (the (d_assignments d)) faults h)), files(p := d)))"

definition saved :: "'h reg \<Rightarrow> database" where
  "saved s = \<lparr>d_volunteers = Some (vol_table s), d_assignments = Some (asg_table s)\<rparr>"

lemma init_cases:
  "db_init errs d =
     (if connect_error errs \<noteq> None then (Inl (the (connect_error errs)), d)
      else if volunteers_error errs \<noteq> None then (Inl (the (volunteers_error errs)), d)
      else let d1 = d\<lparr>d_volunteers := created (d_volunteers d)\<rparr>
           in if assignments_error errs \<noteq> None then (Inl (the (assignments_error errs)), d1)
              else (Inr (), d1\<lparr>d_assignments := created (d_assignments d)\<rparr>))"
  by (auto simp: db_init_def attempt_def tryE_def okE_def Let_def)

lemma init_keeps:
  assumes "db_init errs d = (r, d')"
  shows "d_volunteers d = Some t \<Longrightarrow> d_volunteers d' = Some t" "d_assignments d = Some u \<Longrightarrow> d_assignments d' = Some u"
  using assms by (auto simp: init_cases Let_def created_def split: if_splits option.splits)

lemma init_saved: "d_volunteers d = Some t \<Longrightarrow> d_assignments d = Some u \<Longrightarrow>
    d\<lparr>d_volunteers := created (d_volunteers d), d_assignments := created (d_assignments d)\<rparr> = d"
  by (cases d) (simp add: created_def)

text \<open>C32 Starting the process: when the database cannot be opened or a table cannot be created the process
  exits with code 1; otherwise it runs. Either way the rows of existing tables stay, and other files are
  not touched. On the file an earlier process left, the start is the restart of that process; on a new
  file it starts empty.\<close>

theorem main_start_spec:
  assumes "main_start x k var errs now faults h files = (r, files')" and "p = db_path var"
  shows "(\<forall>q. q \<noteq> p \<longrightarrow> files' q = files q) \<and>
    (\<forall>t. d_volunteers (files p) = Some t \<longrightarrow> d_volunteers (files' p) = Some t) \<and>
    (\<forall>t. d_assignments (files p) = Some t \<longrightarrow> d_assignments (files' p) = Some t) \<and>
    (if connect_error errs = None \<and> volunteers_error errs = None \<and> assignments_error errs = None
     then (\<forall>s. files p = saved s \<longrightarrow> faults = db_faults s \<longrightarrow> h = host_state s \<longrightarrow>
             r = Inr (crash_restart x k now s) \<and> files' = files) \<and>
          (files p = \<lparr>d_volunteers = None, d_assignments = None\<rparr> \<longrightarrow>
             r = Inr (start x k now (new_app [] [] faults h)) \<and> files' p = saved (new_app [] [] faults h))
     else r = Inl 1)"
proof -
  obtain i d where d: "db_init errs (files p) = (i, d)" by (cases "db_init errs (files p)")
  have r: "files' = files(p := d)"
    "r = (case i of Inl _ \<Rightarrow> Inl 1 | Inr _ \<Rightarrow>
       Inr (start x k now (new_app (the (d_volunteers d)) (the (d_assignments d)) faults h)))"
    using assms d by (auto simp: main_start_def Let_def split: sum.splits)
  show ?thesis
  proof (cases "connect_error errs = None \<and> volunteers_error errs = None \<and> assignments_error errs = None")
    case True
    then have i: "i = Inr ()" "d = (files p)\<lparr>d_volunteers := created (d_volunteers (files p)),
        d_assignments := created (d_assignments (files p))\<rparr>"
      using d by (simp_all add: init_cases Let_def)
    show ?thesis
      using True init_keeps [OF d] init_saved
      by (auto simp: r i saved_def crash_restart_def created_def new_app_def)
  next
    case False
    then have "isl i" using d by (auto simp: init_cases Let_def split: if_splits)
    then show ?thesis using False init_keeps [OF d] by (auto simp: r isl_def)
  qed
qed

theorem main_start_spec_witness:
  "fst (main_start sim_host wit None \<lparr>connect_error = None, volunteers_error = None, assignments_error = None\<rparr> 9
      (db_faults wit_serving) (host_state wit_serving) (\<lambda>_. saved wit_serving)) = Inr (crash_restart sim_host wit 9 wit_serving) \<and>
   fst (main_start sim_host wit None \<lparr>connect_error = Some [], volunteers_error = None, assignments_error = None\<rparr> 9
      (db_faults wit_serving) (host_state wit_serving) (\<lambda>_. saved wit_serving)) = Inl 1"
  (is "fst ?a = _ \<and> fst ?b = _")
proof -
  note spec = main_start_spec [OF surjective_pairing refl]
  have "fst ?a = Inr (crash_restart sim_host wit 9 wit_serving)"
    using spec [where x = sim_host and k = wit and var = None and now = 9 and errs = "\<lparr>connect_error = None, volunteers_error = None, assignments_error = None\<rparr>"
        and faults = "db_faults wit_serving" and h = "host_state wit_serving" and files = "\<lambda>_. saved wit_serving"] by simp
  moreover have "fst ?b = Inl 1"
    using spec [where x = sim_host and k = wit and var = None and now = 9 and errs = "\<lparr>connect_error = Some [], volunteers_error = None, assignments_error = None\<rparr>"
        and faults = "db_faults wit_serving" and h = "host_state wit_serving" and files = "\<lambda>_. saved wit_serving"] by simp
  ultimately show ?thesis ..
qed

end
