(* ===== verification/Registrar_Api.thy ===== *)
theory Registrar_Api
  imports Registrar_Properties
begin

text \<open>
  The HTTP interface of the registrar: the router of \<^verbatim>\<open>main.rs\<close>, the extractors in front of each
  handler, and the interface as the OpenAPI document describes it. What the web framework does is
  modelled as documented: a path is matched segment by segment; a path nobody serves is answered 404, a
  path served for other methods 405; \<^verbatim>\<open>GET\<close> handlers answer \<^verbatim>\<open>HEAD\<close> without a body. Reading JSON
  and decoding a path segment are parameters.
\<close>

subsection \<open>The routes\<close>

datatype endpoint =
  Get_dashboard | Post_enroll | Post_heartbeat | Delete_enroll | Get_volunteers | Post_tunnel_port
| Post_dispatch | Post_services | Get_services | Get_metrics

definition routes :: "(string \<times> string \<times> endpoint) list" where
  "routes =
     [(''/'', ''GET'', Get_dashboard),
      (''/enroll'', ''POST'', Post_enroll),
      (''/heartbeat'', ''POST'', Post_heartbeat),
      (''/enroll/:id'', ''DELETE'', Delete_enroll),
      (''/volunteers'', ''GET'', Get_volunteers),
      (''/volunteers/:id/tunnel-port'', ''POST'', Post_tunnel_port),
      (''/dispatch'', ''POST'', Post_dispatch),
      (''/services'', ''POST'', Post_services),
      (''/services'', ''GET'', Get_services),
      (''/metrics'', ''GET'', Get_metrics)]"

text \<open>A segment \<open>:name\<close> of a template takes any segment that is not empty; the others are literal.\<close>

fun match_segments :: "string list \<Rightarrow> string list \<Rightarrow> string list option" where
  "match_segments [] [] = Some []"
| "match_segments (t # ts) (p # ps) =
     (if prefix '':'' t then (if p = [] then None else map_option ((#) p) (match_segments ts ps))
      else if t = p then match_segments ts ps else None)"
| "match_segments _ _ = None"

definition match_path :: "string \<Rightarrow> string \<Rightarrow> string list option" where
  "match_path template path = match_segments (split_at (CHR ''/'') template) (split_at (CHR ''/'') path)"

definition serves :: "string \<Rightarrow> string \<Rightarrow> bool" where
  "serves meth m \<longleftrightarrow> m = meth \<or> (m = ''HEAD'' \<and> meth = ''GET'')"

datatype routed = Found endpoint "string list" | Not_found | Not_allowed

definition route :: "string \<Rightarrow> string \<Rightarrow> routed" where
  "route m path =
     (case filter (\<lambda>(t, _, _). match_path t path \<noteq> None) routes of
        [] \<Rightarrow> Not_found
      | rs \<Rightarrow>
          (case List.find (\<lambda>(_, meth, _). serves meth m) rs of
             Some (t, _, e) \<Rightarrow> Found e (the (match_path t path))
           | None \<Rightarrow> Not_allowed))"

subsection \<open>Serving a request\<close>

record http_request =
  hq_method :: string
  hq_path :: string
  hq_query :: "string option"
  hq_body :: "io_error + nat list"

text \<open>The world of the handlers; an extractor that rejects a request gives the response.\<close>

record 'h api =
  w_host :: "'h host"
  w_crates :: crates
  w_client :: "'h http_client"
  w_page :: string
  w_render :: "metric list \<Rightarrow> string"
  w_docs :: "http_request \<Rightarrow> response option"
  w_param :: "string \<Rightarrow> response + string"
  w_enroll :: "http_request \<Rightarrow> response + enroll_request"
  w_beat :: "http_request \<Rightarrow> response + heartbeat_request"
  w_register :: "http_request \<Rightarrow> response + register_request"
  w_port :: "http_request \<Rightarrow> response + u16"

text \<open>What one request finds: the clock, read up to twice, a new UUID, the environment.\<close>

record occasion =
  o_now :: int
  o_later :: int
  o_uuid :: uuid
  o_env :: env

text \<open>Extractors run from left to right, and the first rejection is the answer.\<close>

definition extracting :: "response + 'a \<Rightarrow> ('a \<Rightarrow> 's \<Rightarrow> response \<times> 's) \<Rightarrow> 's \<Rightarrow> response \<times> 's" where
  "extracting r f s = (case r of Inl rejection \<Rightarrow> (rejection, s) | Inr x \<Rightarrow> f x s)"

definition path_param :: "'h api \<Rightarrow> string list \<Rightarrow> response + string" where
  "path_param w ps = (case ps of [p] \<Rightarrow> w_param w p | _ \<Rightarrow> Inl (500, Empty))"

definition path_and_query :: "http_request \<Rightarrow> string" where
  "path_and_query q = hq_path q @ (case hq_query q of Some t \<Rightarrow> ''?'' @ t | None \<Rightarrow> [])"

fun handle :: "'h api \<Rightarrow> occasion \<Rightarrow> http_request \<Rightarrow> string list \<Rightarrow> endpoint \<Rightarrow> 'h reg \<Rightarrow> response \<times> 'h reg" where
  "handle w oc q ps Get_dashboard s = ((200, Text (w_page w)), s)"
| "handle w oc q ps Post_enroll s =
     extracting (w_enroll w q) (enroll (w_host w) (w_crates w) (o_env oc) (o_now oc) (o_uuid oc)) s"
| "handle w oc q ps Post_heartbeat s = extracting (w_beat w q) (heartbeat (w_host w) (w_crates w) (o_now oc)) s"
| "handle w oc q ps Delete_enroll s = extracting (path_param w ps) (disconnect (w_host w) (w_crates w)) s"
| "handle w oc q ps Get_volunteers s = list_volunteers (o_now oc) s"
| "handle w oc q ps Post_tunnel_port s =
     extracting (path_param w ps) (\<lambda>i.
     extracting (w_port w q) (update_tunnel_port (w_host w) (w_crates w) (o_env oc) i)) s"
| "handle w oc q ps Post_dispatch s =
     dispatch (w_client w) (o_now oc)
       \<lparr>rq_method = hq_method q, rq_path = Some (path_and_query q), rq_body = hq_body q\<rparr> s"
| "handle w oc q ps Post_services s =
     extracting (w_register w q) (register_service (w_host w) (w_crates w) (o_now oc) (o_later oc)) s"
| "handle w oc q ps Get_services s = list_service_backends (w_host w) s"
| "handle w oc q ps Get_metrics s = ((200, Text (w_render w (metric_log s))), s)"

definition serve_http :: "'h api \<Rightarrow> occasion \<Rightarrow> http_request \<Rightarrow> 'h reg \<Rightarrow> response \<times> 'h reg" where
  "serve_http w oc q s =
     (case route (hq_method q) (hq_path q) of
        Found e ps \<Rightarrow>
          (case handle w oc q ps e s of (r, s) \<Rightarrow> (if hq_method q = ''HEAD'' then (fst r, Empty) else r, s))
      | Not_found \<Rightarrow> (case w_docs w q of Some r \<Rightarrow> (r, s) | None \<Rightarrow> ((404, Empty), s))
      | Not_allowed \<Rightarrow> ((405, Empty), s))"

subsection \<open>Which path goes where\<close>

lemma split_slash: "CHR ''/'' \<notin> set s \<Longrightarrow> split_at (CHR ''/'') (CHR ''/'' # s) = [[], s]"
  using split_at_step [of "CHR ''/''" "[]" s] split_at_last [of "CHR ''/''" s] by simp

lemma templates:
  "split_at (CHR ''/'') ''/'' = [[], []]" "split_at (CHR ''/'') ''/enroll'' = [[], ''enroll'']"
  "split_at (CHR ''/'') ''/heartbeat'' = [[], ''heartbeat'']" "split_at (CHR ''/'') ''/volunteers'' = [[], ''volunteers'']"
  "split_at (CHR ''/'') ''/dispatch'' = [[], ''dispatch'']" "split_at (CHR ''/'') ''/services'' = [[], ''services'']"
  "split_at (CHR ''/'') ''/metrics'' = [[], ''metrics'']" "split_at (CHR ''/'') ''/enroll/:id'' = [[], ''enroll'', '':id'']"
  "split_at (CHR ''/'') ''/volunteers/:id/tunnel-port'' = [[], ''volunteers'', '':id'', ''tunnel-port'']"
proof -
  have 2: "split_at (CHR ''/'') (CHR ''/'' # a @ CHR ''/'' # r) = [] # a # split_at (CHR ''/'') r"
    if "CHR ''/'' \<notin> set a" for a r
    using split_at_step [of "CHR ''/''" "[]" "a @ CHR ''/'' # r"] split_at_step [of "CHR ''/''" a r] that by simp
  show "split_at (CHR ''/'') ''/enroll/:id'' = [[], ''enroll'', '':id'']"
    using 2 [of "''enroll''" "'':id''"] split_at_last [of "CHR ''/''" "'':id''"] by simp
  show "split_at (CHR ''/'') ''/volunteers/:id/tunnel-port'' = [[], ''volunteers'', '':id'', ''tunnel-port'']"
    using 2 [of "''volunteers''" "'':id/tunnel-port''"] split_at_step [of "CHR ''/''" "'':id''" "''tunnel-port''"]
      split_at_last [of "CHR ''/''" "''tunnel-port''"] by simp
qed (simp_all add: split_slash)

text \<open>The segments of a path give the path back, and hold no slash.\<close>

fun join_at :: "char \<Rightarrow> string list \<Rightarrow> string" where
  "join_at c [] = []"
| "join_at c [p] = p"
| "join_at c (p # q # ps) = p @ c # join_at c (q # ps)"

lemma split_at_not_Nil: "split_at c s \<noteq> []"
  by (subst split_at.simps) (simp split: list.split)

lemma split_at_segments: "join_at c (split_at c s) = s \<and> (\<forall>p \<in> set (split_at c s). c \<notin> set p)"
proof (induction c s rule: split_at.induct)
  case (1 c s)
  show ?case
  proof (cases "dropWhile (\<lambda>d. d \<noteq> c) s")
    case Nil
    then have "c \<notin> set s" by (auto simp: dropWhile_eq_Nil_conv)
    from split_at_last [OF this] this show ?thesis by simp
  next
    case (Cons d r)
    then have d: "d = c" using hd_dropWhile [of "\<lambda>d. d \<noteq> c" s] by simp
    obtain a where a: "s = a @ c # r" "c \<notin> set a"
      using takeWhile_dropWhile_id [of "\<lambda>d. d \<noteq> c" s] Cons d set_takeWhileD [of _ "\<lambda>d. d \<noteq> c" s] by metis
    have "split_at c s = a # split_at c r" using split_at_step [OF a(2), of r] a(1) by simp
    moreover have "join_at c (a # split_at c r) = a @ c # join_at c (split_at c r)"
      using split_at_not_Nil [of c r] by (cases "split_at c r") simp_all
    ultimately show ?thesis using 1 [OF Cons] a by simp
  qed
qed

lemma split_at_inj: "split_at c p = split_at c q \<longleftrightarrow> p = q"
  using split_at_segments by metis

lemma match_Nil [simp]:
  "match_segments [] xs = Some ps \<longleftrightarrow> xs = [] \<and> ps = []"
  "match_segments (t # ts) xs = Some ps \<longleftrightarrow>
     (\<exists>p qs. xs = p # qs \<and>
       (if prefix '':'' t then p \<noteq> [] \<and> (\<exists>rs. match_segments ts qs = Some rs \<and> ps = p # rs)
        else t = p \<and> match_segments ts qs = Some ps))"
  by (cases xs; auto)+

lemma match_literal:
  assumes "split_at (CHR ''/'') t = [[], a]" "\<not> prefix '':'' a"
  shows "match_path t p = Some ps \<longleftrightarrow> p = t \<and> ps = []"
proof -
  have "match_path t p = Some ps \<longleftrightarrow> split_at (CHR ''/'') p = [[], a] \<and> ps = []"
    using assms by (auto simp: match_path_def simp del: match_segments.simps)
  then show ?thesis using assms(1) split_at_inj by metis
qed

text \<open>The two forms of path with a volunteer's identifier in them.\<close>

definition enroll_path :: "string \<Rightarrow> string" where "enroll_path i = ''/enroll/'' @ i"
definition port_path :: "string \<Rightarrow> string" where "port_path i = ''/volunteers/'' @ i @ ''/tunnel-port''"

lemma id_paths:
  assumes "CHR ''/'' \<notin> set i"
  shows "split_at (CHR ''/'') (enroll_path i) = [[], ''enroll'', i]"
    "split_at (CHR ''/'') (port_path i) = [[], ''volunteers'', i, ''tunnel-port'']"
proof -
  show "split_at (CHR ''/'') (enroll_path i) = [[], ''enroll'', i]"
    using split_at_step [of "CHR ''/''" "[]" "''enroll/'' @ i"] split_at_step [of "CHR ''/''" "''enroll''" i]
      split_at_last [OF assms] by (simp add: enroll_path_def)
  show "split_at (CHR ''/'') (port_path i) = [[], ''volunteers'', i, ''tunnel-port'']"
    using split_at_step [of "CHR ''/''" "[]" "''volunteers/'' @ i @ ''/tunnel-port''"]
      split_at_step [of "CHR ''/''" "''volunteers''" "i @ ''/tunnel-port''"] split_at_step [OF assms, of "''tunnel-port''"]
      split_at_last [of "CHR ''/''" "''tunnel-port''"] by (simp add: port_path_def)
qed

lemma match_param:
  "match_path ''/enroll/:id'' p = Some ps \<longleftrightarrow> (\<exists>i. p = enroll_path i \<and> CHR ''/'' \<notin> set i \<and> i \<noteq> [] \<and> ps = [i])"
  "match_path ''/volunteers/:id/tunnel-port'' p = Some ps \<longleftrightarrow>
     (\<exists>i. p = port_path i \<and> CHR ''/'' \<notin> set i \<and> i \<noteq> [] \<and> ps = [i])"
proof -
  let ?s = "split_at (CHR ''/'') p"
  have seg: "\<forall>i \<in> set ?s. CHR ''/'' \<notin> set i" using split_at_segments by blast
  have e: "?s = [[], ''enroll'', i] \<longleftrightarrow> p = enroll_path i" "?s = [[], ''volunteers'', i, ''tunnel-port''] \<longleftrightarrow> p = port_path i"
    if "CHR ''/'' \<notin> set i" for i
    using id_paths [OF that] split_at_inj by metis+
  have a: "match_path ''/enroll/:id'' p = Some ps \<longleftrightarrow> (\<exists>i. ?s = [[], ''enroll'', i] \<and> i \<noteq> [] \<and> ps = [i])"
    by (auto simp: match_path_def templates simp del: match_segments.simps)
  have b: "match_path ''/volunteers/:id/tunnel-port'' p = Some ps \<longleftrightarrow>
      (\<exists>i. ?s = [[], ''volunteers'', i, ''tunnel-port''] \<and> i \<noteq> [] \<and> ps = [i])"
    by (auto simp: match_path_def templates simp del: match_segments.simps)
  show "match_path ''/enroll/:id'' p = Some ps \<longleftrightarrow> (\<exists>i. p = enroll_path i \<and> CHR ''/'' \<notin> set i \<and> i \<noteq> [] \<and> ps = [i])"
    unfolding a using e(1) seg by (metis list.set_intros)
  show "match_path ''/volunteers/:id/tunnel-port'' p = Some ps \<longleftrightarrow>
     (\<exists>i. p = port_path i \<and> CHR ''/'' \<notin> set i \<and> i \<noteq> [] \<and> ps = [i])"
    unfolding b using e(2) seg by (metis list.set_intros)
qed

lemma match_route:
  "match_path ''/'' p = (if p = ''/'' then Some [] else None)"
  "match_path ''/enroll'' p = (if p = ''/enroll'' then Some [] else None)"
  "match_path ''/heartbeat'' p = (if p = ''/heartbeat'' then Some [] else None)"
  "match_path ''/volunteers'' p = (if p = ''/volunteers'' then Some [] else None)"
  "match_path ''/dispatch'' p = (if p = ''/dispatch'' then Some [] else None)"
  "match_path ''/services'' p = (if p = ''/services'' then Some [] else None)"
  "match_path ''/metrics'' p = (if p = ''/metrics'' then Some [] else None)"
proof -
  have lit: "match_path t p = (if p = t then Some [] else None)"
    if "split_at (CHR ''/'') t = [[], a]" "\<not> prefix '':'' a" for t a
    using match_literal [OF that, of p] by (cases "match_path t p") auto
  show "match_path ''/'' p = (if p = ''/'' then Some [] else None)"
    "match_path ''/enroll'' p = (if p = ''/enroll'' then Some [] else None)"
    "match_path ''/heartbeat'' p = (if p = ''/heartbeat'' then Some [] else None)"
    "match_path ''/volunteers'' p = (if p = ''/volunteers'' then Some [] else None)"
    "match_path ''/dispatch'' p = (if p = ''/dispatch'' then Some [] else None)"
    "match_path ''/services'' p = (if p = ''/services'' then Some [] else None)"
    "match_path ''/metrics'' p = (if p = ''/metrics'' then Some [] else None)"
    by (rule lit, rule templates, simp)+
qed

definition segment :: "string \<Rightarrow> bool" where "segment i \<longleftrightarrow> i \<noteq> [] \<and> CHR ''/'' \<notin> set i"

lemma match_ids:
  "(\<forall>i. segment i \<longrightarrow> p \<noteq> enroll_path i) \<Longrightarrow> match_path ''/enroll/:id'' p = None"
  "(\<forall>i. segment i \<longrightarrow> p \<noteq> port_path i) \<Longrightarrow> match_path ''/volunteers/:id/tunnel-port'' p = None"
  "segment i \<Longrightarrow> match_path ''/enroll/:id'' (enroll_path i) = Some [i]"
  "segment i \<Longrightarrow> match_path ''/volunteers/:id/tunnel-port'' (port_path i) = Some [i]"
proof -
  assume "\<forall>i. segment i \<longrightarrow> p \<noteq> enroll_path i"
  then have "match_path ''/enroll/:id'' p \<noteq> Some ps" for ps
    unfolding match_param(1) segment_def by blast
  then show "match_path ''/enroll/:id'' p = None" by blast
next
  assume "\<forall>i. segment i \<longrightarrow> p \<noteq> port_path i"
  then have "match_path ''/volunteers/:id/tunnel-port'' p \<noteq> Some ps" for ps
    unfolding match_param(2) segment_def by blast
  then show "match_path ''/volunteers/:id/tunnel-port'' p = None" by blast
next
  assume "segment i"
  then show "match_path ''/enroll/:id'' (enroll_path i) = Some [i]"
    "match_path ''/volunteers/:id/tunnel-port'' (port_path i) = Some [i]"
    unfolding match_param segment_def by blast+
qed

lemma path_heads:
  "enroll_path i \<noteq> port_path j" "enroll_path i \<noteq> ''/''" "enroll_path i \<noteq> ''/enroll''" "enroll_path i \<noteq> ''/heartbeat''"
  "enroll_path i \<noteq> ''/volunteers''" "enroll_path i \<noteq> ''/dispatch''" "enroll_path i \<noteq> ''/services''"
  "enroll_path i \<noteq> ''/metrics''"
  "port_path i \<noteq> ''/''" "port_path i \<noteq> ''/enroll''" "port_path i \<noteq> ''/heartbeat''" "port_path i \<noteq> ''/volunteers''"
  "port_path i \<noteq> ''/dispatch''" "port_path i \<noteq> ''/services''" "port_path i \<noteq> ''/metrics''"
  by (simp_all add: enroll_path_def port_path_def)

definition plain_paths :: "string list" where
  "plain_paths = [''/'', ''/enroll'', ''/heartbeat'', ''/volunteers'', ''/dispatch'', ''/services'', ''/metrics'']"

lemma no_ids: "p \<in> set plain_paths \<Longrightarrow>
    match_path ''/enroll/:id'' p = None \<and> match_path ''/volunteers/:id/tunnel-port'' p = None"
  by (intro conjI match_ids allI impI) (auto simp: plain_paths_def path_heads)

lemma route_plain:
  "route m ''/'' = (if serves ''GET'' m then Found Get_dashboard [] else Not_allowed)"
  "route m ''/enroll'' = (if serves ''POST'' m then Found Post_enroll [] else Not_allowed)"
  "route m ''/heartbeat'' = (if serves ''POST'' m then Found Post_heartbeat [] else Not_allowed)"
  "route m ''/volunteers'' = (if serves ''GET'' m then Found Get_volunteers [] else Not_allowed)"
  "route m ''/dispatch'' = (if serves ''POST'' m then Found Post_dispatch [] else Not_allowed)"
  "route m ''/services'' = (if serves ''POST'' m then Found Post_services []
     else if serves ''GET'' m then Found Get_services [] else Not_allowed)"
  "route m ''/metrics'' = (if serves ''GET'' m then Found Get_metrics [] else Not_allowed)"
  using no_ids [of "''/''"] no_ids [of "''/enroll''"] no_ids [of "''/heartbeat''"] no_ids [of "''/volunteers''"]
    no_ids [of "''/dispatch''"] no_ids [of "''/services''"] no_ids [of "''/metrics''"]
  by (simp_all add: route_def routes_def match_route plain_paths_def)

lemma route_ids:
  assumes "segment i"
  shows "route m (enroll_path i) = (if serves ''DELETE'' m then Found Delete_enroll [i] else Not_allowed)"
    "route m (port_path i) = (if serves ''POST'' m then Found Post_tunnel_port [i] else Not_allowed)"
  using match_ids(1) [of "port_path i"] match_ids(2) [of "enroll_path i"] match_ids(3,4) [OF assms]
  by (simp_all add: route_def routes_def match_route path_heads path_heads(1) [symmetric])

lemma route_other:
  "p \<notin> set plain_paths \<Longrightarrow> (\<forall>i. segment i \<longrightarrow> p \<noteq> enroll_path i \<and> p \<noteq> port_path i) \<Longrightarrow> route m p = Not_found"
  using match_ids(1,2) [of p] by (simp add: route_def routes_def match_route plain_paths_def)

lemma serves_meth: "serves ''GET'' m \<longleftrightarrow> m \<in> {''GET'', ''HEAD''}" "serves ''POST'' m \<longleftrightarrow> m = ''POST''"
  "serves ''DELETE'' m \<longleftrightarrow> m = ''DELETE''"
  by (auto simp: serves_def)

text \<open>Which request goes to which handler: exactly these methods and paths are served, \<open>HEAD\<close> where \<open>GET\<close>
  is, with the identifier of a volunteer as one segment that is not empty; a path that is served for
  other methods only is answered "not allowed", and every other path is not found.\<close>

theorem route_spec:
  "route m ''/'' = (if m \<in> {''GET'', ''HEAD''} then Found Get_dashboard [] else Not_allowed) \<and>
   route m ''/enroll'' = (if m = ''POST'' then Found Post_enroll [] else Not_allowed) \<and>
   route m ''/heartbeat'' = (if m = ''POST'' then Found Post_heartbeat [] else Not_allowed) \<and>
   route m ''/volunteers'' = (if m \<in> {''GET'', ''HEAD''} then Found Get_volunteers [] else Not_allowed) \<and>
   route m ''/dispatch'' = (if m = ''POST'' then Found Post_dispatch [] else Not_allowed) \<and>
   route m ''/services'' = (if m = ''POST'' then Found Post_services []
     else if m \<in> {''GET'', ''HEAD''} then Found Get_services [] else Not_allowed) \<and>
   route m ''/metrics'' = (if m \<in> {''GET'', ''HEAD''} then Found Get_metrics [] else Not_allowed) \<and>
   (segment i \<longrightarrow>
     route m (enroll_path i) = (if m = ''DELETE'' then Found Delete_enroll [i] else Not_allowed) \<and>
     route m (port_path i) = (if m = ''POST'' then Found Post_tunnel_port [i] else Not_allowed)) \<and>
   (p \<notin> set plain_paths \<longrightarrow> (\<forall>i. segment i \<longrightarrow> p \<noteq> enroll_path i \<and> p \<noteq> port_path i) \<longrightarrow> route m p = Not_found)"
  unfolding route_plain serves_meth using route_ids [of i m] route_other [of p m] by (simp add: serves_meth)

theorem route_spec_witness:
  "route ''DELETE'' ''/enroll/7'' = Found Delete_enroll [''7''] \<and> route ''GET'' ''/enroll/7'' = Not_allowed \<and>
   route ''GET'' ''/index.html'' = Not_found"
proof -
  have "segment ''7''" by (simp add: segment_def)
  moreover have "''/index.html'' \<notin> set plain_paths" "\<forall>i. ''/index.html'' \<noteq> enroll_path i \<and> ''/index.html'' \<noteq> port_path i"
    by (simp_all add: plain_paths_def enroll_path_def port_path_def)
  moreover have "enroll_path ''7'' = ''/enroll/7''" by (simp add: enroll_path_def)
  ultimately show ?thesis
    using route_spec [of "''DELETE''" "''7''" "''/index.html''"] route_spec [of "''GET''" "''7''" "''/index.html''"] by simp
qed

subsection \<open>The state behind the interface\<close>

lemma metrics_step: "request_step x k s s"
  using request_step.outside [of x k s "host_state s"] by simp

text \<open>Whatever request is served in one piece, the registrar stays in a state that its handlers reach, so every invariant
  of these states holds behind the interface; a request that no handler accepts (unknown path, wrong
  method, a body or an identifier that an extractor rejects) is answered without any change of the state.\<close>

theorem api_keeps_reachable:
  assumes "reachable (w_host w) (w_crates w) s" and "fresh_id (w_crates w) (o_uuid oc) s"
    and "\<And>hb. w_beat w q = Inr hb \<Longrightarrow> json_metrics hb"
  shows "reachable (w_host w) (w_crates w) (snd (serve_http w oc q s)) \<and>
    (route (hq_method q) (hq_path q) = Not_allowed \<longrightarrow> serve_http w oc q s = ((405, Empty), s)) \<and>
    (route (hq_method q) (hq_path q) = Not_found \<and> w_docs w q = None \<longrightarrow> serve_http w oc q s = ((404, Empty), s)) \<and>
    (\<forall>ps r. route (hq_method q) (hq_path q) = Found Post_enroll ps \<and> w_enroll w q = Inl r \<or>
       route (hq_method q) (hq_path q) = Found Post_heartbeat ps \<and> w_beat w q = Inl r \<or>
       route (hq_method q) (hq_path q) = Found Post_services ps \<and> w_register w q = Inl r \<or>
       route (hq_method q) (hq_path q) = Found Post_tunnel_port ps \<and> path_param w ps = Inl r \<or>
       route (hq_method q) (hq_path q) = Found Delete_enroll ps \<and> path_param w ps = Inl r \<longrightarrow>
       snd (serve_http w oc q s) = s)"
proof (intro conjI)
  have step: "request_step (w_host w) (w_crates w) s (snd (handle w oc q ps e s))" for ps e
  proof (cases e)
    case Post_enroll
    then show ?thesis using assms(2) metrics_step
      by (auto simp: extracting_def intro: request_step.enroll split: sum.split)
  next
    case Post_heartbeat
    then show ?thesis using assms(3) metrics_step
      by (auto simp: extracting_def intro: request_step.heartbeat split: sum.split)
  next
    case Delete_enroll
    then show ?thesis using metrics_step by (auto simp: extracting_def intro: request_step.disconnect split: sum.split)
  next
    case Post_tunnel_port
    then show ?thesis using metrics_step by (auto simp: extracting_def intro: request_step.move split: sum.split)
  next
    case Post_services
    then show ?thesis using metrics_step by (auto simp: extracting_def intro: request_step.register split: sum.split)
  qed (simp_all add: metrics_step reading_steps list_volunteers_def)
  have "snd (serve_http w oc q s) =
      (case route (hq_method q) (hq_path q) of Found e ps \<Rightarrow> snd (handle w oc q ps e s) | _ \<Rightarrow> s)"
    by (simp add: serve_http_def split_beta split: routed.split option.split)
  then have "snd (serve_http w oc q s) = s \<or> (\<exists>ps e. snd (serve_http w oc q s) = snd (handle w oc q ps e s))"
    by (cases "route (hq_method q) (hq_path q)") auto
  with step metrics_step have "request_step (w_host w) (w_crates w) s (snd (serve_http w oc q s))" by metis
  then show "reachable (w_host w) (w_crates w) (snd (serve_http w oc q s))" by (rule reachable.request [OF assms(1)])
qed (auto simp: serve_http_def extracting_def split: prod.split)

definition wit_web :: "(string \<times> proxy) api" where
  "wit_web = \<lparr>w_host = sim_host, w_crates = wit, w_client = (\<lambda>m u b h. (Inr (200, Inr b), h)), w_page = [],
     w_render = (\<lambda>_. []), w_docs = (\<lambda>_. None), w_param = Inr, w_enroll = (\<lambda>_. Inr (wit_req ''a'')),
     w_beat = (\<lambda>_. Inl (400, Empty)), w_register = (\<lambda>_. Inl (415, Empty)), w_port = (\<lambda>_. Inr 30001)\<rparr>"

definition wit_request :: "string \<Rightarrow> string \<Rightarrow> http_request" where
  "wit_request m p = \<lparr>hq_method = m, hq_path = p, hq_query = None, hq_body = Inr []\<rparr>"

definition wit_occasion :: occasion where
  "wit_occasion = \<lparr>o_now = 0, o_later = 0, o_uuid = 7, o_env = wit_env\<rparr>"

lemma wit_web_simps [simp]:
  "w_host wit_web = sim_host" "w_crates wit_web = wit" "w_docs wit_web q = None" "w_beat wit_web q = Inl (400, Empty)"
  "w_enroll wit_web q = Inr (wit_req ''a'')" "w_param wit_web t = Inr t" "w_port wit_web q = Inr 30001"
  "hq_method (wit_request m p) = m" "hq_path (wit_request m p) = p" "hq_query (wit_request m p) = None"
  "hq_body (wit_request m p) = Inr []" "o_uuid wit_occasion = 7" "o_now wit_occasion = 0" "o_env wit_occasion = wit_env"
  by (simp_all add: wit_web_def wit_request_def wit_occasion_def)

theorem api_keeps_reachable_witness:
  "reachable sim_host wit (snd (serve_http wit_web wit_occasion (wit_request ''POST'' ''/enroll'') wit_boot)) \<and>
   serve_http wit_web wit_occasion (wit_request ''GET'' ''/enroll'') wit_boot = ((405, Empty), wit_boot)"
  using api_keeps_reachable [of wit_web wit_boot wit_occasion "wit_request ''POST'' ''/enroll''"]
    api_keeps_reachable [of wit_web wit_boot wit_occasion "wit_request ''GET'' ''/enroll''"]
    wit_boot_reachable wit_fresh
  by (simp add: route_plain serves_meth)

subsection \<open>What each request does\<close>

text \<open>An answer to \<^verbatim>\<open>HEAD\<close> is that to \<^verbatim>\<open>GET\<close> without its body.\<close>

definition get_answer :: "string \<Rightarrow> response \<times> 's \<Rightarrow> 's \<Rightarrow> response \<times> 's" where
  "get_answer m a s =
     (if m = ''GET'' then a else if m = ''HEAD'' then ((fst (fst a), Empty), snd a) else ((405, Empty), s))"

definition only :: "string \<Rightarrow> string \<Rightarrow> response \<times> 's \<Rightarrow> 's \<Rightarrow> response \<times> 's" where
  "only meth m a s = (if m = meth then a else ((405, Empty), s))"

text \<open>C20 What each request does, for every method and path. The paths of the interface lead to these handlers,
  each under its method only, with the body (and, where there is one, first the identifier in the path)
  that the extractors have read; what an extractor rejects is answered with the rejection and changes
  nothing. Another method on one of these paths is answered 405, except that HEAD is answered as GET
  without a body; every other path is that of the documentation pages or is answered 404; none of these
  changes anything.\<close>

theorem api_serves:
  "(hq_path q = ''/'' \<longrightarrow> serve_http w oc q s = get_answer (hq_method q) ((200, Text (w_page w)), s) s) \<and>
   (hq_path q = ''/enroll'' \<longrightarrow> serve_http w oc q s = only ''POST'' (hq_method q)
      (case w_enroll w q of Inl r \<Rightarrow> (r, s)
       | Inr req \<Rightarrow> enroll (w_host w) (w_crates w) (o_env oc) (o_now oc) (o_uuid oc) req s) s) \<and>
   (hq_path q = ''/heartbeat'' \<longrightarrow> serve_http w oc q s = only ''POST'' (hq_method q)
      (case w_beat w q of Inl r \<Rightarrow> (r, s) | Inr hb \<Rightarrow> heartbeat (w_host w) (w_crates w) (o_now oc) hb s) s) \<and>
   (\<forall>i. hq_path q = ''/enroll/'' @ i \<and> i \<noteq> [] \<and> CHR ''/'' \<notin> set i \<longrightarrow>
      serve_http w oc q s = only ''DELETE'' (hq_method q)
        (case w_param w i of Inl r \<Rightarrow> (r, s) | Inr t \<Rightarrow> disconnect (w_host w) (w_crates w) t s) s) \<and>
   (hq_path q = ''/volunteers'' \<longrightarrow> serve_http w oc q s = get_answer (hq_method q)
      ((200, Volunteers (active_volunteers (o_now oc) (volunteers s))), s) s) \<and>
   (\<forall>i. hq_path q = ''/volunteers/'' @ i @ ''/tunnel-port'' \<and> i \<noteq> [] \<and> CHR ''/'' \<notin> set i \<longrightarrow>
      serve_http w oc q s = only ''POST'' (hq_method q)
        (case w_param w i of Inl r \<Rightarrow> (r, s)
         | Inr t \<Rightarrow> (case w_port w q of Inl r \<Rightarrow> (r, s)
             | Inr port \<Rightarrow> update_tunnel_port (w_host w) (w_crates w) (o_env oc) t port s)) s) \<and>
   (hq_path q = ''/dispatch'' \<longrightarrow> serve_http w oc q s = only ''POST'' (hq_method q)
      (dispatch (w_client w) (o_now oc) \<lparr>rq_method = ''POST'',
         rq_path = Some (''/dispatch'' @ (case hq_query q of Some t \<Rightarrow> ''?'' @ t | None \<Rightarrow> [])), rq_body = hq_body q\<rparr> s) s) \<and>
   (hq_path q = ''/services'' \<longrightarrow> serve_http w oc q s =
      (if hq_method q = ''POST'' then
         (case w_register w q of Inl r \<Rightarrow> (r, s)
          | Inr rq \<Rightarrow> register_service (w_host w) (w_crates w) (o_now oc) (o_later oc) rq s)
       else get_answer (hq_method q) (list_service_backends (w_host w) s) s)) \<and>
   (hq_path q = ''/metrics'' \<longrightarrow> serve_http w oc q s =
      get_answer (hq_method q) ((200, Text (w_render w (metric_log s))), s) s) \<and>
   (hq_path q \<notin> {''/'', ''/enroll'', ''/heartbeat'', ''/volunteers'', ''/dispatch'', ''/services'', ''/metrics''} \<and>
    (\<forall>i. i \<noteq> [] \<and> CHR ''/'' \<notin> set i \<longrightarrow>
       hq_path q \<noteq> ''/enroll/'' @ i \<and> hq_path q \<noteq> ''/volunteers/'' @ i @ ''/tunnel-port'') \<longrightarrow>
      serve_http w oc q s = ((case w_docs w q of Some r \<Rightarrow> r | None \<Rightarrow> (404, Empty)), s))"
proof (intro conjI impI allI)
  note found = serve_http_def route_plain serves_meth get_answer_def only_def extracting_def split_beta
  show "serve_http w oc q s = get_answer (hq_method q) ((200, Text (w_page w)), s) s" if "hq_path q = ''/''"
    using that by (simp add: found)
  show "serve_http w oc q s = only ''POST'' (hq_method q)
      (case w_enroll w q of Inl r \<Rightarrow> (r, s)
       | Inr req \<Rightarrow> enroll (w_host w) (w_crates w) (o_env oc) (o_now oc) (o_uuid oc) req s) s" if "hq_path q = ''/enroll''"
    using that by (simp add: found split: sum.split)
  show "serve_http w oc q s = only ''POST'' (hq_method q)
      (case w_beat w q of Inl r \<Rightarrow> (r, s) | Inr hb \<Rightarrow> heartbeat (w_host w) (w_crates w) (o_now oc) hb s) s"
    if "hq_path q = ''/heartbeat''"
    using that by (simp add: found split: sum.split)
  show "serve_http w oc q s = only ''DELETE'' (hq_method q)
        (case w_param w i of Inl r \<Rightarrow> (r, s) | Inr t \<Rightarrow> disconnect (w_host w) (w_crates w) t s) s"
    if "hq_path q = ''/enroll/'' @ i \<and> i \<noteq> [] \<and> CHR ''/'' \<notin> set i" for i
    using that route_ids(1) [of i] by (simp add: found segment_def enroll_path_def path_param_def split: sum.split)
  show "serve_http w oc q s = get_answer (hq_method q)
      ((200, Volunteers (active_volunteers (o_now oc) (volunteers s))), s) s" if "hq_path q = ''/volunteers''"
    using that by (simp add: found list_volunteers_def)
  show "serve_http w oc q s = only ''POST'' (hq_method q)
        (case w_param w i of Inl r \<Rightarrow> (r, s)
         | Inr t \<Rightarrow> (case w_port w q of Inl r \<Rightarrow> (r, s)
             | Inr port \<Rightarrow> update_tunnel_port (w_host w) (w_crates w) (o_env oc) t port s)) s"
    if "hq_path q = ''/volunteers/'' @ i @ ''/tunnel-port'' \<and> i \<noteq> [] \<and> CHR ''/'' \<notin> set i" for i
    using that route_ids(2) [of i] by (simp add: found segment_def port_path_def path_param_def split: sum.split)
  show "serve_http w oc q s = only ''POST'' (hq_method q)
      (dispatch (w_client w) (o_now oc) \<lparr>rq_method = ''POST'',
         rq_path = Some (''/dispatch'' @ (case hq_query q of Some t \<Rightarrow> ''?'' @ t | None \<Rightarrow> [])), rq_body = hq_body q\<rparr> s) s"
    if "hq_path q = ''/dispatch''"
    using that by (simp add: found path_and_query_def)
  show "serve_http w oc q s =
      (if hq_method q = ''POST'' then
         (case w_register w q of Inl r \<Rightarrow> (r, s)
          | Inr rq \<Rightarrow> register_service (w_host w) (w_crates w) (o_now oc) (o_later oc) rq s)
       else get_answer (hq_method q) (list_service_backends (w_host w) s) s)" if "hq_path q = ''/services''"
    using that by (simp add: found split: sum.split)
  show "serve_http w oc q s = get_answer (hq_method q) ((200, Text (w_render w (metric_log s))), s) s"
    if "hq_path q = ''/metrics''"
    using that by (simp add: found)
  assume other: "hq_path q \<notin> {''/'', ''/enroll'', ''/heartbeat'', ''/volunteers'', ''/dispatch'', ''/services'', ''/metrics''} \<and>
    (\<forall>i. i \<noteq> [] \<and> CHR ''/'' \<notin> set i \<longrightarrow>
       hq_path q \<noteq> ''/enroll/'' @ i \<and> hq_path q \<noteq> ''/volunteers/'' @ i @ ''/tunnel-port'')"
  have "route (hq_method q) (hq_path q) = Not_found"
    by (rule route_other) (use other in \<open>auto simp: plain_paths_def segment_def enroll_path_def port_path_def\<close>)
  then show "serve_http w oc q s = ((case w_docs w q of Some r \<Rightarrow> r | None \<Rightarrow> (404, Empty)), s)"
    by (simp add: serve_http_def split: option.split)
qed

theorem api_serves_witness:
  "serve_http wit_web wit_occasion (wit_request ''DELETE'' ''/enroll/7'') wit_node = disconnect sim_host wit ''7'' wit_node \<and>
   serve_http wit_web wit_occasion (wit_request ''POST'' ''/volunteers/7/tunnel-port'') wit_node =
     update_tunnel_port sim_host wit wit_env ''7'' 30001 wit_node \<and>
   serve_http wit_web wit_occasion (wit_request ''PUT'' ''/services'') wit_node = ((405, Empty), wit_node) \<and>
   serve_http wit_web wit_occasion (wit_request ''GET'' ''/index.html'') wit_node = ((404, Empty), wit_node)"
proof (intro conjI)
  note at = api_serves [of _ wit_web wit_occasion wit_node]
  show "serve_http wit_web wit_occasion (wit_request ''DELETE'' ''/enroll/7'') wit_node = disconnect sim_host wit ''7'' wit_node"
    using at [of "wit_request ''DELETE'' ''/enroll/7''", THEN conjunct2, THEN conjunct2, THEN conjunct2, THEN conjunct1,
        rule_format, of "''7''"] by (simp add: only_def)
  show "serve_http wit_web wit_occasion (wit_request ''POST'' ''/volunteers/7/tunnel-port'') wit_node =
     update_tunnel_port sim_host wit wit_env ''7'' 30001 wit_node"
    using at [of "wit_request ''POST'' ''/volunteers/7/tunnel-port''", THEN conjunct2, THEN conjunct2, THEN conjunct2,
        THEN conjunct2, THEN conjunct2, THEN conjunct1, rule_format, of "''7''"] by (simp add: only_def)
  show "serve_http wit_web wit_occasion (wit_request ''PUT'' ''/services'') wit_node = ((405, Empty), wit_node)"
    using at [of "wit_request ''PUT'' ''/services''"] by (simp add: get_answer_def)
  show "serve_http wit_web wit_occasion (wit_request ''GET'' ''/index.html'') wit_node = ((404, Empty), wit_node)"
    using at [of "wit_request ''GET'' ''/index.html''"] by simp
qed

subsection \<open>The document of the interface\<close>

text \<open>The annotations of the handlers: method, path, and the statuses that are documented.\<close>

record endpoint_doc =
  doc_endpoint :: endpoint
  doc_method :: string
  doc_path :: string
  doc_statuses :: "nat list"

definition enroll_doc :: endpoint_doc where
  "enroll_doc = \<lparr>doc_endpoint = Post_enroll, doc_method = ''POST'', doc_path = ''/enroll'', doc_statuses = [201]\<rparr>"

definition heartbeat_doc :: endpoint_doc where
  "heartbeat_doc = \<lparr>doc_endpoint = Post_heartbeat, doc_method = ''POST'', doc_path = ''/heartbeat'', doc_statuses = [200, 404]\<rparr>"

definition disconnect_doc :: endpoint_doc where
  "disconnect_doc = \<lparr>doc_endpoint = Delete_enroll, doc_method = ''DELETE'', doc_path = ''/enroll/{id}'',
     doc_statuses = [200, 400, 404]\<rparr>"

definition list_volunteers_doc :: endpoint_doc where
  "list_volunteers_doc = \<lparr>doc_endpoint = Get_volunteers, doc_method = ''GET'', doc_path = ''/volunteers'', doc_statuses = [200]\<rparr>"

definition update_tunnel_port_doc :: endpoint_doc where
  "update_tunnel_port_doc = \<lparr>doc_endpoint = Post_tunnel_port, doc_method = ''POST'',
     doc_path = ''/volunteers/{id}/tunnel-port'', doc_statuses = [200, 400, 404]\<rparr>"

definition register_service_doc :: endpoint_doc where
  "register_service_doc = \<lparr>doc_endpoint = Post_services, doc_method = ''POST'', doc_path = ''/services'', doc_statuses = [201, 500]\<rparr>"

definition list_services_doc :: endpoint_doc where
  "list_services_doc = \<lparr>doc_endpoint = Get_services, doc_method = ''GET'', doc_path = ''/services'', doc_statuses = [200, 500]\<rparr>"

definition ApiDoc :: "endpoint_doc list" where
  "ApiDoc = [enroll_doc, heartbeat_doc, disconnect_doc, list_volunteers_doc, update_tunnel_port_doc,
     register_service_doc, list_services_doc]"

text \<open>\<^verbatim>\<open>{id}\<close> in the document is \<^verbatim>\<open>:id\<close> in the router.\<close>

definition template_of :: "string \<Rightarrow> string" where
  "template_of p = concat (map (\<lambda>c. if c = CHR ''{'' then '':'' else if c = CHR ''}'' then [] else [c]) p)"

text \<open>The extractors in front of the handler accept the request.\<close>

fun accepted :: "'h api \<Rightarrow> http_request \<Rightarrow> string list \<Rightarrow> endpoint \<Rightarrow> bool" where
  "accepted w q ps Post_enroll \<longleftrightarrow> \<not> isl (w_enroll w q)"
| "accepted w q ps Post_heartbeat \<longleftrightarrow> \<not> isl (w_beat w q)"
| "accepted w q ps Delete_enroll \<longleftrightarrow> \<not> isl (path_param w ps)"
| "accepted w q ps Post_tunnel_port \<longleftrightarrow> \<not> isl (path_param w ps) \<and> \<not> isl (w_port w q)"
| "accepted w q ps Post_services \<longleftrightarrow> \<not> isl (w_register w q)"
| "accepted w q ps _ \<longleftrightarrow> True"

lemma answers_of:
  "fst (fst (enroll x k e now i req s)) \<in> {201}"
  "fst (fst (heartbeat x k now hb s)) \<in> {200, 404}"
  "fst (fst (disconnect x k t s)) \<in> {200, 400, 404}"
  "fst (fst (update_tunnel_port x k e t port s)) \<in> {200, 400, 404}"
  "fst (fst (register_service x k now now' rq s)) \<in> {201, 500}"
  "fst (fst (list_service_backends x s)) \<in> {200, 500}"
proof -
  show "fst (fst (enroll x k e now i req s)) \<in> {201}" by (simp add: enroll_def enroll_finish_def Let_def split_beta)
  show "fst (fst (heartbeat x k now hb s)) \<in> {200, 404}"
    by (simp add: heartbeat_def Let_def not_found_def split: option.split)
  show "fst (fst (disconnect x k t s)) \<in> {200, 400, 404}"
    by (simp add: disconnect_def Let_def not_found_def invalid_id_def split: option.split)
  show "fst (fst (update_tunnel_port x k e t port s)) \<in> {200, 400, 404}"
    by (simp add: update_tunnel_port_def Let_def not_found_def invalid_id_def split: option.split)
  show "fst (fst (register_service x k now now' rq s)) \<in> {201, 500}"
    by (simp add: register_service_def register_with_def register_commit_def Let_def on_host_eq split: option.split sum.split)
  show "fst (fst (list_service_backends x s)) \<in> {200, 500}"
    by (simp add: list_service_backends_def on_host_eq split: sum.split)
qed

definition answers_within :: "'h api \<Rightarrow> endpoint \<Rightarrow> nat set \<Rightarrow> bool" where
  "answers_within w e codes \<longleftrightarrow>
     (\<forall>oc q ps (s :: 'h reg). accepted w q ps e \<longrightarrow> fst (fst (handle w oc q ps e s)) \<in> codes)"

lemma answers_handlers:
  "answers_within w Post_enroll {201}" "answers_within w Post_heartbeat {200, 404}" "answers_within w Delete_enroll {200, 400, 404}"
  "answers_within w Get_volunteers {200}" "answers_within w Post_tunnel_port {200, 400, 404}" "answers_within w Post_services {201, 500}"
  "answers_within w Get_services {200, 500}"
proof -
  have ok: "fst (fst (extracting r f s)) \<in> codes" if "\<not> isl r" "\<And>y. fst (fst (f y s)) \<in> codes" for r f s codes
    using that by (cases r) (simp_all add: extracting_def)
  show "answers_within w Post_enroll {201}"
    unfolding answers_within_def handle.simps accepted.simps by (intro allI impI ok answers_of)
  show "answers_within w Post_heartbeat {200, 404}"
    unfolding answers_within_def handle.simps accepted.simps by (intro allI impI ok answers_of)
  show "answers_within w Delete_enroll {200, 400, 404}"
    unfolding answers_within_def handle.simps accepted.simps by (intro allI impI ok answers_of)
  show "answers_within w Get_volunteers {200}" by (simp add: answers_within_def list_volunteers_def)
  show "answers_within w Post_tunnel_port {200, 400, 404}"
    unfolding answers_within_def handle.simps accepted.simps by (intro allI impI ok answers_of; simp)
  show "answers_within w Post_services {201, 500}"
    unfolding answers_within_def handle.simps accepted.simps by (intro allI impI ok answers_of)
  show "answers_within w Get_services {200, 500}"
    unfolding answers_within_def handle.simps accepted.simps by (intro allI impI answers_of)
qed

text \<open>The document of the interface is true: every endpoint it lists is served at the documented path
  under the documented method, and a handler whose extractors accept the request answers with one of the
  documented statuses.\<close>

theorem api_documented:
  "(\<forall>d \<in> set ApiDoc. (template_of (doc_path d), doc_method d, doc_endpoint d) \<in> set routes) \<and>
   (\<forall>d \<in> set ApiDoc. \<forall>oc q ps s. accepted w q ps (doc_endpoint d) \<longrightarrow>
      fst (fst (handle w oc q ps (doc_endpoint d) s)) \<in> set (doc_statuses d))"
proof
  show "\<forall>d \<in> set ApiDoc. (template_of (doc_path d), doc_method d, doc_endpoint d) \<in> set routes"
    by (simp add: ApiDoc_def routes_def template_of_def enroll_doc_def heartbeat_doc_def disconnect_doc_def
        list_volunteers_doc_def update_tunnel_port_doc_def register_service_doc_def list_services_doc_def)
  have "\<forall>d \<in> set ApiDoc. answers_within w (doc_endpoint d) (set (doc_statuses d))"
    using answers_handlers [of w]
    by (simp add: ApiDoc_def enroll_doc_def heartbeat_doc_def disconnect_doc_def
        list_volunteers_doc_def update_tunnel_port_doc_def register_service_doc_def list_services_doc_def)
  then show "\<forall>d \<in> set ApiDoc. \<forall>oc q ps s. accepted w q ps (doc_endpoint d) \<longrightarrow>
      fst (fst (handle w oc q ps (doc_endpoint d) s)) \<in> set (doc_statuses d)"
    unfolding answers_within_def by blast
qed

theorem api_documented_witness:
  "fst (fst (handle wit_web wit_occasion (wit_request ''POST'' ''/enroll'') [] Post_enroll wit_boot)) = 201"
proof -
  have "enroll_doc \<in> set ApiDoc" by (simp add: ApiDoc_def)
  moreover have "accepted wit_web (wit_request ''POST'' ''/enroll'') [] (doc_endpoint enroll_doc)"
    by (simp add: enroll_doc_def)
  ultimately have "fst (fst (handle wit_web wit_occasion (wit_request ''POST'' ''/enroll'') [] (doc_endpoint enroll_doc) wit_boot))
      \<in> set (doc_statuses enroll_doc)"
    using api_documented [of wit_web] by blast
  then show ?thesis by (simp add: enroll_doc_def)
qed

subsection \<open>Dispatch behind the router\<close>

text \<open>The dispatcher is reached by \<^verbatim>\<open>POST /dispatch\<close> only, and passes that on: whatever was asked for, the
  volunteer gets a \<^verbatim>\<open>POST\<close> for the path \<^verbatim>\<open>/dispatch\<close> of its own, with the query of the request.\<close>

theorem dispatch_sends_own_path:
  assumes "route (hq_method q) (hq_path q) = Found Post_dispatch ps"
  shows "\<exists>dr. serve_http w oc q s = dispatch (w_client w) (o_now oc) dr s \<and> rq_method dr = ''POST'' \<and>
    rq_body dr = hq_body q \<and>
    (\<forall>v. dispatch_url v dr = ''http://'' @ service_addr (info v) @ ''/dispatch'' @
       (case hq_query q of Some t \<Rightarrow> ''?'' @ t | None \<Rightarrow> []))"
proof -
  have p: "hq_path q = ''/dispatch''"
  proof (cases "hq_path q \<in> set plain_paths")
    case True
    then show ?thesis using assms by (auto simp: plain_paths_def route_plain split: if_splits)
  next
    case False
    show ?thesis
    proof (cases "\<exists>i. segment i \<and> (hq_path q = enroll_path i \<or> hq_path q = port_path i)")
      case True
      then show ?thesis using assms route_ids by (auto split: if_splits)
    next
      case none: False
      then show ?thesis using assms route_other [OF False, of "hq_method q"] by auto
    qed
  qed
  then have m: "hq_method q = ''POST''" using assms by (simp add: route_plain serves_meth split: if_splits)
  let ?dr = "\<lparr>rq_method = hq_method q, rq_path = Some (path_and_query q), rq_body = hq_body q\<rparr>"
  have "serve_http w oc q s = dispatch (w_client w) (o_now oc) ?dr s"
    using assms m by (simp add: serve_http_def split: prod.split)
  then show ?thesis by (intro exI [of _ ?dr]) (simp add: m p dispatch_url_def path_and_query_def)
qed

theorem dispatch_sends_own_path_witness:
  "\<exists>dr. serve_http wit_web wit_occasion (wit_request ''POST'' ''/dispatch'') wit_node =
       dispatch (w_client wit_web) 0 dr wit_node \<and>
     dispatch_url wit_volunteer dr = ''http://'' @ service_addr (info wit_volunteer) @ ''/dispatch''"
proof -
  have "route (hq_method (wit_request ''POST'' ''/dispatch'')) (hq_path (wit_request ''POST'' ''/dispatch'')) =
      Found Post_dispatch []" by (simp add: route_plain serves_meth)
  from dispatch_sends_own_path [OF this, of wit_web wit_occasion wit_node] show ?thesis
    by (simp del: append_Cons) blast
qed

end
