(* ===== verification/Json.thy ===== *)
theory Json
  imports Complex_Main Prelude
begin

text \<open>The values of JSON documents, as \<^verbatim>\<open>serde_json\<close> has them: integers apart from decimals, objects with
  their members in order.\<close>

datatype json =
  J_null | J_bool bool | J_int int | J_float rat | J_string string
| J_array "json list" | J_object "(string \<times> json) list"

end
