(* ===== verification/Registrar_Json.thy ===== *)
theory Registrar_Json
  imports Registrar_Api Json "HOL-Library.Monad_Syntax"
begin

text \<open>
  The JSON documents of the registrar's interface: what \<^verbatim>\<open>serde\<close> derives from the types of
  \<^verbatim>\<open>enrollment.rs\<close>, \<^verbatim>\<open>services.rs\<close> and \<^verbatim>\<open>state.rs\<close> for reading requests and writing answers, and the
  schemas that \<^verbatim>\<open>utoipa\<close> derives from them. The text of a document, the decimals of its numbers and the
  text of its times are those of the libraries: a request comes with its JSON value, and \<open>json_lib\<close> has
  the rest.
\<close>

subsection \<open>Values\<close>

record json_lib =
  decimal_of :: "rat \<Rightarrow> rat"
  single_of :: "rat \<Rightarrow> f32"
  time_text :: "int \<Rightarrow> string"

text \<open>Reading the simple types.\<close>

fun read_string :: "json \<Rightarrow> string option" where
  "read_string (J_string t) = Some t"
| "read_string _ = None"

fun read_bool :: "json \<Rightarrow> bool option" where
  "read_bool (J_bool b) = Some b"
| "read_bool _ = None"

fun read_word :: "json \<Rightarrow> 'a::len word option" where
  "read_word (J_int i) = (if 0 \<le> i \<and> i < 2 ^ LENGTH('a) then Some (word_of_int i) else None)"
| "read_word _ = None"

fun read_single :: "json_lib \<Rightarrow> json \<Rightarrow> f32 option" where
  "read_single l (J_int i) = Some (single_of l (of_int i))"
| "read_single l (J_float q) = Some (single_of l q)"
| "read_single l _ = None"

fun nullable :: "(json \<Rightarrow> 'a option) \<Rightarrow> json \<Rightarrow> 'a option option" where
  "nullable rd J_null = Some None"
| "nullable rd j = map_option Some (rd j)"

text \<open>
  A field of a struct: required, or one with a default. A field that occurs twice is an error. Members
  of other names are ignored.
\<close>

definition named :: "string \<Rightarrow> (string \<times> json) list \<Rightarrow> (string \<times> json) list" where
  "named n ms = filter (\<lambda>m. fst m = n) ms"

definition needed :: "string \<Rightarrow> (json \<Rightarrow> 'a option) \<Rightarrow> (string \<times> json) list \<Rightarrow> 'a option" where
  "needed n rd ms = (case named n ms of [m] \<Rightarrow> rd (snd m) | _ \<Rightarrow> None)"

definition optional :: "string \<Rightarrow> (json \<Rightarrow> 'a option) \<Rightarrow> (string \<times> json) list \<Rightarrow> 'a option option" where
  "optional n rd ms = (case named n ms of [] \<Rightarrow> Some None | [m] \<Rightarrow> nullable rd (snd m) | _ \<Rightarrow> None)"

text \<open>A struct is read from an object, or from an array that has the fields in their order.\<close>

fun members :: "string list \<Rightarrow> json \<Rightarrow> (string \<times> json) list option" where
  "members ns (J_object ms) = Some ms"
| "members ns (J_array js) = (if length js \<le> length ns then Some (zip ns js) else None)"
| "members ns _ = None"

subsection \<open>Reading requests\<close>

definition read_info :: "(string \<times> json) list \<Rightarrow> handshake_info option" where
  "read_info ms = do {
     v1 \<leftarrow> needed ''hostname'' read_string ms;
     v2 \<leftarrow> needed ''os'' read_string ms;
     v3 \<leftarrow> needed ''arch'' read_string ms;
     v4 \<leftarrow> needed ''cpu_cores'' read_word ms;
     v5 \<leftarrow> needed ''cpu_model'' read_string ms;
     v6 \<leftarrow> needed ''memory_total_mb'' read_word ms;
     v7 \<leftarrow> needed ''disk_free_gb'' read_word ms;
     v8 \<leftarrow> needed ''docker_version'' read_string ms;
     v9 \<leftarrow> needed ''tunnel_version'' read_string ms;
     v10 \<leftarrow> needed ''service_addr'' read_string ms;
     Some \<lparr>hostname = v1, os = v2, arch = v3, cpu_cores = v4, cpu_model = v5, memory_total_mb = v6,
       disk_free_gb = v7, docker_version = v8, tunnel_version = v9, service_addr = v10\<rparr> }"

text \<open>The fields of \<open>info\<close> are flattened into the request, which is read from an object only.\<close>

definition read_enroll :: "json \<Rightarrow> enroll_request option" where
  "read_enroll j = (case j of
     J_object ms \<Rightarrow> do {
       port \<leftarrow> needed ''tunnel_public_port'' read_word ms;
       i \<leftarrow> read_info ms;
       Some \<lparr>er_info = i, tunnel_public_port = port\<rparr> }
   | _ \<Rightarrow> None)"

definition HEARTBEAT_FIELDS :: "string list" where
  "HEARTBEAT_FIELDS = [''volunteer_id'', ''cpu_pct'', ''mem_pct'', ''load_avg'', ''active_requests'',
     ''service_running'', ''service_image'']"

definition read_uuid :: "crates \<Rightarrow> json \<Rightarrow> uuid option" where
  "read_uuid k j = Option.bind (read_string j) (uuid_parse k)"

definition read_heartbeat :: "crates \<Rightarrow> json_lib \<Rightarrow> json \<Rightarrow> heartbeat_request option" where
  "read_heartbeat k l j = do {
     ms \<leftarrow> members HEARTBEAT_FIELDS j;
     v1 \<leftarrow> needed ''volunteer_id'' (read_uuid k) ms;
     v2 \<leftarrow> needed ''cpu_pct'' (read_single l) ms;
     v3 \<leftarrow> needed ''mem_pct'' (read_single l) ms;
     v4 \<leftarrow> needed ''load_avg'' (read_single l) ms;
     v5 \<leftarrow> needed ''active_requests'' read_word ms;
     v6 \<leftarrow> optional ''service_running'' read_bool ms;
     v7 \<leftarrow> optional ''service_image'' read_string ms;
     Some \<lparr>hb_volunteer_id = v1, hb_cpu_pct = v2, hb_mem_pct = v3, hb_load_avg = v4, hb_active_requests = v5,
       hb_service_running = v6, hb_service_image = v7\<rparr> }"

definition REGISTER_FIELDS :: "string list" where
  "REGISTER_FIELDS = [''name'', ''domain'', ''image'', ''port'']"

definition read_register :: "json \<Rightarrow> register_request option" where
  "read_register j = do {
     ms \<leftarrow> members REGISTER_FIELDS j;
     v1 \<leftarrow> needed ''name'' read_string ms;
     v2 \<leftarrow> needed ''domain'' read_string ms;
     v3 \<leftarrow> needed ''image'' read_string ms;
     v4 \<leftarrow> needed ''port'' read_word ms;
     Some \<lparr>rq_name = v1, rq_domain = v2, rq_image = v3, rq_port = v4\<rparr> }"

definition read_port :: "json \<Rightarrow> u16 option" where
  "read_port j = Option.bind (members [''tunnel_public_port''] j) (needed ''tunnel_public_port'' read_word)"

text \<open>The extractor \<^verbatim>\<open>Json\<close>: a body that is no JSON is rejected by the library, one of another shape with 422.\<close>

definition extractor :: "(http_request \<Rightarrow> response + json) \<Rightarrow> (json \<Rightarrow> 'a option) \<Rightarrow> http_request \<Rightarrow> response + 'a" where
  "extractor parse rd q =
     (case parse q of Inl r \<Rightarrow> Inl r | Inr j \<Rightarrow> (case rd j of None \<Rightarrow> Inl (422, Empty) | Some a \<Rightarrow> Inr a))"

definition json_api :: "(http_request \<Rightarrow> response + json) \<Rightarrow> json_lib \<Rightarrow> 'h api \<Rightarrow> 'h api" where
  "json_api parse l w = w\<lparr>w_enroll := extractor parse read_enroll,
     w_beat := extractor parse (read_heartbeat (w_crates w) l),
     w_register := extractor parse read_register, w_port := extractor parse read_port\<rparr>"

subsection \<open>Writing answers\<close>

definition option_json :: "('a \<Rightarrow> json) \<Rightarrow> 'a option \<Rightarrow> json" where
  "option_json wr a = (case a of None \<Rightarrow> J_null | Some x \<Rightarrow> wr x)"

definition word_json :: "'a::len word \<Rightarrow> json" where
  "word_json n = J_int (uint n)"

text \<open>A number that is not finite is written as \<^verbatim>\<open>null\<close>.\<close>

definition single_json :: "json_lib \<Rightarrow> f32 \<Rightarrow> json" where
  "single_json l f = (case f of Fin q \<Rightarrow> J_float (decimal_of l q) | _ \<Rightarrow> J_null)"

definition info_members :: "handshake_info \<Rightarrow> (string \<times> json) list" where
  "info_members i = [(''hostname'', J_string (hostname i)), (''os'', J_string (os i)), (''arch'', J_string (arch i)),
     (''cpu_cores'', word_json (cpu_cores i)), (''cpu_model'', J_string (cpu_model i)),
     (''memory_total_mb'', word_json (memory_total_mb i)), (''disk_free_gb'', word_json (disk_free_gb i)),
     (''docker_version'', J_string (docker_version i)), (''tunnel_version'', J_string (tunnel_version i)),
     (''service_addr'', J_string (service_addr i))]"

definition metrics_json :: "json_lib \<Rightarrow> metrics \<Rightarrow> json" where
  "metrics_json l m = J_object [(''cpu_pct'', single_json l (cpu_pct m)), (''mem_pct'', single_json l (mem_pct m)),
     (''load_avg'', single_json l (load_avg m)), (''active_requests'', word_json (active_requests m))]"

definition assignment_json :: "json_lib \<Rightarrow> service_assignment \<Rightarrow> json" where
  "assignment_json l a = J_object [(''service_name'', J_string (service_name a)), (''domain'', J_string (domain a)),
     (''image'', J_string (image a)), (''service_port'', word_json (service_port a)),
     (''assigned_at'', J_string (time_text l (assigned_at a)))]"

definition volunteer_json :: "crates \<Rightarrow> json_lib \<Rightarrow> volunteer_state \<Rightarrow> json" where
  "volunteer_json k l v = J_object [(''id'', J_string (uuid_text k (vid v))), (''info'', J_object (info_members (info v))),
     (''metrics'', metrics_json l (metrics v)), (''enrolled_at'', J_string (time_text l (enrolled_at v))),
     (''last_heartbeat'', J_string (time_text l (last_heartbeat v))),
     (''assigned_service'', option_json (assignment_json l) (assigned_service v)),
     (''service_running'', option_json J_bool (service_running v)),
     (''service_image'', option_json J_string (service_image v))]"

definition payload_json :: "string \<times> u16 \<Rightarrow> json" where
  "payload_json p = J_object [(''image'', J_string (fst p)), (''service_port'', word_json (snd p))]"

definition enroll_document :: "string \<Rightarrow> nat \<Rightarrow> (string \<times> u16) option \<Rightarrow> json" where
  "enroll_document i n a = J_object [(''volunteer_id'', J_string i), (''heartbeat_interval_seconds'', J_int (int n)),
     (''assignment'', option_json payload_json a)]"

definition error_document :: "string \<Rightarrow> string \<Rightarrow> json" where
  "error_document msg code = J_object [(''error'', J_string msg), (''code'', J_string code)]"

definition register_document :: "string \<Rightarrow> string \<Rightarrow> string option \<Rightarrow> json" where
  "register_document b d a = J_object [(''backend'', J_string b), (''domain'', J_string d), (''assigned_to'', option_json J_string a)]"

fun body_json :: "crates \<Rightarrow> json_lib \<Rightarrow> body \<Rightarrow> json option" where
  "body_json k l (Enroll_response i n a) = Some (enroll_document i n a)"
| "body_json k l (Heartbeat_response a) =
     Some (J_object [(''assignment'', option_json payload_json a), (''status'', J_string ''ok'')])"
| "body_json k l (Status t) = Some (J_object [(''status'', J_string t)])"
| "body_json k l (Error_response t c) = Some (error_document t c)"
| "body_json k l (Register_response b d a) = Some (register_document b d a)"
| "body_json k l (Failure t) = Some (J_object [(''error'', J_string t)])"
| "body_json k l (Services ts) = Some (J_object [(''services'', J_array (map J_string ts))])"
| "body_json k l (Volunteers vs) = Some (J_array (map (volunteer_json k l) vs))"
| "body_json k l _ = None"

subsection \<open>Schemas\<close>

datatype schema =
  Of_string | Of_uuid | Of_date_time | Of_int32 | Of_int64 | Of_float | Of_boolean | Array_of schema | Or_null schema
| Object_of "(string \<times> bool \<times> schema) list" | All_of "schema list" | Ref string

text \<open>A field that is an \<^verbatim>\<open>Option\<close> is not required and may be null.\<close>

definition field :: "string \<Rightarrow> schema \<Rightarrow> string \<times> bool \<times> schema" where
  "field n t = (n, True, t)"

definition option_field :: "string \<Rightarrow> schema \<Rightarrow> string \<times> bool \<times> schema" where
  "option_field n t = (n, False, Or_null t)"

text \<open>
  The types of the fields as \<^verbatim>\<open>utoipa\<close> gives them: \<^verbatim>\<open>u16\<close> and \<^verbatim>\<open>u32\<close> are integers of the format
  \<^verbatim>\<open>int32\<close>, \<^verbatim>\<open>u64\<close> of the format \<^verbatim>\<open>int64\<close>, all with the minimum 0; \<^verbatim>\<open>f32\<close> is a number of the format
  \<^verbatim>\<open>float\<close>; \<^verbatim>\<open>Uuid\<close> and \<^verbatim>\<open>DateTime\<close> are strings of the formats \<^verbatim>\<open>uuid\<close> and \<^verbatim>\<open>date-time\<close>.
\<close>

definition schemas :: "(string \<times> schema) list" where
  "schemas = [
     (''HandshakeInfo'', Object_of [field ''hostname'' Of_string, field ''os'' Of_string, field ''arch'' Of_string,
        field ''cpu_cores'' Of_int32, field ''cpu_model'' Of_string, field ''memory_total_mb'' Of_int64,
        field ''disk_free_gb'' Of_int64, field ''docker_version'' Of_string, field ''tunnel_version'' Of_string,
        field ''service_addr'' Of_string]),
     (''Metrics'', Object_of [field ''cpu_pct'' Of_float, field ''mem_pct'' Of_float, field ''load_avg'' Of_float,
        field ''active_requests'' Of_int32]),
     (''ServiceAssignment'', Object_of [field ''service_name'' Of_string, field ''domain'' Of_string,
        field ''image'' Of_string, field ''service_port'' Of_int32, field ''assigned_at'' Of_date_time]),
     (''VolunteerState'', Object_of [field ''id'' Of_uuid, field ''info'' (Ref ''HandshakeInfo''),
        field ''metrics'' (Ref ''Metrics''), field ''enrolled_at'' Of_date_time, field ''last_heartbeat'' Of_date_time,
        option_field ''assigned_service'' (Ref ''ServiceAssignment''), option_field ''service_running'' Of_boolean,
        option_field ''service_image'' Of_string]),
     (''EnrollRequest'', All_of [Ref ''HandshakeInfo'', Object_of [field ''tunnel_public_port'' Of_int32]]),
     (''EnrollResponse'', Object_of [field ''volunteer_id'' Of_string, field ''heartbeat_interval_seconds'' Of_int64,
        option_field ''assignment'' (Ref ''AssignmentPayload'')]),
     (''AssignmentPayload'', Object_of [field ''image'' Of_string, field ''service_port'' Of_int32]),
     (''HeartbeatRequest'', Object_of [field ''volunteer_id'' Of_uuid, field ''cpu_pct'' Of_float,
        field ''mem_pct'' Of_float, field ''load_avg'' Of_float, field ''active_requests'' Of_int32,
        option_field ''service_running'' Of_boolean, option_field ''service_image'' Of_string]),
     (''ErrorResponse'', Object_of [field ''error'' Of_string, field ''code'' Of_string]),
     (''UpdateTunnelPortRequest'', Object_of [field ''tunnel_public_port'' Of_int32]),
     (''RegisterServiceRequest'', Object_of [field ''name'' Of_string, field ''domain'' Of_string,
        field ''image'' Of_string, field ''port'' Of_int32]),
     (''RegisterServiceResponse'', Object_of [field ''backend'' Of_string, field ''domain'' Of_string,
        option_field ''assigned_to'' Of_string])]"

text \<open>
  A value conforms to a schema. An integer of a format is one of its signed range, a number of the format
  \<^verbatim>\<open>float\<close> one that reads as a finite single. The number bounds the references followed into each other,
  at most two here.
\<close>

fun conforms :: "crates \<Rightarrow> json_lib \<Rightarrow> nat \<Rightarrow> schema \<Rightarrow> json \<Rightarrow> bool" where
  "conforms k l n Of_string j = (case j of J_string _ \<Rightarrow> True | _ \<Rightarrow> False)"
| "conforms k l n Of_uuid j = (read_uuid k j \<noteq> None)"
| "conforms k l n Of_date_time j = (case j of J_string t \<Rightarrow> parse_rfc3339 k t \<noteq> None | _ \<Rightarrow> False)"
| "conforms k l n Of_int32 j = (case j of J_int i \<Rightarrow> 0 \<le> i \<and> i < 2 ^ 31 | _ \<Rightarrow> False)"
| "conforms k l n Of_int64 j = (case j of J_int i \<Rightarrow> 0 \<le> i \<and> i < 2 ^ 63 | _ \<Rightarrow> False)"
| "conforms k l n Of_float j = (case read_single l j of Some (Fin _) \<Rightarrow> True | _ \<Rightarrow> False)"
| "conforms k l n Of_boolean j = (case j of J_bool _ \<Rightarrow> True | _ \<Rightarrow> False)"
| "conforms k l n (Array_of t) j = (case j of J_array js \<Rightarrow> list_all (conforms k l n t) js | _ \<Rightarrow> False)"
| "conforms k l n (Or_null t) j = (j = J_null \<or> conforms k l n t j)"
| "conforms k l n (Object_of fs) j = (case j of
     J_object ms \<Rightarrow> list_all (\<lambda>f. case map_of ms (fst f) of
       Some v \<Rightarrow> conforms k l n (snd (snd f)) v | None \<Rightarrow> \<not> fst (snd f)) fs
   | _ \<Rightarrow> False)"
| "conforms k l n (All_of ts) j = list_all (\<lambda>t. conforms k l n t j) ts"
| "conforms k l 0 (Ref r) j = False"
| "conforms k l (Suc n) (Ref r) j = (case map_of schemas r of Some t \<Rightarrow> conforms k l n t j | None \<Rightarrow> False)"

text \<open>The bodies of the answers that the annotations of the handlers promise.\<close>

fun documented_body :: "endpoint \<Rightarrow> nat \<Rightarrow> schema option" where
  "documented_body Post_enroll c = (if c = 201 then Some (Ref ''EnrollResponse'') else None)"
| "documented_body Post_heartbeat c = (if c = 404 then Some (Ref ''ErrorResponse'') else None)"
| "documented_body Delete_enroll c = (if c = 400 \<or> c = 404 then Some (Ref ''ErrorResponse'') else None)"
| "documented_body Get_volunteers c = (if c = 200 then Some (Array_of (Ref ''VolunteerState'')) else None)"
| "documented_body Post_tunnel_port c = (if c = 400 \<or> c = 404 then Some (Ref ''ErrorResponse'') else None)"
| "documented_body Post_services c = (if c = 201 then Some (Ref ''RegisterServiceResponse'') else None)"
| "documented_body _ c = None"

subsection \<open>What clients send\<close>

definition enroll_members :: "enroll_request \<Rightarrow> (string \<times> json) list" where
  "enroll_members req = (''tunnel_public_port'', word_json (tunnel_public_port req)) # info_members (er_info req)"

definition heartbeat_members :: "crates \<Rightarrow> json_lib \<Rightarrow> heartbeat_request \<Rightarrow> (string \<times> json) list" where
  "heartbeat_members k l hb = [(''volunteer_id'', J_string (uuid_text k (hb_volunteer_id hb))),
     (''cpu_pct'', single_json l (hb_cpu_pct hb)), (''mem_pct'', single_json l (hb_mem_pct hb)),
     (''load_avg'', single_json l (hb_load_avg hb)), (''active_requests'', word_json (hb_active_requests hb)),
     (''service_running'', option_json J_bool (hb_service_running hb)),
     (''service_image'', option_json J_string (hb_service_image hb))]"

definition register_members :: "register_request \<Rightarrow> (string \<times> json) list" where
  "register_members rq = [(''name'', J_string (rq_name rq)), (''domain'', J_string (rq_domain rq)),
     (''image'', J_string (rq_image rq)), (''port'', word_json (rq_port rq))]"

text \<open>An object with these members, in any order, and maybe others of other names.\<close>

definition describes :: "(string \<times> json) list \<Rightarrow> json \<Rightarrow> bool" where
  "describes ms j \<longleftrightarrow> (\<exists>fs extra. j = J_object fs \<and> mset fs = mset (ms @ extra) \<and> fst ` set ms \<inter> fst ` set extra = {})"

lemma named_simps [simp]:
  "named n [] = []" "named n (m # ms) = (if fst m = n then m # named n ms else named n ms)"
  by (simp_all add: named_def)

lemma named_absent: "n \<notin> fst ` set ms \<Longrightarrow> named n ms = []"
  by (induction ms) auto

lemma named_own: "distinct (map fst ms) \<Longrightarrow> (n, v) \<in> set ms \<Longrightarrow> named n ms = [(n, v)]"
  by (induction ms) (auto simp: named_absent rev_image_eqI)

lemma describes_named:
  assumes "describes ms j" "distinct (map fst ms)"
  obtains fs where "j = J_object fs" "\<And>n v. (n, v) \<in> set ms \<Longrightarrow> named n fs = [(n, v)]"
proof -
  obtain fs extra where j: "j = J_object fs" and fs: "mset fs = mset (ms @ extra)" and e: "fst ` set ms \<inter> fst ` set extra = {}"
    using assms(1) by (auto simp: describes_def)
  have "named n fs = [(n, v)]" if "(n, v) \<in> set ms" for n v
  proof -
    have "n \<in> fst ` set ms" using that by (rule rev_image_eqI) simp
    with e have "named n extra = []" by (intro named_absent) blast
    moreover have "mset (named n fs) = mset (named n ms) + mset (named n extra)"
      using fs by (simp add: named_def)
    ultimately have "mset (named n fs) = {#(n, v)#}" using named_own [OF assms(2) that] by simp
    then show ?thesis by simp
  qed
  with j that show ?thesis by blast
qed

lemma values_read [simp]:
  "read_word (word_json w) = Some w"
  "nullable read_bool (option_json J_bool b) = Some b"
  "nullable read_string (option_json J_string t) = Some t"
proof -
  show "read_word (word_json w) = Some w" using uint_lt2p [of w] by (simp add: word_json_def)
  show "nullable read_bool (option_json J_bool b) = Some b" "nullable read_string (option_json J_string t) = Some t"
    by (cases b; simp add: option_json_def) (cases t; simp add: option_json_def)
qed

text \<open>The decimals of the three loads read back as the same singles.\<close>

definition loads_read :: "json_lib \<Rightarrow> heartbeat_request \<Rightarrow> bool" where
  "loads_read l hb \<longleftrightarrow> (\<forall>f \<in> {hb_cpu_pct hb, hb_mem_pct hb, hb_load_avg hb}. read_single l (single_json l f) = Some f)"

lemma read_enroll_described:
  assumes "describes (enroll_members req) j"
  shows "read_enroll j = Some req"
proof -
  obtain fs where j: "j = J_object fs" and n: "\<And>n v. (n, v) \<in> set (enroll_members req) \<Longrightarrow> named n fs = [(n, v)]"
    by (rule describes_named [OF assms]) (simp_all add: enroll_members_def info_members_def)
  note n [unfolded enroll_members_def info_members_def]
  then show ?thesis by (simp add: j read_enroll_def read_info_def needed_def)
qed

lemma read_heartbeat_described:
  assumes "describes (heartbeat_members k l hb) j" "crates_ok k" "loads_read l hb"
  shows "read_heartbeat k l j = Some hb"
proof -
  obtain fs where j: "j = J_object fs" and n: "\<And>n v. (n, v) \<in> set (heartbeat_members k l hb) \<Longrightarrow> named n fs = [(n, v)]"
    by (rule describes_named [OF assms(1)]) (simp_all add: heartbeat_members_def)
  note n [unfolded heartbeat_members_def]
  moreover have "uuid_parse k (uuid_text k i) = Some i" for i using assms(2) by (simp add: crates_ok_def)
  ultimately show ?thesis
    using assms(3) by (simp add: j read_heartbeat_def needed_def optional_def read_uuid_def loads_read_def)
qed

lemma read_register_described:
  assumes "describes (register_members rq) j"
  shows "read_register j = Some rq"
proof -
  obtain fs where j: "j = J_object fs" and n: "\<And>n v. (n, v) \<in> set (register_members rq) \<Longrightarrow> named n fs = [(n, v)]"
    by (rule describes_named [OF assms]) (simp_all add: register_members_def)
  note n [unfolded register_members_def]
  then show ?thesis by (simp add: j read_register_def needed_def)
qed

lemma read_port_described:
  assumes "describes [(''tunnel_public_port'', word_json p)] j"
  shows "read_port j = Some p"
proof -
  obtain fs where j: "j = J_object fs" and n: "named ''tunnel_public_port'' fs = [(''tunnel_public_port'', word_json p)]"
    by (rule describes_named [OF assms]) simp_all
  then show ?thesis by (simp add: read_port_def needed_def)
qed

text \<open>A document without one of the required fields is read as nothing.\<close>

definition ENROLL_FIELDS :: "string list" where
  "ENROLL_FIELDS = [''tunnel_public_port'', ''hostname'', ''os'', ''arch'', ''cpu_cores'', ''cpu_model'',
     ''memory_total_mb'', ''disk_free_gb'', ''docker_version'', ''tunnel_version'', ''service_addr'']"

lemma needed_Some: "needed n rd ms = Some v \<Longrightarrow> named n ms \<noteq> []"
  by (auto simp: needed_def)

lemma read_info_missing:
  assumes "n \<in> set (tl ENROLL_FIELDS)" "named n ms = []"
  shows "read_info ms = None"
proof (rule ccontr)
  assume "read_info ms \<noteq> None"
  then obtain i where "read_info ms = Some i" by blast
  then have "\<forall>n \<in> set (tl ENROLL_FIELDS). named n ms \<noteq> []"
    unfolding read_info_def bind_eq_Some_conv ENROLL_FIELDS_def by (elim exE conjE) (simp add: needed_Some)
  with assms show False by blast
qed

lemma read_missing:
  "n \<in> set ENROLL_FIELDS \<Longrightarrow> named n ms = [] \<Longrightarrow> read_enroll (J_object ms) = None"
  "n \<in> set (take 5 HEARTBEAT_FIELDS) \<Longrightarrow> named n ms = [] \<Longrightarrow> read_heartbeat k l (J_object ms) = None"
  "n \<in> set REGISTER_FIELDS \<Longrightarrow> named n ms = [] \<Longrightarrow> read_register (J_object ms) = None"
proof -
  have e: "needed ''tunnel_public_port'' read_word ms = (None :: u16 option) \<or> read_info ms = None"
    if "n \<in> set ENROLL_FIELDS" "named n ms = []"
  proof -
    have "n = ''tunnel_public_port'' \<or> n \<in> set (tl ENROLL_FIELDS)" using that(1) by (simp add: ENROLL_FIELDS_def)
    then show ?thesis
    proof
      assume "n = ''tunnel_public_port''"
      with that(2) show ?thesis by (simp add: needed_def)
    qed (rule disjI2, rule read_info_missing [OF _ that(2)])
  qed
  show "read_enroll (J_object ms) = None" if "n \<in> set ENROLL_FIELDS" "named n ms = []"
    using e [OF that] by (cases "needed ''tunnel_public_port'' read_word ms :: u16 option") (auto simp: read_enroll_def)
  have "named n ms \<noteq> []" if "read_heartbeat k l (J_object ms) = Some hb" "n \<in> set (take 5 HEARTBEAT_FIELDS)" for hb n
    using that unfolding read_heartbeat_def bind_eq_Some_conv HEARTBEAT_FIELDS_def
    by (elim exE conjE) (auto simp: needed_Some)
  then show "n \<in> set (take 5 HEARTBEAT_FIELDS) \<Longrightarrow> named n ms = [] \<Longrightarrow> read_heartbeat k l (J_object ms) = None"
    by (cases "read_heartbeat k l (J_object ms)") auto
  have "named n ms \<noteq> []" if "read_register (J_object ms) = Some rq" "n \<in> set REGISTER_FIELDS" for rq n
    using that unfolding read_register_def bind_eq_Some_conv REGISTER_FIELDS_def
    by (elim exE conjE) (auto simp: needed_Some)
  then show "n \<in> set REGISTER_FIELDS \<Longrightarrow> named n ms = [] \<Longrightarrow> read_register (J_object ms) = None"
    by (cases "read_register (J_object ms)") auto
qed

subsection \<open>Properties\<close>

text \<open>C29 The interface reads what its clients write: for each of the four POST requests with a body, an
  object that has the fields of the request, in any order and with members of other names among them,
  is the request the handler gets (for a heartbeat: when the decimals of its three loads read back as
  the same numbers). An object without one of the required fields, which are all but
  \<^verbatim>\<open>service_running\<close> and \<^verbatim>\<open>service_image\<close> of a heartbeat, is answered 422 and nothing changes.\<close>

theorem requests_read_back:
  assumes "hq_method q = ''POST''" and "parse q = Inr j"
  shows "(hq_path q = ''/enroll'' \<and> describes (enroll_members req) j \<longrightarrow>
      serve_http (json_api parse l w) oc q s = enroll (w_host w) (w_crates w) (o_env oc) (o_now oc) (o_uuid oc) req s) \<and>
    (hq_path q = ''/heartbeat'' \<and> describes (heartbeat_members (w_crates w) l hb) j \<and> crates_ok (w_crates w) \<and> loads_read l hb \<longrightarrow>
      serve_http (json_api parse l w) oc q s = heartbeat (w_host w) (w_crates w) (o_now oc) hb s) \<and>
    (hq_path q = ''/services'' \<and> describes (register_members rq) j \<longrightarrow>
      serve_http (json_api parse l w) oc q s = register_service (w_host w) (w_crates w) (o_now oc) (o_later oc) rq s) \<and>
    (hq_path q = port_path i \<and> segment i \<and> w_param w i = Inr t \<and> describes [(''tunnel_public_port'', word_json p)] j \<longrightarrow>
      serve_http (json_api parse l w) oc q s = update_tunnel_port (w_host w) (w_crates w) (o_env oc) t p s) \<and>
    (\<forall>ms n. j = J_object ms \<and> named n ms = [] \<and>
       (hq_path q = ''/enroll'' \<and> n \<in> set ENROLL_FIELDS \<or> hq_path q = ''/heartbeat'' \<and> n \<in> set (take 5 HEARTBEAT_FIELDS) \<or>
        hq_path q = ''/services'' \<and> n \<in> set REGISTER_FIELDS) \<longrightarrow>
      serve_http (json_api parse l w) oc q s = ((422, Empty), s)) \<and>
    (\<forall>ms. hq_path q = port_path i \<and> segment i \<and> w_param w i = Inr t \<and> j = J_object ms \<and>
       named ''tunnel_public_port'' ms = [] \<longrightarrow>
      serve_http (json_api parse l w) oc q s = ((422, Empty), s))"
proof -
  note http = serve_http_def json_api_def extracting_def extractor_def path_param_def assms route_plain serves_meth split_beta
  show ?thesis
  proof (intro conjI impI allI; elim conjE)
    assume "hq_path q = ''/enroll''" "describes (enroll_members req) j"
    then show "serve_http (json_api parse l w) oc q s = enroll (w_host w) (w_crates w) (o_env oc) (o_now oc) (o_uuid oc) req s"
      by (simp add: http read_enroll_described)
  next
    assume "hq_path q = ''/heartbeat''" "describes (heartbeat_members (w_crates w) l hb) j" "crates_ok (w_crates w)" "loads_read l hb"
    then show "serve_http (json_api parse l w) oc q s = heartbeat (w_host w) (w_crates w) (o_now oc) hb s"
      by (simp add: http read_heartbeat_described)
  next
    assume "hq_path q = ''/services''" "describes (register_members rq) j"
    then show "serve_http (json_api parse l w) oc q s = register_service (w_host w) (w_crates w) (o_now oc) (o_later oc) rq s"
      by (simp add: http read_register_described)
  next
    assume "hq_path q = port_path i" "segment i" "w_param w i = Inr t" "describes [(''tunnel_public_port'', word_json p)] j"
    then show "serve_http (json_api parse l w) oc q s = update_tunnel_port (w_host w) (w_crates w) (o_env oc) t p s"
      by (simp add: http route_ids read_port_described)
  next
    fix ms n
    assume "j = J_object ms" "named n ms = []"
      "hq_path q = ''/enroll'' \<and> n \<in> set ENROLL_FIELDS \<or> hq_path q = ''/heartbeat'' \<and> n \<in> set (take 5 HEARTBEAT_FIELDS) \<or>
        hq_path q = ''/services'' \<and> n \<in> set REGISTER_FIELDS"
    then show "serve_http (json_api parse l w) oc q s = ((422, Empty), s)"
      by (elim disjE conjE) (simp_all add: http read_missing)
  next
    fix ms
    assume "hq_path q = port_path i" "segment i" "w_param w i = Inr t" "j = J_object ms"
      "named ''tunnel_public_port'' ms = []"
    then show "serve_http (json_api parse l w) oc q s = ((422, Empty), s)"
      by (simp add: http route_ids read_port_def needed_def)
  qed
qed

definition wit_lib :: json_lib where
  "wit_lib = \<lparr>decimal_of = id, single_of = Fin, time_text = (\<lambda>_. [])\<rparr>"

theorem requests_read_back_witness:
  "serve_http (json_api (\<lambda>_. Inr (J_object (rev (enroll_members (wit_req ''a'')) @ [(''extra'', J_null)]))) wit_lib wit_web)
     wit_occasion (wit_request ''POST'' ''/enroll'') wit_boot =
   enroll sim_host wit wit_env 0 7 (wit_req ''a'') wit_boot"
proof -
  let ?j = "J_object (rev (enroll_members (wit_req ''a'')) @ [(''extra'', J_null)])"
  have "describes (enroll_members (wit_req ''a'')) ?j"
    unfolding describes_def
    by (intro exI [of _ "rev (enroll_members (wit_req ''a'')) @ [(''extra'', J_null)]"] exI [of _ "[(''extra'', J_null)]"])
      (simp add: enroll_members_def info_members_def)
  then show ?thesis
    using requests_read_back [of "wit_request ''POST'' ''/enroll''" "\<lambda>_. Inr ?j" ?j "wit_req ''a''" wit_lib wit_web wit_occasion wit_boot]
    by (simp add: wit_request_def wit_web_def wit_occasion_def)
qed

text \<open>Whatever a heartbeat says, no number read from it is NaN when reading a number never gives one.\<close>

lemma json_beat_metrics:
  assumes "\<And>q. single_of l q \<noteq> NaN" "read_heartbeat k l j = Some hb"
  shows "json_metrics hb"
proof -
  have n: "f \<noteq> NaN" if "needed n (read_single l) ms = Some f" for n ms f
    using that assms(1) assms(1) [symmetric] by (auto simp: needed_def split: list.splits elim!: read_single.elims)
  show ?thesis
    using assms(2) unfolding read_heartbeat_def bind_eq_Some_conv
    by (elim exE conjE) (auto simp: json_metrics_def dest: n)
qed

subsection \<open>Answers and their schemas\<close>

text \<open>What the numbers and times of a volunteer must be for its document to conform.\<close>

definition finite_loads :: "json_lib \<Rightarrow> metrics \<Rightarrow> bool" where
  "finite_loads l m \<longleftrightarrow> (\<forall>f \<in> {cpu_pct m, mem_pct m, load_avg m}. \<exists>q. read_single l (single_json l f) = Some (Fin q))"

definition small_numbers :: "handshake_info \<Rightarrow> bool" where
  "small_numbers i \<longleftrightarrow> uint (cpu_cores i) < 2 ^ 31 \<and> uint (memory_total_mb i) < 2 ^ 63 \<and> uint (disk_free_gb i) < 2 ^ 63"

definition readable_time :: "crates \<Rightarrow> json_lib \<Rightarrow> int \<Rightarrow> bool" where
  "readable_time k l t \<longleftrightarrow> parse_rfc3339 k (time_text l t) \<noteq> None"

definition documentable :: "crates \<Rightarrow> json_lib \<Rightarrow> volunteer_state \<Rightarrow> bool" where
  "documentable k l v \<longleftrightarrow> small_numbers (info v) \<and> finite_loads l (metrics v) \<and>
     uint (active_requests (metrics v)) < 2 ^ 31 \<and> readable_time k l (enrolled_at v) \<and>
     readable_time k l (last_heartbeat v) \<and> (\<forall>a. assigned_service v = Some a \<longrightarrow> readable_time k l (assigned_at a))"

lemmas schema_simps = schemas_def field_def option_field_def numeral_3_eq_3

lemma conforms_null:
  "conforms k l n (Or_null t) (option_json wr a) \<longleftrightarrow> (\<forall>x. a = Some x \<longrightarrow> wr x = J_null \<or> conforms k l n t (wr x))"
  by (cases a) (simp_all add: option_json_def)

lemma conforms_port: "conforms k l n Of_int32 (word_json (p :: u16))"
  using uint_lt2p [of p] by (simp add: word_json_def)

lemma conforms_word:
  "conforms k l n Of_int32 (word_json x) \<longleftrightarrow> uint x < 2 ^ 31" "conforms k l n Of_int64 (word_json x) \<longleftrightarrow> uint x < 2 ^ 63"
  by (simp_all add: word_json_def)

lemma conforms_single:
  "conforms k l n Of_float (single_json l f) \<longleftrightarrow> (\<exists>q. read_single l (single_json l f) = Some (Fin q))"
  by (simp split: option.split f32.split)

lemma conforms_time: "conforms k l n Of_date_time (J_string (time_text l t)) \<longleftrightarrow> readable_time k l t"
  by (simp add: readable_time_def)

lemmas format_simps = conforms_port conforms_word conforms_single conforms_time

lemma conforms_info:
  "conforms k l (Suc n) (Ref ''HandshakeInfo'') (J_object (info_members i)) \<longleftrightarrow> small_numbers i"
  by (simp add: schema_simps info_members_def format_simps small_numbers_def del: conforms.simps(2-6))

lemma conforms_metrics:
  "conforms k l (Suc n) (Ref ''Metrics'') (metrics_json l m) \<longleftrightarrow> finite_loads l m \<and> uint (active_requests m) < 2 ^ 31"
  by (simp add: schema_simps metrics_json_def format_simps finite_loads_def del: conforms.simps(2-6))

lemma conforms_assignment:
  "conforms k l (Suc n) (Ref ''ServiceAssignment'') (assignment_json l a) \<longleftrightarrow> readable_time k l (assigned_at a)"
  by (simp add: schema_simps assignment_json_def format_simps del: conforms.simps(2-6))

lemma conforms_payload: "conforms k l (Suc n) (Ref ''AssignmentPayload'') (payload_json a)"
  by (simp add: schema_simps payload_json_def format_simps del: conforms.simps(2-6))

lemma conforms_ref: "map_of schemas r = Some t \<Longrightarrow> conforms k l (Suc n) (Ref r) j \<longleftrightarrow> conforms k l n t j"
  by simp

lemma conforms_volunteer:
  assumes "crates_ok k"
  shows "conforms k l (Suc (Suc n)) (Ref ''VolunteerState'') (volunteer_json k l v) \<longleftrightarrow> documentable k l v"
proof -
  have t: "map_of schemas ''VolunteerState'' = Some (Object_of [field ''id'' Of_uuid, field ''info'' (Ref ''HandshakeInfo''),
        field ''metrics'' (Ref ''Metrics''), field ''enrolled_at'' Of_date_time, field ''last_heartbeat'' Of_date_time,
        option_field ''assigned_service'' (Ref ''ServiceAssignment''), option_field ''service_running'' Of_boolean,
        option_field ''service_image'' Of_string])"
    by (simp add: schemas_def)
  have id: "conforms k l m Of_uuid (J_string (uuid_text k i))" for m i
    using assms by (simp add: crates_ok_def read_uuid_def)
  have null: "conforms k l m (Or_null Of_boolean) (option_json J_bool b)"
    "conforms k l m (Or_null Of_string) (option_json J_string u)"
    "conforms k l (Suc m) (Or_null (Ref ''ServiceAssignment'')) (option_json (assignment_json l) a) \<longleftrightarrow>
       (\<forall>x. a = Some x \<longrightarrow> readable_time k l (assigned_at x))" for m b u a
    unfolding conforms_null using conforms_assignment by (simp_all add: assignment_json_def)
  show ?thesis
    unfolding conforms_ref [OF t]
    by (simp add: field_def option_field_def volunteer_json_def conforms_info conforms_metrics null id
        documentable_def conforms_time conj_assoc del: conforms.simps(2-6) conforms.simps(9) conforms.simps(13))
qed

lemma conforms_answers:
  "conforms k l (Suc (Suc n)) (Ref ''EnrollResponse'') (the (body_json k l (Enroll_response i HEARTBEAT_INTERVAL_SECS a)))"
  "conforms k l (Suc n) (Ref ''ErrorResponse'') (the (body_json k l (Error_response t c)))"
  "conforms k l (Suc n) (Ref ''RegisterServiceResponse'') (the (body_json k l (Register_response b d u)))"
proof -
  have t: "map_of schemas ''EnrollResponse'' = Some (Object_of [field ''volunteer_id'' Of_string,
      field ''heartbeat_interval_seconds'' Of_int64, option_field ''assignment'' (Ref ''AssignmentPayload'')])"
    by (simp add: schemas_def)
  have null: "conforms k l (Suc m) (Or_null (Ref ''AssignmentPayload'')) (option_json payload_json a)" for m a
    unfolding conforms_null using conforms_payload by simp
  show "conforms k l (Suc (Suc n)) (Ref ''EnrollResponse'') (the (body_json k l (Enroll_response i HEARTBEAT_INTERVAL_SECS a)))"
    unfolding conforms_ref [OF t]
    by (simp add: enroll_document_def field_def option_field_def null HEARTBEAT_INTERVAL_SECS_def
        del: conforms.simps(9) conforms.simps(13))
  show "conforms k l (Suc n) (Ref ''ErrorResponse'') (the (body_json k l (Error_response t c)))"
    by (simp add: schema_simps error_document_def)
  show "conforms k l (Suc n) (Ref ''RegisterServiceResponse'') (the (body_json k l (Register_response b d u)))"
    by (cases u) (simp_all add: schema_simps register_document_def option_json_def)
qed

lemma bodies_of:
  "\<exists>i a. snd (fst (enroll x k e now u req s)) = Enroll_response i HEARTBEAT_INTERVAL_SECS a"
  "fst (fst (heartbeat x k now hb s)) = 404 \<Longrightarrow> \<exists>t c. snd (fst (heartbeat x k now hb s)) = Error_response t c"
  "fst (fst (disconnect x k i s)) \<in> {400, 404} \<Longrightarrow> \<exists>t c. snd (fst (disconnect x k i s)) = Error_response t c"
  "fst (fst (update_tunnel_port x k e i p s)) \<in> {400, 404} \<Longrightarrow> \<exists>t c. snd (fst (update_tunnel_port x k e i p s)) = Error_response t c"
  "fst (fst (register_service x k now now' rq s)) = 201 \<Longrightarrow>
     \<exists>b d a. snd (fst (register_service x k now now' rq s)) = Register_response b d a"
proof -
  show "\<exists>i a. snd (fst (enroll x k e now u req s)) = Enroll_response i HEARTBEAT_INTERVAL_SECS a"
    by (simp add: enroll_def enroll_finish_def Let_def split_beta)
  show "fst (fst (heartbeat x k now hb s)) = 404 \<Longrightarrow> \<exists>t c. snd (fst (heartbeat x k now hb s)) = Error_response t c"
    by (auto simp: heartbeat_def Let_def not_found_def split: option.splits)
  show "fst (fst (disconnect x k i s)) \<in> {400, 404} \<Longrightarrow> \<exists>t c. snd (fst (disconnect x k i s)) = Error_response t c"
    by (auto simp: disconnect_def Let_def not_found_def invalid_id_def split: option.splits)
  show "fst (fst (update_tunnel_port x k e i p s)) \<in> {400, 404} \<Longrightarrow> \<exists>t c. snd (fst (update_tunnel_port x k e i p s)) = Error_response t c"
    by (auto simp: update_tunnel_port_def Let_def not_found_def invalid_id_def split: option.splits)
  show "fst (fst (register_service x k now now' rq s)) = 201 \<Longrightarrow>
     \<exists>b d a. snd (fst (register_service x k now now' rq s)) = Register_response b d a"
    by (auto simp: register_service_def register_with_def register_commit_def Let_def on_host_eq split: option.splits sum.splits)
qed

text \<open>C31 Every JSON body that the interface documents is what the handler sends, for the requests that the
  extractors accept: for each endpoint and each status with a documented schema, the body of the
  handler's answer conforms to the schema, formats included. There is one exception, exactly: the list
  of volunteers conforms only if in each volunteer of it the loads are finite and written as decimals
  that read as finite singles (the others are written as null), the numbers of cores and of active
  requests fit into 31 bits and the sizes of memory and disk into 63 (the formats are signed, the
  fields are not), and the times are in the date-time format.\<close>

theorem bodies_documented:
  assumes "accepted w q ps e" and "documented_body e (fst (fst (handle w oc q ps e s))) = Some t" and "crates_ok k"
  shows "\<exists>j. body_json k l (snd (fst (handle w oc q ps e s))) = Some j \<and>
    (conforms k l 2 t j \<longleftrightarrow>
      (e = Get_volunteers \<longrightarrow> (\<forall>v \<in> set (active_volunteers (o_now oc) (volunteers s)). documentable k l v)))"
proof -
  have ok: "\<exists>j. body_json k l b = Some j \<and> conforms k l 2 t j"
    if "b = Enroll_response i HEARTBEAT_INTERVAL_SECS a \<and> t = Ref ''EnrollResponse'' \<or> b = Error_response u c \<and> t = Ref ''ErrorResponse'' \<or>
      b = Register_response i u z \<and> t = Ref ''RegisterServiceResponse''" for b i a u c z
    using that conforms_answers(1) [of k l 0 i a] conforms_answers(2) [of k l 1 u c] conforms_answers(3) [of k l 1 i u z]
    unfolding numeral_2_eq_2 One_nat_def by fastforce
  show ?thesis
  proof (cases e)
    case Post_enroll
    then obtain req where "w_enroll w q = Inr req" using assms(1) by (cases "w_enroll w q") simp_all
    with Post_enroll assms(2) bodies_of(1) [of "w_host w" "w_crates w" "o_env oc" "o_now oc" "o_uuid oc" req s] ok
    show ?thesis by (auto simp: extracting_def split: if_splits)
  next
    case Post_heartbeat
    then obtain hb where "w_beat w q = Inr hb" using assms(1) by (cases "w_beat w q") simp_all
    with Post_heartbeat assms(2) bodies_of(2) [of "w_host w" "w_crates w" "o_now oc" hb s] ok
    show ?thesis by (auto simp: extracting_def split: if_splits)
  next
    case Delete_enroll
    then obtain i where "path_param w ps = Inr i" using assms(1) by (cases "path_param w ps") simp_all
    with Delete_enroll assms(2) bodies_of(3) [of "w_host w" "w_crates w" i s] ok
    show ?thesis by (auto simp: extracting_def split: if_splits)
  next
    case Get_volunteers
    have "conforms k l 2 (Array_of (Ref ''VolunteerState'')) (J_array (map (volunteer_json k l) vs)) \<longleftrightarrow>
        (\<forall>v \<in> set vs. documentable k l v)" for vs
      using conforms_volunteer [OF assms(3), of l 0] by (simp add: list_all_iff numeral_2_eq_2 del: conforms.simps(13))
    with Get_volunteers assms(2) show ?thesis by (simp add: list_volunteers_def)
  next
    case Post_tunnel_port
    then obtain i p where "path_param w ps = Inr i" "w_port w q = Inr p"
      using assms(1) by (cases "path_param w ps"; cases "w_port w q") simp_all
    with Post_tunnel_port assms(2) bodies_of(4) [of "w_host w" "w_crates w" "o_env oc" i p s] ok
    show ?thesis by (auto simp: extracting_def split: if_splits)
  next
    case Post_services
    then obtain rq where "w_register w q = Inr rq" using assms(1) by (cases "w_register w q") simp_all
    with Post_services assms(2) bodies_of(5) [of "w_host w" "w_crates w" "o_now oc" "o_later oc" rq s] ok
    show ?thesis by (auto simp: extracting_def split: if_splits)
  qed (use assms(2) in simp_all)
qed

theorem bodies_documented_witness:
  "\<exists>j. body_json wit wit_lib (Volunteers [wit_volunteer]) = Some j \<and>
     conforms wit wit_lib 2 (Array_of (Ref ''VolunteerState'')) j"
proof -
  have a: "active_volunteers 0 (volunteers wit_node) = [wit_volunteer]"
    by (simp add: active_volunteers_def wit_node_map hm_values_def wit_volunteer_alive)
  have r: "readable_time wit wit_lib t" for t
    by (simp add: readable_time_def wit_lib_def wit_def)
  have m: "documentable wit wit_lib wit_volunteer"
    by (simp add: documentable_def finite_loads_def small_numbers_def r [unfolded wit_lib_def] wit_volunteer_def fresh_volunteer_def
        wit_req_def single_json_def wit_lib_def)
  have h: "handle wit_web wit_occasion (wit_request ''GET'' ''/volunteers'') [] Get_volunteers wit_node =
      ((200, Volunteers [wit_volunteer]), wit_node)"
    by (simp add: list_volunteers_def wit_occasion_def a)
  show ?thesis
    using bodies_documented [of wit_web "wit_request ''GET'' ''/volunteers''" "[]" Get_volunteers wit_occasion wit_node _ wit wit_lib]
      wit_ok
    unfolding h by (simp add: a m wit_occasion_def del: conforms.simps body_json.simps)
qed

text \<open>The requests that clients write conform to the documented schemas too, when their numbers are in the ranges.\<close>

lemma requests_documented:
  "small_numbers (er_info req) \<Longrightarrow> conforms k l 2 (Ref ''EnrollRequest'') (J_object (enroll_members req))"
  "crates_ok k \<Longrightarrow> uint (hb_active_requests hb) < 2 ^ 31 \<Longrightarrow>
     \<forall>f \<in> {hb_cpu_pct hb, hb_mem_pct hb, hb_load_avg hb}. \<exists>q. read_single l (single_json l f) = Some (Fin q) \<Longrightarrow>
     conforms k l 2 (Ref ''HeartbeatRequest'') (J_object (heartbeat_members k l hb))"
  "conforms k l 2 (Ref ''RegisterServiceRequest'') (J_object (register_members rq))"
  "conforms k l 2 (Ref ''UpdateTunnelPortRequest'') (J_object [(''tunnel_public_port'', word_json (p :: u16))])"
proof -
  show "conforms k l 2 (Ref ''EnrollRequest'') (J_object (enroll_members req))" if "small_numbers (er_info req)"
    using that by (simp add: schema_simps numeral_2_eq_2 enroll_members_def info_members_def small_numbers_def format_simps
        del: conforms.simps(2-6))
  show "conforms k l 2 (Ref ''HeartbeatRequest'') (J_object (heartbeat_members k l hb))"
    if "crates_ok k" "uint (hb_active_requests hb) < 2 ^ 31"
      "\<forall>f \<in> {hb_cpu_pct hb, hb_mem_pct hb, hb_load_avg hb}. \<exists>q. read_single l (single_json l f) = Some (Fin q)"
  proof -
    have id: "conforms k l m Of_uuid (J_string (uuid_text k i))" for m i
      using that(1) by (simp add: crates_ok_def read_uuid_def)
    show ?thesis using that(2,3)
      by (cases "hb_service_running hb"; cases "hb_service_image hb")
        (simp_all add: schema_simps numeral_2_eq_2 heartbeat_members_def option_json_def format_simps id
          del: conforms.simps(2-6))
  qed
  show "conforms k l 2 (Ref ''RegisterServiceRequest'') (J_object (register_members rq))"
    by (simp add: schema_simps numeral_2_eq_2 register_members_def format_simps del: conforms.simps(2-6))
  show "conforms k l 2 (Ref ''UpdateTunnelPortRequest'') (J_object [(''tunnel_public_port'', word_json (p :: u16))])"
    using uint_lt2p [of p] by (simp add: schema_simps numeral_2_eq_2 format_simps del: conforms.simps(2-6))
qed

end
