(* ===== verification/Dashboard.thy ===== *)
theory Dashboard
  imports Registrar_Properties
begin

text \<open>
  The script of the web page in \<^verbatim>\<open>dashboard.rs\<close>: it reads \<^verbatim>\<open>GET /volunteers\<close> and writes a table row
  for each volunteer. A number of the JSON document is a parameter, with the text \<^verbatim>\<open>toFixed(1)\<close> makes of
  it; a number that is not finite is written as \<^verbatim>\<open>null\<close>, and \<^verbatim>\<open>null.toFixed\<close> throws. So is the text of the
  weight, which \<open>Dashboard_Weight\<close> computes. \<open>Dashboard_Page\<close> has the document and the rest of the page.
\<close>

subsection \<open>The script\<close>

definition replace_char :: "char \<Rightarrow> string \<Rightarrow> string \<Rightarrow> string" where
  "replace_char c r s = concat (map (\<lambda>d. if d = c then r else [d]) s)"

definition esc :: "string \<Rightarrow> string" where
  "esc s = replace_char (CHR ''>'') ''&gt;'' (replace_char (CHR ''<'') ''&lt;'' (replace_char (CHR ''&'') ''&amp;'' s))"

record texts =
  to_fixed :: "f32 \<Rightarrow> string option"
  weight_text :: "metrics \<Rightarrow> string"

definition dash :: string where "dash = [CHR 0xE2, CHR 0x80, CHR 0x94]"

fun run_class :: "bool option \<Rightarrow> string" where
  "run_class (Some True) = ''running''"
| "run_class (Some False) = ''notrunning''"
| "run_class None = ''unknown''"

fun run_label :: "bool option \<Rightarrow> string" where
  "run_label (Some True) = ''yes''"
| "run_label (Some False) = ''no''"
| "run_label None = dash"

text \<open>A missing or empty text is shown as a dash.\<close>

definition svc_cell :: "string option \<Rightarrow> string" where
  "svc_cell t = (if t = None \<or> t = Some [] then ''<span class=\"none\">'' @ dash @ ''</span>''
     else ''<span class=\"svc\">'' @ esc (the t) @ ''</span>'')"

definition cell :: "string \<Rightarrow> string" where
  "cell content = NL # ''      <td>'' @ content @ ''</td>''"

definition table_row :: "texts \<Rightarrow> volunteer_state \<Rightarrow> string option" where
  "table_row x v =
     (let name = map_option service_name (assigned_service v);
          image = map_option image (assigned_service v)
      in case (to_fixed x (cpu_pct (metrics v)), to_fixed x (mem_pct (metrics v))) of
           (Some cpu, Some mem) \<Rightarrow> Some (
             cell (esc (hostname (info v))) @
             NL # ''      <td class=\"alive\">alive</td>'' @
             cell cpu @
             cell mem @
             cell (weight_text x (metrics v)) @
             cell (svc_cell name) @
             cell (svc_cell image) @
             NL # ''      <td class=\"'' @ run_class (service_running v) @ ''\">'' @ run_label (service_running v) @ ''</td>'' @
             NL # ''    '')
         | _ \<Rightarrow> None)"

text \<open>The loop: the rows appended, and whether it went through. An exception ends it where it is.\<close>

fun append_rows :: "texts \<Rightarrow> volunteer_state list \<Rightarrow> string list \<times> bool" where
  "append_rows x [] = ([], True)"
| "append_rows x (v # vs) =
     (case table_row x v of
        None \<Rightarrow> ([], False)
      | Some r \<Rightarrow> (case append_rows x vs of (rs, ok) \<Rightarrow> ((''<tr>'' @ r @ ''</tr>'') # rs, ok)))"

definition load :: "texts \<Rightarrow> volunteer_state list \<Rightarrow> string list \<times> bool" where
  "load x vols =
     (if vols = [] then ([''<tr><td colspan=\"8\" class=\"none\">No volunteers enrolled</td></tr>''], True)
      else append_rows x vols)"

lemma append_rows_all:
  "\<forall>v \<in> set vs. table_row x v \<noteq> None \<Longrightarrow>
     append_rows x vs = (map (\<lambda>u. ''<tr>'' @ the (table_row x u) @ ''</tr>'') vs, True)"
  by (induction vs) (auto split: option.split)

subsection \<open>Escaping\<close>

definition esc_char :: "char \<Rightarrow> string" where
  "esc_char c = (if c = CHR ''&'' then ''&amp;'' else if c = CHR ''<'' then ''&lt;''
     else if c = CHR ''>'' then ''&gt;'' else [c])"

lemma replace_append: "replace_char c r (a @ b) = replace_char c r a @ replace_char c r b"
  by (simp add: replace_char_def)

lemma esc_simps [simp]: "esc [] = []" "esc (c # cs) = esc_char c @ esc cs"
proof -
  show "esc [] = []" by (simp add: esc_def replace_char_def)
  have "esc (a @ b) = esc a @ esc b" for a b by (simp add: esc_def replace_append)
  moreover have "esc [c] = esc_char c" by (simp add: esc_def esc_char_def replace_char_def)
  ultimately show "esc (c # cs) = esc_char c @ esc cs" by (metis append_Cons append_Nil)
qed

lemma esc_no_markup: "CHR ''<'' \<notin> set (esc s)" "CHR ''>'' \<notin> set (esc s)"
  by (induction s) (auto simp: esc_char_def)

text \<open>What a browser shows for the three character references.\<close>

fun unescape :: "string \<Rightarrow> string" where
  "unescape [] = []"
| "unescape (c # cs) =
     (if c = CHR ''&'' \<and> prefix ''amp;'' cs then CHR ''&'' # unescape (drop 4 cs)
      else if c = CHR ''&'' \<and> prefix ''lt;'' cs then CHR ''<'' # unescape (drop 3 cs)
      else if c = CHR ''&'' \<and> prefix ''gt;'' cs then CHR ''>'' # unescape (drop 3 cs)
      else c # unescape cs)"

lemma unescape_esc: "unescape (esc s) = s"
  by (induction s) (simp_all add: esc_char_def)

text \<open>The tags of a piece of HTML, and the text outside them.\<close>

fun tags :: "string option \<Rightarrow> string \<Rightarrow> string list" where
  "tags None [] = []"
| "tags (Some t) [] = [t]"
| "tags None (c # cs) = (if c = CHR ''<'' then tags (Some []) cs else tags None cs)"
| "tags (Some t) (c # cs) = (if c = CHR ''>'' then t # tags None cs else tags (Some (t @ [c])) cs)"

lemma tags_text: "CHR ''<'' \<notin> set a \<Longrightarrow> tags None (a @ s) = tags None s"
  by (induction a) auto

subsection \<open>Properties\<close>

text \<open>The texts of numbers have no character of markup in them.\<close>

definition plain :: "string \<Rightarrow> bool" where
  "plain t \<longleftrightarrow> CHR ''<'' \<notin> set t \<and> CHR ''&'' \<notin> set t"

definition no_markup :: "texts \<Rightarrow> bool" where
  "no_markup x \<longleftrightarrow> (\<forall>f t. to_fixed x f = Some t \<longrightarrow> plain t) \<and> (\<forall>m. plain (weight_text x m))"

definition svc_tags :: "string option \<Rightarrow> string list" where
  "svc_tags t = [''td'', (if t = None \<or> t = Some [] then ''span class=\"none\"'' else ''span class=\"svc\"''), ''/span'', ''/td'']"

lemma tags_cell:
  assumes "CHR ''<'' \<notin> set content"
  shows "tags None (cell content @ s) = ''td'' # ''/td'' # tags None s"
  by (simp add: cell_def tags_text [OF assms])

lemma tags_svc: "tags None (cell (svc_cell t) @ s) = svc_tags t @ tags None s"
  by (simp add: cell_def svc_cell_def svc_tags_def tags_text [OF esc_no_markup(1)] dash_def)

lemma tags_end:
  "tags None (NL # ''      <td class=\"'' @ run_class r @ ''\">'' @ run_label r @ ''</td>'' @ NL # ''    '') =
     [''td class=\"'' @ run_class r @ ''\"'', ''/td'']"
proof (cases r)
  case (Some b)
  then show ?thesis by (cases b) simp_all
qed (simp add: dash_def)

lemma row_tags:
  assumes "no_markup x" and "table_row x v = Some r"
  shows "tags None r =
      [''td'', ''/td'', ''td class=\"alive\"'', ''/td'', ''td'', ''/td'', ''td'', ''/td'', ''td'', ''/td''] @
      svc_tags (map_option service_name (assigned_service v)) @ svc_tags (map_option image (assigned_service v)) @
      [''td class=\"'' @ run_class (service_running v) @ ''\"'', ''/td'']"
proof -
  obtain cpu mem where n: "to_fixed x (cpu_pct (metrics v)) = Some cpu" "to_fixed x (mem_pct (metrics v)) = Some mem"
    and r: "r = cell (esc (hostname (info v))) @ NL # ''      <td class=\"alive\">alive</td>'' @ cell cpu @ cell mem @
      cell (weight_text x (metrics v)) @ cell (svc_cell (map_option service_name (assigned_service v))) @
      cell (svc_cell (map_option image (assigned_service v))) @
      NL # ''      <td class=\"'' @ run_class (service_running v) @ ''\">'' @ run_label (service_running v) @ ''</td>'' @
      NL # ''    ''"
    using assms(2) by (auto simp: table_row_def Let_def split: option.splits)
  have c: "CHR ''<'' \<notin> set cpu" "CHR ''<'' \<notin> set mem" "CHR ''<'' \<notin> set (weight_text x (metrics v))"
    using assms(1) n by (auto simp: no_markup_def plain_def)
  have alive: "tags None (NL # ''      <td class=\"alive\">alive</td>'' @ s) = ''td class=\"alive\"'' # ''/td'' # tags None s" for s
    by simp
  show ?thesis
    unfolding r tags_cell [OF esc_no_markup(1)] alive tags_cell [OF c(1)] tags_cell [OF c(2)] tags_cell [OF c(3)]
      tags_svc tags_end
    by simp
qed

text \<open>
  What the browser shows in the cells of a piece of HTML: for each \<^verbatim>\<open>td\<close> element the text in it, outside
  the tags of its inner elements, with the character references replaced. The first argument is the text
  of the open cell, the second the open tag.
\<close>

fun scan_cells :: "string option \<Rightarrow> string option \<Rightarrow> string \<Rightarrow> string list" where
  "scan_cells cur tag [] = []"
| "scan_cells cur None (c # cs) =
     (if c = CHR ''<'' then scan_cells cur (Some []) cs
      else scan_cells (map_option (\<lambda>u. u @ [c]) cur) None cs)"
| "scan_cells cur (Some t) (c # cs) =
     (if c = CHR ''>'' then
        if t = ''/td'' then (case cur of Some u \<Rightarrow> [unescape u] | None \<Rightarrow> []) @ scan_cells None None cs
        else if prefix ''td'' t then scan_cells (Some []) None cs
        else scan_cells cur None cs
      else scan_cells cur (Some (t @ [c])) cs)"

definition cell_texts :: "string \<Rightarrow> string list" where
  "cell_texts html = scan_cells None None html"

lemma scan_text: "CHR ''<'' \<notin> set a \<Longrightarrow> scan_cells (Some u) None (a @ s) = scan_cells (Some (u @ a)) None s"
  by (induction a arbitrary: u) auto

lemma scan_cell:
  "CHR ''<'' \<notin> set content \<Longrightarrow> scan_cells None None (cell content @ s) = unescape content # scan_cells None None s"
  by (simp add: cell_def scan_text [of content "[]", simplified])

lemma unescape_plain: "CHR ''&'' \<notin> set a \<Longrightarrow> unescape a = a"
  by (induction a) auto

definition shown_or_dash :: "string option \<Rightarrow> string" where
  "shown_or_dash t = (if t = None \<or> t = Some [] then dash else the t)"

lemma dash_plain: "CHR ''<'' \<notin> set dash" "unescape dash = dash"
  by (simp_all add: dash_def)

lemma scan_svc: "scan_cells None None (cell (svc_cell t) @ s) = shown_or_dash t # scan_cells None None s"
proof -
  have inner: "scan_cells None None (cell (''<span class=\"'' @ k @ ''\">'' @ a @ ''</span>'') @ s) = unescape a # scan_cells None None s"
    if "k = ''none'' \<or> k = ''svc''" "CHR ''<'' \<notin> set a" for k a
    using that by (elim disjE) (simp_all add: cell_def scan_text [of a "[]", simplified])
  show ?thesis
    using inner [of "''none''" dash] inner [of "''svc''" "esc (the t)"]
    by (simp add: svc_cell_def shown_or_dash_def dash_plain esc_no_markup unescape_esc)
qed

lemma scan_end:
  "scan_cells None None (NL # ''      <td class=\"'' @ run_class r @ ''\">'' @ run_label r @ ''</td>'' @ NL # ''    '') = [run_label r]"
proof (cases r)
  case (Some b)
  then show ?thesis by (cases b) simp_all
qed (simp add: dash_def)

lemma row_cells:
  assumes "no_markup x" and "table_row x v = Some r"
  shows "\<exists>cpu mem. to_fixed x (cpu_pct (metrics v)) = Some cpu \<and> to_fixed x (mem_pct (metrics v)) = Some mem \<and>
    cell_texts r = [hostname (info v), ''alive'', cpu, mem, weight_text x (metrics v),
      shown_or_dash (map_option service_name (assigned_service v)), shown_or_dash (map_option image (assigned_service v)),
      run_label (service_running v)]"
proof -
  obtain cpu mem where n: "to_fixed x (cpu_pct (metrics v)) = Some cpu" "to_fixed x (mem_pct (metrics v)) = Some mem"
    and r: "r = cell (esc (hostname (info v))) @ NL # ''      <td class=\"alive\">alive</td>'' @ cell cpu @ cell mem @
      cell (weight_text x (metrics v)) @ cell (svc_cell (map_option service_name (assigned_service v))) @
      cell (svc_cell (map_option image (assigned_service v))) @
      NL # ''      <td class=\"'' @ run_class (service_running v) @ ''\">'' @ run_label (service_running v) @ ''</td>'' @
      NL # ''    ''"
    using assms(2) by (auto simp: table_row_def Let_def split: option.splits)
  have c: "CHR ''<'' \<notin> set cpu" "CHR ''<'' \<notin> set mem" "CHR ''<'' \<notin> set (weight_text x (metrics v))"
    and u: "unescape cpu = cpu" "unescape mem = mem" "unescape (weight_text x (metrics v)) = weight_text x (metrics v)"
    using assms(1) n by (auto simp: no_markup_def plain_def intro: unescape_plain)
  have alive: "scan_cells None None (NL # ''      <td class=\"alive\">alive</td>'' @ s) = ''alive'' # scan_cells None None s" for s
    by simp
  have "cell_texts r = [hostname (info v), ''alive'', cpu, mem, weight_text x (metrics v),
      shown_or_dash (map_option service_name (assigned_service v)), shown_or_dash (map_option image (assigned_service v)),
      run_label (service_running v)]"
    unfolding r cell_texts_def scan_cell [OF esc_no_markup(1)] alive scan_cell [OF c(1)] scan_cell [OF c(2)]
      scan_cell [OF c(3)] scan_svc scan_end unescape_esc u by simp
  with n show ?thesis by blast
qed

text \<open>C39 No volunteer can put markup into the page, and the page shows its row as it is. The tags of the row
  are the same whatever its host name and the name and image of its service are: only whether these
  texts are missing or empty, and the running state, choose among fixed classes. The browser shows eight
  cells: the host name as it is, the word alive, the two loads and the weight in the texts made of them,
  the name and the image of the service as they are, or a dash when there is none or it is empty, and
  the running state. The texts of the numbers have no less-than sign and no ampersand in them.\<close>

theorem dashboard_escapes:
  assumes "no_markup x" and "table_row x v = Some r"
  shows "tags None r =
      [''td'', ''/td'', ''td class=\"alive\"'', ''/td'', ''td'', ''/td'', ''td'', ''/td'', ''td'', ''/td''] @
      svc_tags (map_option service_name (assigned_service v)) @ svc_tags (map_option image (assigned_service v)) @
      [''td class=\"'' @ run_class (service_running v) @ ''\"'', ''/td''] \<and>
    (\<exists>cpu mem. to_fixed x (cpu_pct (metrics v)) = Some cpu \<and> to_fixed x (mem_pct (metrics v)) = Some mem \<and>
      cell_texts r = [hostname (info v), ''alive'', cpu, mem, weight_text x (metrics v),
        shown_or_dash (map_option service_name (assigned_service v)), shown_or_dash (map_option image (assigned_service v)),
        run_label (service_running v)])"
  using row_tags [OF assms] row_cells [OF assms] by blast

definition wit_texts :: texts where
  "wit_texts = \<lparr>to_fixed = (\<lambda>f. case f of Fin r \<Rightarrow> Some ''0.0'' | _ \<Rightarrow> None), weight_text = (\<lambda>_. ''100'')\<rparr>"

definition wit_hostile :: volunteer_state where
  "wit_hostile = wit_volunteer\<lparr>info := (info wit_volunteer)\<lparr>hostname := ''<script>''\<rparr>\<rparr>"

lemma wit_texts_plain: "no_markup wit_texts"
  by (auto simp: no_markup_def plain_def wit_texts_def split: f32.splits)

theorem dashboard_escapes_witness:
  "\<exists>r. table_row wit_texts wit_hostile = Some r \<and> ''script'' \<notin> set (tags None r) \<and>
     cell_texts r = [''<script>'', ''alive'', ''0.0'', ''0.0'', ''100'', dash, dash, dash]"
proof -
  obtain r where r: "table_row wit_texts wit_hostile = Some r"
    by (simp add: table_row_def wit_texts_def wit_hostile_def wit_volunteer_def fresh_volunteer_def)
  have v: "hostname (info wit_hostile) = ''<script>''" "assigned_service wit_hostile = None" "service_running wit_hostile = None"
    "metrics wit_hostile = \<lparr>cpu_pct = Fin 0, mem_pct = Fin 0, load_avg = Fin 0, active_requests = 0\<rparr>"
    by (simp_all add: wit_hostile_def wit_volunteer_def fresh_volunteer_def)
  show ?thesis
    using dashboard_escapes [OF wit_texts_plain r] r unfolding v
    by (auto simp: svc_tags_def shown_or_dash_def wit_texts_def)
qed

text \<open>One volunteer whose load is not a finite number ends the listing: the page shows the volunteers before
  it and an error, and none after it; when all loads are finite, there is one row for each volunteer.\<close>

theorem dashboard_stops_at_bad_load:
  assumes "\<And>f. to_fixed x f = None \<longleftrightarrow> \<not> (\<exists>r. f = Fin r)" and "vols \<noteq> []"
  shows "(if \<forall>v \<in> set vols. (\<exists>r. cpu_pct (metrics v) = Fin r) \<and> (\<exists>r. mem_pct (metrics v) = Fin r)
     then snd (load x vols) \<and> length (fst (load x vols)) = length vols
     else \<not> snd (load x vols) \<and> (\<exists>before v after. vols = before @ v # after \<and>
       \<not> ((\<exists>r. cpu_pct (metrics v) = Fin r) \<and> (\<exists>r. mem_pct (metrics v) = Fin r)) \<and>
       fst (load x vols) = map (\<lambda>u. ''<tr>'' @ the (table_row x u) @ ''</tr>'') before))"
proof -
  let ?ok = "\<lambda>v. (\<exists>r. cpu_pct (metrics v) = Fin r) \<and> (\<exists>r. mem_pct (metrics v) = Fin r)"
  have row: "table_row x v = None \<longleftrightarrow> \<not> ?ok v" for v
    using assms(1) [of "cpu_pct (metrics v)"] assms(1) [of "mem_pct (metrics v)"]
    by (auto simp: table_row_def Let_def split: option.splits)
  have all: "append_rows x vs = (map (\<lambda>u. ''<tr>'' @ the (table_row x u) @ ''</tr>'') vs, True)" if "\<forall>v \<in> set vs. ?ok v" for vs
    using that row by (intro append_rows_all) blast
  have cut: "append_rows x (vs @ v # ws) = (map (\<lambda>u. ''<tr>'' @ the (table_row x u) @ ''</tr>'') vs, False)"
    if "\<forall>v \<in> set vs. ?ok v" "\<not> ?ok v" for vs v ws
    using that(1)
  proof (induction vs)
    case Nil
    then show ?case using row [of v] that(2) by simp
  next
    case (Cons u vs)
    moreover obtain r where "table_row x u = Some r" using row [of u] Cons.prems by (metis list.set_intros(1) not_None_eq)
    ultimately show ?case by simp
  qed
  show ?thesis
  proof (cases "\<forall>v \<in> set vols. ?ok v")
    case True
    then show ?thesis using all [OF True] assms(2) by (simp add: load_def)
  next
    case False
    then have "\<exists>v \<in> set vols. \<not> ?ok v" by blast
    from split_list_first_prop [OF this] obtain vs v ws where
      v: "vols = vs @ v # ws" "\<not> ?ok v" "\<forall>u \<in> set vs. ?ok u" by blast
    have "load x vols = (map (\<lambda>u. ''<tr>'' @ the (table_row x u) @ ''</tr>'') vs, False)"
      using cut [OF v(3,2)] v(1) by (simp add: load_def)
    with False v show ?thesis by (simp only: if_False fst_conv snd_conv) blast
  qed
qed

theorem dashboard_stops_at_bad_load_witness:
  "\<not> snd (load wit_texts [wit_volunteer, wit_volunteer\<lparr>metrics := (metrics wit_volunteer)\<lparr>cpu_pct := Inf False\<rparr>\<rparr>]) \<and>
   snd (load wit_texts [wit_volunteer])"
proof -
  have x: "to_fixed wit_texts f = None \<longleftrightarrow> \<not> (\<exists>r. f = Fin r)" for f
    by (simp add: wit_texts_def split: f32.split)
  have m: "metrics wit_volunteer = \<lparr>cpu_pct = Fin 0, mem_pct = Fin 0, load_avg = Fin 0, active_requests = 0\<rparr>"
    by (simp add: wit_volunteer_def fresh_volunteer_def)
  show ?thesis
    using dashboard_stops_at_bad_load [OF x, of "[wit_volunteer, wit_volunteer\<lparr>metrics := (metrics wit_volunteer)\<lparr>cpu_pct := Inf False\<rparr>\<rparr>]"]
      dashboard_stops_at_bad_load [OF x, of "[wit_volunteer]"]
    by (simp add: m)
qed

end
