(* ===== verification/Dashboard_Weight.thy ===== *)
theory Dashboard_Weight
  imports Registrar_State
begin

text \<open>
  The column Weight of the web page in \<^verbatim>\<open>dashboard.rs\<close>. The script computes it again from the metrics in
  the JSON document, in double precision and rounding to the nearest integer, where the registrar
  computes in single precision and truncates. What \<^verbatim>\<open>serde_json\<close> writes for a single is a parameter;
  its documented behaviour is that the decimal reads back as the same single.
\<close>

subsection \<open>The script's arithmetic\<close>

text \<open>
  IEEE 754 binary64, to nearest, ties to even; nothing the script computes from singles overflows.
  \<^verbatim>\<open>Math.round\<close> rounds half-integers up.
\<close>

definition double_abs :: "rat \<Rightarrow> rat" where
  "double_abs a = (let u = pow2 (ulp_search 53 2045 a (- 1074)) in of_int (round_even (a / u)) * u)"

definition double :: "rat \<Rightarrow> rat" where
  "double x = (if x < 0 then - double_abs \<bar>x\<bar> else double_abs \<bar>x\<bar>)"

definition js_round :: "rat \<Rightarrow> int" where
  "js_round x = \<lfloor>x + 1 / 2\<rfloor>"

text \<open>A number of the document; \<^verbatim>\<open>null\<close>, which stands for one that is not finite, counts as 0.\<close>

fun js_number :: "(rat \<Rightarrow> rat) \<Rightarrow> f32 \<Rightarrow> rat" where
  "js_number decimal (Fin q) = double (decimal q)"
| "js_number decimal _ = 0"

definition script_weight :: "(rat \<Rightarrow> rat) \<Rightarrow> metrics \<Rightarrow> int" where
  "script_weight decimal m =
     (let p = double (double (double (js_number decimal (cpu_pct m) * double (1 / 2)) +
                              double (js_number decimal (mem_pct m) * double (3 / 10))) +
                      of_nat (min (unat (active_requests m)) 20))
      in max 1 (min 100 (js_round (double (100 - p)))))"

text \<open>Every decimal that is written for a single reads back as that single.\<close>

definition reads_back :: "(rat \<Rightarrow> rat) \<Rightarrow> bool" where
  "reads_back decimal \<longleftrightarrow> (\<forall>q. round_f32 q = Fin q \<longrightarrow> round_f32 (decimal q) = Fin q)"

subsection \<open>Errors\<close>

lemma signed_error: "\<bar>(if x < 0 then - r else r) - x\<bar> = \<bar>r - \<bar>x\<bar>\<bar>" for x r :: rat
  by (auto simp: abs_if)

lemma double_abs_error: "0 \<le> a \<Longrightarrow> \<bar>double_abs a - a\<bar> \<le> (a + 1) / 2 ^ 20"
proof -
  assume a: "0 \<le> a"
  from round_error [OF a, of 52 2045 "- 1074"]
  have "\<bar>double_abs a - a\<bar> \<le> a / 2 ^ 53 + pow2 (- 1074) / 2" by (simp add: double_abs_def Let_def)
  moreover have "a / 2 ^ 53 \<le> a / 2 ^ 20" using a by (intro divide_left_mono) simp_all
  moreover have "pow2 (- 1074) \<le> pow2 (- 20)" by (rule pow2_mono) simp
  then have "pow2 (- 1074) / 2 \<le> 1 / 2 ^ 20" by (simp add: pow2_def)
  ultimately show ?thesis by (simp add: add_divide_distrib)
qed

lemma double_close: "\<bar>double x - x\<bar> \<le> (\<bar>x\<bar> + 1) / 2 ^ 20"
  unfolding double_def signed_error by (rule double_abs_error) simp

lemma single_close: "\<bar>x\<bar> \<le> 2 ^ 40 \<Longrightarrow> \<exists>y. round_f32 x = Fin y \<and> \<bar>y - x\<bar> \<le> (\<bar>x\<bar> + 1) / 2 ^ 20"
proof -
  assume "\<bar>x\<bar> \<le> 2 ^ 40"
  from round_f32_close [OF this] obtain y where y: "round_f32 x = Fin y" "\<bar>y - x\<bar> \<le> \<bar>x\<bar> / 2 ^ 24 + 1 / 2 ^ 150" by blast
  moreover have "\<bar>x\<bar> / 2 ^ 24 + 1 / 2 ^ 150 \<le> (\<bar>x\<bar> + 1) / 2 ^ 20" by simp
  ultimately show ?thesis by (intro exI [of _ y]) simp
qed

text \<open>The decimal of a single is close to it.\<close>

lemma decimal_close:
  assumes "reads_back decimal" "round_f32 q = Fin q"
  shows "\<bar>decimal q - q\<bar> \<le> (\<bar>q\<bar> + 1) / 2 ^ 20"
proof -
  let ?d = "decimal q" and ?r = "round_abs \<bar>decimal q\<bar>"
  have "round_f32 ?d = Fin q" using assms by (simp add: reads_back_def)
  then have q: "q = (if ?d < 0 then - ?r else ?r)"
    by (cases rule: round_f32_cases [of ?d]) simp_all
  have "\<bar>?d - q\<bar> = \<bar>?r - \<bar>?d\<bar>\<bar>"
    by (subst q, subst abs_minus_commute) (rule signed_error)
  moreover have "\<bar>?r - \<bar>?d\<bar>\<bar> \<le> \<bar>?d\<bar> / 2 ^ 24 + 1 / 2 ^ 150" by (rule round_abs_error) simp
  moreover have "\<bar>q\<bar> = ?r" using round_abs_nonneg [of "\<bar>?d\<bar>"] by (subst q) simp
  moreover have "\<bar>r - D\<bar> \<le> D / 2 ^ 24 + 1 / 2 ^ 150 \<Longrightarrow> 0 \<le> D \<Longrightarrow> \<bar>r - D\<bar> \<le> (r + 1) / 2 ^ 20" for r D :: rat
    by (auto simp: abs_if split: if_splits)
  ultimately show ?thesis by simp
qed

subsection \<open>Both computations against the exact one\<close>

definition exact_load :: "rat \<Rightarrow> rat \<Rightarrow> u32 \<Rightarrow> rat" where
  "exact_load c d n = c / 2 + 3 / 10 * d + of_nat (min (unat n) 20)"

lemma pressure_near:
  "\<exists>r. f32_min (f32_of_u32 n) (round_f32 20) = Fin r \<and> \<bar>r - of_nat (min (unat n) 20)\<bar> \<le> 21 / 2 ^ 20"
proof (cases "unat n \<le> 20")
  case True
  obtain k where n: "unat n = k" by simp
  with True have k: "(of_nat k :: rat) \<le> 20" "0 \<le> (of_nat k :: rat)" by simp_all
  then obtain y where "round_f32 (of_nat k) = Fin y" "\<bar>y - of_nat k\<bar> \<le> (\<bar>of_nat k\<bar> + 1) / 2 ^ 20"
    using single_close [of "of_nat k"] by auto
  with k True show ?thesis by (auto simp: f32_min_def f32_of_u32_def n min_def abs_if split: if_splits)
next
  case False
  then have "(20 :: rat) \<le> of_nat (unat n)" by (metis linear of_nat_le_iff of_nat_numeral)
  from round_f32_mono [OF this] have "f32_le (Fin 20) (f32_of_u32 n)" by (simp add: f32_of_u32_def)
  then have "f32_min (f32_of_u32 n) (round_f32 20) = Fin 20"
    by (cases "f32_of_u32 n" rule: f32_cases) (auto simp: f32_min_def)
  with False show ?thesis by simp
qed

lemma score_near:
  assumes "cpu_pct m = Fin c" "mem_pct m = Fin d" "0 \<le> c" "c \<le> 4000" "0 \<le> d" "d \<le> 4000"
  shows "\<exists>x. score m = Fin x \<and> \<bar>x - (100 - exact_load c d (active_requests m))\<bar> \<le> 1 / 10"
proof -
  obtain r where r: "f32_min (f32_of_u32 (active_requests m)) (round_f32 20) = Fin r"
    "\<bar>r - of_nat (min (unat (active_requests m)) 20)\<bar> \<le> 21 / 2 ^ 20"
    using pressure_near by blast
  let ?n = "of_nat (min (unat (active_requests m)) 20) :: rat"
  have n: "0 \<le> ?n" "?n \<le> 20" by simp_all
  obtain a where a: "round_f32 (c * (1 / 2)) = Fin a" "\<bar>a - c * (1 / 2)\<bar> \<le> (\<bar>c * (1 / 2)\<bar> + 1) / 2 ^ 20"
    using single_close [of "c * (1 / 2)"] assms by auto
  obtain b where b: "round_f32 (d * (10066330 / 33554432)) = Fin b"
    "\<bar>b - d * (10066330 / 33554432)\<bar> \<le> (\<bar>d * (10066330 / 33554432)\<bar> + 1) / 2 ^ 20"
    using single_close [of "d * (10066330 / 33554432)"] assms by auto
  have ab: "\<bar>a - c / 2\<bar> \<le> 1 / 100" "\<bar>b - 3 / 10 * d\<bar> \<le> 1 / 100" "\<bar>r - ?n\<bar> \<le> 1 / 1000"
    using a(2) b(2) r(2) assms(3-6) by (auto simp: abs_if split: if_splits)
  then have "\<bar>a + b\<bar> \<le> 4000" using assms(3-6) unfolding abs_le_iff by linarith
  moreover from this obtain s where s: "round_f32 (a + b) = Fin s" "\<bar>s - (a + b)\<bar> \<le> (\<bar>a + b\<bar> + 1) / 2 ^ 20"
    using single_close [of "a + b"] by auto
  ultimately have s': "\<bar>s - (a + b)\<bar> \<le> 1 / 100" by (simp add: field_simps)
  then have "\<bar>s + r\<bar> \<le> 5000" using ab assms(3-6) n unfolding abs_le_iff by linarith
  moreover from this obtain p where p: "round_f32 (s + r) = Fin p" "\<bar>p - (s + r)\<bar> \<le> (\<bar>s + r\<bar> + 1) / 2 ^ 20"
    using single_close [of "s + r"] by auto
  ultimately have p': "\<bar>p - (s + r)\<bar> \<le> 1 / 100" by (simp add: field_simps)
  then have "\<bar>100 - p\<bar> \<le> 6000" using s' ab assms(3-6) n unfolding abs_le_iff by linarith
  moreover from this obtain x where x: "round_f32 (100 - p) = Fin x" "\<bar>x - (100 - p)\<bar> \<le> (\<bar>100 - p\<bar> + 1) / 2 ^ 20"
    using single_close [of "100 - p"] by auto
  ultimately have x': "\<bar>x - (100 - p)\<bar> \<le> 1 / 100" by (simp add: field_simps)
  have "score m = Fin x"
    using r(1) a(1) b(1) s(1) p(1) x(1) assms(1,2)
    by (simp add: score_def Let_def f32_sub_def literal_03)
  moreover have "\<bar>x - (100 - exact_load c d (active_requests m))\<bar> \<le> 1 / 10"
    using ab s' p' x' unfolding exact_load_def abs_le_iff by linarith
  ultimately show ?thesis by blast
qed

lemma number_near:
  assumes "reads_back decimal" "round_f32 q = Fin q" "0 \<le> q"
  shows "\<bar>js_number decimal (Fin q) - q\<bar> \<le> (q + 1) / 2 ^ 18"
proof -
  have "\<bar>double t - t\<bar> \<le> (\<bar>t\<bar> + 1) / 2 ^ 20 \<Longrightarrow> \<bar>t - q\<bar> \<le> (\<bar>q\<bar> + 1) / 2 ^ 20 \<Longrightarrow> \<bar>double t - q\<bar> \<le> (q + 1) / 2 ^ 18" for t
    using assms(3) by (auto simp: abs_if split: if_splits)
  then show ?thesis using double_close [of "decimal q"] decimal_close [OF assms(1,2)] by simp
qed

lemma product_near:
  assumes "\<bar>y - q\<bar> \<le> (q + 1) / 2 ^ 18" "0 \<le> q" "\<bar>h - k\<bar> \<le> 2 / 2 ^ 20" "0 \<le> k" "k \<le> 1 / 2"
  shows "\<bar>double (y * h) - q * k\<bar> \<le> (q + 1) / 2 ^ 16"
proof -
  have y: "\<bar>y\<bar> \<le> 2 * q + 1" using assms(1,2) by (auto simp: abs_if split: if_splits)
  have "\<bar>y * h - y * k\<bar> = \<bar>y\<bar> * \<bar>h - k\<bar>" by (simp add: right_diff_distrib [symmetric] abs_mult)
  also have "\<dots> \<le> (2 * q + 1) * (2 / 2 ^ 20)" using y assms(2,3) by (intro mult_mono) simp_all
  finally have 1: "\<bar>y * h - y * k\<bar> \<le> (q + 1) / 2 ^ 18" by simp
  have "\<bar>y * k - q * k\<bar> = \<bar>y - q\<bar> * k" using assms(4) by (simp add: left_diff_distrib [symmetric] abs_mult)
  also have "\<dots> \<le> (q + 1) / 2 ^ 18 * 1" using assms(1,2,4,5) by (intro mult_mono) simp_all
  finally have 2: "\<bar>y * k - q * k\<bar> \<le> (q + 1) / 2 ^ 18" by simp
  have "\<bar>q * k\<bar> \<le> q * 1" using assms(2,4,5) by (simp add: abs_mult mult_left_le)
  with 1 2 assms(2) have 3: "\<bar>y * h\<bar> \<le> 2 * q + 1" by (auto simp: abs_if split: if_splits)
  from double_close [of "y * h"] 3 have "\<bar>double (y * h) - y * h\<bar> \<le> (2 * q + 2) / 2 ^ 20" by simp
  with 1 2 assms(2) show ?thesis by (auto simp: abs_if split: if_splits)
qed

lemma near_trans: "\<bar>t - (a + b)\<bar> \<le> k \<Longrightarrow> \<bar>a - a'\<bar> \<le> e \<Longrightarrow> \<bar>b - b'\<bar> \<le> f \<Longrightarrow> \<bar>t - (a' + b')\<bar> \<le> e + f + k"
  for t a b a' b' e f k :: rat
  by (simp add: abs_le_iff)

lemma near_neg: "\<bar>y - z\<bar> \<le> e \<Longrightarrow> \<bar>- y - - z\<bar> \<le> e" for y z e :: rat
  by (simp add: abs_if split: if_splits)

lemma sum_near:
  assumes "\<bar>a - a'\<bar> \<le> e" "\<bar>b - b'\<bar> \<le> f" "a' + b' \<le> g" "- (a' + b') \<le> g" "e + f \<le> g"
  shows "\<bar>double (a + b) - (a' + b')\<bar> \<le> e + f + (2 * g + 1) / 2 ^ 20"
proof -
  have "\<bar>a + b\<bar> \<le> 2 * g" using assms by (auto simp: abs_if split: if_splits)
  with double_close [of "a + b"] have "\<bar>double (a + b) - (a + b)\<bar> \<le> (2 * g + 1) / 2 ^ 20" by simp
  from near_trans [OF this assms(1,2)] show ?thesis .
qed

lemma script_near:
  assumes "reads_back decimal" "round_f32 c = Fin c" "0 \<le> c" "round_f32 d = Fin d" "0 \<le> d"
  shows "\<bar>double (100 - double (double (double (js_number decimal (Fin c) * double (1 / 2)) +
                              double (js_number decimal (Fin d) * double (3 / 10))) +
                      of_nat (min (unat n) 20))) - (100 - exact_load c d n)\<bar> \<le> (c + d + 200) / 2 ^ 12"
    (is "\<bar>double (100 - double (double (?a + ?b) + ?n)) - _\<bar> \<le> _")
proof -
  have n: "0 \<le> ?n" "?n \<le> 20" by simp_all
  have "\<bar>double (1 / 2) - 1 / 2\<bar> \<le> 2 / 2 ^ 20" "\<bar>double (3 / 10) - 3 / 10\<bar> \<le> 2 / 2 ^ 20"
    using double_close [of "1 / 2"] double_close [of "3 / 10"] by simp_all
  then have a: "\<bar>?a - c * (1 / 2)\<bar> \<le> (c + 1) / 2 ^ 16" and b: "\<bar>?b - d * (3 / 10)\<bar> \<le> (d + 1) / 2 ^ 16"
    using product_near [OF number_near [OF assms(1,2,3)] assms(3), of "double (1 / 2)" "1 / 2"]
      product_near [OF number_near [OF assms(1,4,5)] assms(5), of "double (3 / 10)" "3 / 10"] by simp_all
  have "\<bar>double (?a + ?b) - (c * (1 / 2) + d * (3 / 10))\<bar> \<le> (c + 1) / 2 ^ 16 + (d + 1) / 2 ^ 16 + (2 * (c + d + 1) + 1) / 2 ^ 20"
    by (rule sum_near [OF a b]; use assms(3,5) in \<open>simp add: field_simps\<close>)
  then have s: "\<bar>double (?a + ?b) - (c * (1 / 2) + d * (3 / 10))\<bar> \<le> (c + d + 4) / 2 ^ 15"
    by (rule order_trans) (use assms(3,5) in \<open>simp add: field_simps\<close>)
  have "\<bar>double (double (?a + ?b) + ?n) - ((c * (1 / 2) + d * (3 / 10)) + ?n)\<bar> \<le>
      (c + d + 4) / 2 ^ 15 + 0 + (2 * (c + d + 40) + 1) / 2 ^ 20"
    by (rule sum_near [OF s]; use assms(3,5) n in \<open>simp add: field_simps\<close>)
  then have "\<bar>double (double (?a + ?b) + ?n) - ((c * (1 / 2) + d * (3 / 10)) + ?n)\<bar> \<le> (c + d + 10) / 2 ^ 14"
    by (rule order_trans) (use assms(3,5) in \<open>simp add: field_simps\<close>)
  then have p: "\<bar>- double (double (?a + ?b) + ?n) - (- ((c * (1 / 2) + d * (3 / 10)) + ?n))\<bar> \<le> (c + d + 10) / 2 ^ 14"
    by (rule near_neg)
  have "\<bar>double (100 + - double (double (?a + ?b) + ?n)) - (100 + - ((c * (1 / 2) + d * (3 / 10)) + ?n))\<bar> \<le>
      0 + (c + d + 10) / 2 ^ 14 + (2 * (c + d + 130) + 1) / 2 ^ 20"
    by (rule sum_near [OF _ p, where e = 0 and a = 100 and a' = 100]; use assms(3,5) n in \<open>simp add: field_simps\<close>)
  then have "\<bar>double (100 - double (double (?a + ?b) + ?n)) - (100 - exact_load c d n)\<bar> \<le>
      (c + d + 10) / 2 ^ 14 + (2 * (c + d + 130) + 1) / 2 ^ 20"
    by (simp add: exact_load_def algebra_simps)
  also have "\<dots> \<le> (c + d + 200) / 2 ^ 12" using assms(3,5) by (simp add: field_simps)
  finally show ?thesis .
qed

subsection \<open>Property\<close>

lemma weight_of_finite:
  assumes "score m = Fin x"
  shows "int (unat (weight m)) = max 1 (min 100 \<lfloor>x\<rfloor>)"
proof -
  have c: "f32_clamp (Fin x) (Fin 1) (Fin 100) = Fin (max 1 (min 100 x))"
    by (auto simp: f32_clamp_def Let_def)
  have "0 \<le> max 1 (min 100 x)" "max 1 (min 100 x) < 2 ^ 32" by simp_all
  from as_u32_small [OF this] have "unat (weight m) = nat \<lfloor>max 1 (min 100 x)\<rfloor>"
    by (simp add: weight_def assms c del: as_u32.simps)
  moreover have "\<lfloor>max 1 (min 100 x)\<rfloor> = max 1 (min 100 \<lfloor>x\<rfloor>)"
    by (auto simp: max_def min_def le_floor_iff floor_less_iff)
  ultimately show ?thesis by simp
qed

lemma js_round_near: "\<bar>x - y\<bar> < 1 / 2 \<Longrightarrow> js_round y = \<lfloor>x\<rfloor> \<or> js_round y = \<lfloor>x\<rfloor> + 1"
proof -
  assume "\<bar>x - y\<bar> < 1 / 2"
  then have "of_int \<lfloor>x\<rfloor> \<le> y + 1 / 2" "y + 1 / 2 < of_int \<lfloor>x\<rfloor> + 2" by linarith+
  then have "\<lfloor>x\<rfloor> \<le> js_round y" "js_round y < \<lfloor>x\<rfloor> + 2"
    by (simp_all add: js_round_def le_floor_iff floor_less_iff)
  then show ?thesis by linarith
qed

lemma single_valid:
  assumes "round_f32 q = Fin q"
  shows "valid_f32 (Fin q)"
proof (cases rule: round_f32_cases [of q])
  case 2
  with assms round_abs_nonneg [of "\<bar>q\<bar>"] have "\<bar>q\<bar> = round_abs \<bar>q\<bar>" by (auto split: if_splits)
  with 2(1) show ?thesis by (simp add: valid_f32_def)
qed (use assms in simp)

lemma clamp_next: "j = f \<or> j = f + 1 \<Longrightarrow> max 1 (min 100 j) = max 1 (min 100 f) \<or> max 1 (min 100 j) = max 1 (min 100 f) + 1"
  for j f :: int
  by auto

lemma exact_load_bounds: "0 \<le> c \<Longrightarrow> 0 \<le> d \<Longrightarrow> c / 2 + 3 / 10 * d \<le> exact_load c d n"
  by (simp add: exact_load_def)

text \<open>Under a load beyond the scale both weights are 1.\<close>

lemma heavy_weight:
  assumes "cpu_pct m = Fin c" "mem_pct m = Fin d" "round_f32 c = Fin c" "round_f32 d = Fin d" "0 \<le> c" "0 \<le> d"
    and "400 < c \<or> 400 < d"
  shows "unat (weight m) = 1"
proof -
  let ?m = "m\<lparr>cpu_pct := Fin (min c 4000), mem_pct := Fin (min d 4000)\<rparr>"
  obtain x where x: "score ?m = Fin x" "\<bar>x - (100 - exact_load (min c 4000) (min d 4000) (active_requests m))\<bar> \<le> 1 / 10"
    using score_near [of ?m "min c 4000" "min d 4000"] assms(5,6) by auto
  have "120 \<le> min c 4000 / 2 + 3 / 10 * min d 4000" using assms(5-7) by (auto simp: min_def)
  with exact_load_bounds [of "min c 4000" "min d 4000" "active_requests m"] assms(5,6)
  have "120 \<le> exact_load (min c 4000) (min d 4000) (active_requests m)" by simp
  with x(2) have "x \<le> 0" unfolding abs_le_iff by linarith
  then have "\<lfloor>x\<rfloor> \<le> 0" by (simp add: floor_le_iff)
  then have "int (unat (weight ?m)) = 1" unfolding weight_of_finite [OF x(1)] by simp
  then have one: "unat (weight ?m) = 1" by (simp only: of_nat_eq_1_iff)
  have nn: "score m \<noteq> NaN"
    using load_finite [of m] single_valid [OF assms(3)] single_valid [OF assms(4)] assms(1,2) by simp
  then have "f32_le (score m) (score ?m)"
    by (intro score_antitone) (use assms(1,2) x(1) in auto)
  from weight_score_mono [OF this] have "unat (weight m) \<le> unat (weight ?m)" by (simp add: word_le_nat_alt)
  with one weight_of_score(1) [OF nn] show ?thesis by linarith
qed

text \<open>The page shows the weight that HAProxy was given or one more: double against single precision,
  the text of the JSON document in between and rounding against truncation together never make a greater
  difference, for any load that is not negative, and never a smaller number than the weight in use.\<close>

lemma script_weight_close:
  assumes "reads_back decimal" "cpu_pct m = Fin c" "mem_pct m = Fin d"
    and "round_f32 c = Fin c" "0 \<le> c" "round_f32 d = Fin d" "0 \<le> d"
  shows "script_weight decimal m = int (unat (weight m)) \<or> script_weight decimal m = int (unat (weight m)) + 1"
proof -
  let ?e = "100 - exact_load c d (active_requests m)"
  obtain y where sw: "script_weight decimal m = max 1 (min 100 (js_round y))" and y: "\<bar>y - ?e\<bar> \<le> (c + d + 200) / 2 ^ 12"
    using script_near [OF assms(1,4-7), of "active_requests m"] assms(2,3) by (simp add: script_weight_def Let_def)
  show ?thesis
  proof (cases "c \<le> 400 \<and> d \<le> 400")
    case True
    then obtain x where x: "score m = Fin x" "\<bar>x - ?e\<bar> \<le> 1 / 10" using score_near [OF assms(2,3)] assms(5,7) by auto
    have "(c + d + 200) / 2 ^ 12 \<le> 1 / 4" using True by (simp add: field_simps)
    with x(2) y have "\<bar>x - y\<bar> < 1 / 2" unfolding abs_le_iff abs_less_iff by linarith
    from clamp_next [OF js_round_near [OF this]] show ?thesis unfolding sw weight_of_finite [OF x(1)] .
  next
    case False
    moreover have "y - ?e \<le> (c + d + 200) / 2 ^ 12" using y unfolding abs_le_iff by blast
    ultimately have "y \<le> 0"
      using exact_load_bounds [OF assms(5,7), of "active_requests m"] assms(5,7) by (auto simp: field_simps)
    then have "js_round y \<le> 1" by (simp add: js_round_def floor_le_iff)
    with sw have "script_weight decimal m = 1" by simp
    moreover have "unat (weight m) = 1" using heavy_weight [OF assms(2,3,4,6,5,7)] False by auto
    ultimately show ?thesis by (simp del: of_nat_unat)
  qed
qed

text \<open>It does show one more: an idle node that reports a load of 9/16 of a percent weighs 99, and the page says 100.\<close>

theorem page_shows_one_more:
  assumes "reads_back decimal" "m = \<lparr>cpu_pct = Fin (9 / 16), mem_pct = Fin 0, load_avg = l, active_requests = 0\<rparr>"
  shows "int (unat (weight m)) = 99 \<and> script_weight decimal m = 100"
proof -
  have r: "round_f32 (9 / 16) = Fin (9 / 16)" "round_f32 0 = Fin 0"
    using round_lit [of "9 * 2 ^ 20" "- 24" "9 / 16"] by (simp_all add: pow2_def round_f32_def)
  have e: "exact_load (9 / 16) 0 0 = 9 / 32" by (simp add: exact_load_def)
  obtain y where sw: "script_weight decimal m = max 1 (min 100 (js_round y))" and "\<bar>y - (100 - 9 / 32)\<bar> \<le> (9 / 16 + 0 + 200) / 2 ^ 12"
    using script_near [OF assms(1) r(1) _ r(2), of 0] e by (simp add: assms(2) script_weight_def Let_def)
  then have "100 \<le> y + 1 / 2" "y + 1 / 2 < 101" by (auto simp: abs_if split: if_splits)
  then have "js_round y = 100" unfolding js_round_def by (simp add: floor_eq_iff)
  moreover obtain x where x: "score m = Fin x" "\<bar>x - (100 - 9 / 32)\<bar> \<le> 1 / 10"
    using score_near [of m "9 / 16" 0] e by (auto simp: assms(2))
  then have "99 \<le> x" "x < 100" by (auto simp: abs_if split: if_splits)
  then have "\<lfloor>x\<rfloor> = 99" by (simp add: floor_eq_iff)
  ultimately show ?thesis using sw weight_of_finite [OF x(1)] by simp
qed

end
