(* ===== verification/Dashboard_Page.thy ===== *)
theory Dashboard_Page
  imports Dashboard Dashboard_Weight Registrar_Json
begin

text \<open>
  The web page of \<^verbatim>\<open>dashboard.rs\<close> as a whole: its static part, the script reading the JSON document of
  \<^verbatim>\<open>GET /volunteers\<close> by the names of its members, and what the page shows in the end. The text that
  \<^verbatim>\<open>toFixed(1)\<close> makes of a number is a parameter, and so are the clock and the messages of exceptions.
\<close>

subsection \<open>The page\<close>

text \<open>Everything before the script.\<close>

definition PAGE :: "string list" where
  "PAGE = [
     ''<!DOCTYPE html>'',
     ''<html lang=\"en\">'',
     ''<head>'',
     ''<meta charset=\"UTF-8\">'',
     ''<meta http-equiv=\"refresh\" content=\"10\">'',
     ''<title>OpenShard Dashboard</title>'',
     ''<style>'',
     ''  body { font-family: monospace; background: #111; color: #ddd; padding: 1rem; }'',
     ''  h1 { color: #7cf; margin-bottom: 0.25rem; }'',
     ''  .ts { color: #888; font-size: 0.85em; margin-bottom: 1rem; }'',
     ''  table { border-collapse: collapse; width: 100%; }'',
     ''  th { background: #222; color: #adf; text-align: left; padding: 6px 10px; border-bottom: 1px solid #444; }'',
     ''  td { padding: 5px 10px; border-bottom: 1px solid #2a2a2a; vertical-align: top; }'',
     ''  tr:hover td { background: #1a1a1a; }'',
     ''  .alive { color: #5f5; }'',
     ''  .dead  { color: #f55; }'',
     ''  .svc   { color: #fa5; }'',
     ''  .none  { color: #666; font-style: italic; }'',
     ''  .running    { color: #5f5; }'',
     ''  .notrunning { color: #f55; }'',
     ''  .unknown    { color: #888; }'',
     ''</style>'',
     ''</head>'',
     ''<body>'',
     ''<h1>OpenShard Volunteers</h1>'',
     ''<div class=\"ts\" id=\"ts\">Loading...</div>'',
     ''<table id=\"tbl\">'',
     ''<thead>'',
     ''<tr>'',
     ''  <th>Hostname</th>'',
     ''  <th>Status</th>'',
     ''  <th>CPU %</th>'',
     ''  <th>Mem %</th>'',
     ''  <th>Weight</th>'',
     ''  <th>Assigned Service</th>'',
     ''  <th>Image</th>'',
     ''  <th>Running</th>'',
     ''</tr>'',
     ''</thead>'',
     ''<tbody id=\"body\"></tbody>'',
     ''</table>'']"

text \<open>What the script changes of the page: the line under the title and the rows of the table.\<close>

record document =
  stamp :: string
  rows :: "string list"

definition initial_page :: document where
  "initial_page = \<lparr>stamp = ''Loading...'', rows = []\<rparr>"

subsection \<open>The script on the document\<close>

text \<open>
  The member of an object; of two with one name \<^verbatim>\<open>JSON.parse\<close> keeps the last. \<open>None\<close> is \<^verbatim>\<open>undefined\<close>, or an
  exception for a value that has no members; every use the script makes of it is an exception or false.
\<close>

fun js_member :: "string \<Rightarrow> json option \<Rightarrow> json option" where
  "js_member n (Some (J_object ms)) = map_of (rev ms) n"
| "js_member n _ = None"

fun truthy :: "json option \<Rightarrow> bool" where
  "truthy None = False"
| "truthy (Some J_null) = False"
| "truthy (Some (J_bool b)) = b"
| "truthy (Some (J_int i)) = (i \<noteq> 0)"
| "truthy (Some (J_float q)) = (q \<noteq> 0)"
| "truthy (Some (J_string t)) = (t \<noteq> [])"
| "truthy (Some _) = True"

text \<open>
  Strings are escaped and numbers formatted; other values throw. The integers of the document have at most
  32 bits and are exact in double precision.
\<close>

fun esc_value :: "json option \<Rightarrow> string option" where
  "esc_value (Some (J_string t)) = Some (esc t)"
| "esc_value _ = None"

fun fixed_value :: "(rat \<Rightarrow> string) \<Rightarrow> json option \<Rightarrow> string option" where
  "fixed_value fixed (Some (J_int i)) = Some (fixed (of_int i))"
| "fixed_value fixed (Some (J_float q)) = Some (fixed (double q))"
| "fixed_value fixed _ = None"

text \<open>A value in an arithmetic expression: \<^verbatim>\<open>null\<close> counts as 0. Other values do not occur here.\<close>

fun number_value :: "json option \<Rightarrow> rat option" where
  "number_value (Some (J_int i)) = Some (of_int i)"
| "number_value (Some (J_float q)) = Some (double q)"
| "number_value (Some J_null) = Some 0"
| "number_value _ = None"

definition weight_value :: "json option \<Rightarrow> string" where
  "weight_value m =
     (case (number_value (js_member ''cpu_pct'' m), number_value (js_member ''mem_pct'' m), number_value (js_member ''active_requests'' m)) of
        (Some c, Some d, Some n) \<Rightarrow>
          (let p = double (double (double (c * double (1 / 2)) + double (d * double (3 / 10))) + min n 20)
           in show_nat (nat (max 1 (min 100 (js_round (double (100 - p)))))))
      | _ \<Rightarrow> ''NaN'')"

definition svc_value :: "json option \<Rightarrow> string option" where
  "svc_value t = (if truthy t then map_option (\<lambda>u. ''<span class=\"svc\">'' @ u @ ''</span>'') (esc_value t)
     else Some (''<span class=\"none\">'' @ dash @ ''</span>''))"

fun flag_value :: "json option \<Rightarrow> bool option" where
  "flag_value (Some (J_bool b)) = Some b"
| "flag_value _ = None"

definition script_row :: "(rat \<Rightarrow> string) \<Rightarrow> json \<Rightarrow> string option" where
  "script_row fixed v =
     (let svc = js_member ''assigned_service'' (Some v);
          name = (if truthy svc then js_member ''service_name'' svc else Some J_null);
          image = (if truthy svc then js_member ''image'' svc else Some J_null);
          flag = flag_value (js_member ''service_running'' (Some v));
          m = js_member ''metrics'' (Some v)
      in do {
        host \<leftarrow> esc_value (js_member ''hostname'' (js_member ''info'' (Some v)));
        cpu \<leftarrow> fixed_value fixed (js_member ''cpu_pct'' m);
        mem \<leftarrow> fixed_value fixed (js_member ''mem_pct'' m);
        svc_cell1 \<leftarrow> svc_value name;
        svc_cell2 \<leftarrow> svc_value image;
        Some (cell host @ NL # ''      <td class=\"alive\">alive</td>'' @ cell cpu @ cell mem @ cell (weight_value m) @
          cell svc_cell1 @ cell svc_cell2 @
          NL # ''      <td class=\"'' @ run_class flag @ ''\">'' @ run_label flag @ ''</td>'' @ NL # ''    '') })"

fun script_rows :: "(rat \<Rightarrow> string) \<Rightarrow> json list \<Rightarrow> string list \<times> bool" where
  "script_rows fixed [] = ([], True)"
| "script_rows fixed (v # vs) =
     (case script_row fixed v of
        None \<Rightarrow> ([], False)
      | Some r \<Rightarrow> (case script_rows fixed vs of (rs, ok) \<Rightarrow> ((''<tr>'' @ r @ ''</tr>'') # rs, ok)))"

text \<open>
  \<^verbatim>\<open>load\<close> and the handler of its exceptions, on the answer of \<^verbatim>\<open>fetch\<close>: a failure or the JSON value, an
  array. An exception leaves the rows written so far.
\<close>

definition failed :: "string \<Rightarrow> string list \<Rightarrow> document" where
  "failed message rs = \<lparr>stamp = ''Error: '' @ message, rows = rs\<rparr>"

definition load_page :: "(rat \<Rightarrow> string) \<Rightarrow> string \<Rightarrow> string \<Rightarrow> string + json \<Rightarrow> document" where
  "load_page fixed clock thrown fetched =
     (case fetched of
        Inl message \<Rightarrow> failed message (rows initial_page)
      | Inr (J_array vols) \<Rightarrow>
          (let updated = ''Last updated: '' @ clock @ '' '' @ dash @ '' '' @ show_nat (length vols) @ '' volunteer(s)''
           in if vols = [] then
                \<lparr>stamp = updated, rows = [''<tr><td colspan=\"8\" class=\"none\">No volunteers enrolled</td></tr>'']\<rparr>
              else case script_rows fixed vols of
                     (rs, True) \<Rightarrow> \<lparr>stamp = updated, rows = rs\<rparr>
                   | (rs, False) \<Rightarrow> failed thrown rs)
      | Inr _ \<Rightarrow> failed thrown (rows initial_page))"

subsection \<open>The rows\<close>

text \<open>The numbers of the page, for the rows as a function of the volunteers.\<close>

definition script_texts :: "json_lib \<Rightarrow> (rat \<Rightarrow> string) \<Rightarrow> texts" where
  "script_texts l fixed = \<lparr>to_fixed = (\<lambda>f. case f of Fin q \<Rightarrow> Some (fixed (double (decimal_of l q))) | _ \<Rightarrow> None),
     weight_text = (\<lambda>m. show_nat (nat (script_weight (decimal_of l) m)))\<rparr>"

lemma member_volunteer:
  "js_member ''info'' (Some (volunteer_json k l v)) = Some (J_object (info_members (info v)))"
  "js_member ''metrics'' (Some (volunteer_json k l v)) = Some (metrics_json l (metrics v))"
  "js_member ''assigned_service'' (Some (volunteer_json k l v)) = Some (option_json (assignment_json l) (assigned_service v))"
  "js_member ''service_running'' (Some (volunteer_json k l v)) = Some (option_json J_bool (service_running v))"
  "js_member ''hostname'' (Some (J_object (info_members i))) = Some (J_string (hostname i))"
  "js_member ''cpu_pct'' (Some (metrics_json l m)) = Some (single_json l (cpu_pct m))"
  "js_member ''mem_pct'' (Some (metrics_json l m)) = Some (single_json l (mem_pct m))"
  "js_member ''active_requests'' (Some (metrics_json l m)) = Some (word_json (active_requests m))"
  "js_member ''service_name'' (Some (assignment_json l a)) = Some (J_string (service_name a))"
  "js_member ''image'' (Some (assignment_json l a)) = Some (J_string (image a))"
  by (simp_all add: volunteer_json_def info_members_def metrics_json_def assignment_json_def)

lemma js_values:
  "fixed_value fixed (Some (single_json l f)) = (case f of Fin q \<Rightarrow> Some (fixed (double (decimal_of l q))) | _ \<Rightarrow> None)"
  "number_value (Some (single_json l f)) = Some (js_number (decimal_of l) f)"
  "number_value (Some (word_json n)) = Some (of_nat (unat n))"
  "flag_value (Some (option_json J_bool b)) = b"
  "svc_value (Some (J_string t)) = Some (svc_cell (Some t))"
  "svc_value (Some J_null) = Some (svc_cell None)"
  by (simp_all add: single_json_def word_json_def option_json_def svc_value_def svc_cell_def split: f32.split option.split)

lemma weight_value_metrics: "weight_value (Some (metrics_json l m)) = show_nat (nat (script_weight (decimal_of l) m))"
  by (simp add: weight_value_def member_volunteer js_values script_weight_def Let_def of_nat_min)

lemma script_row_volunteer: "script_row fixed (volunteer_json k l v) = table_row (script_texts l fixed) v"
proof -
  have t: "truthy (Some (assignment_json l a))" for a by (simp add: assignment_json_def)
  have svc: "svc_value (if truthy (Some (option_json (assignment_json l) a))
      then js_member n (Some (option_json (assignment_json l) a)) else Some J_null) = Some (svc_cell (map_option f a))"
    if "\<And>b. js_member n (Some (assignment_json l b)) = Some (J_string (f b))" for a n f
    using that by (cases a) (simp_all add: t js_values option_json_def)
  show ?thesis
    unfolding script_row_def table_row_def Let_def member_volunteer weight_value_metrics
      svc [of "''service_name''" service_name, OF member_volunteer(9)] svc [of "''image''" image, OF member_volunteer(10)]
    by (simp add: js_values script_texts_def del: append.simps split: f32.split)
qed

lemma script_rows_volunteers: "script_rows fixed (map (volunteer_json k l) vs) = append_rows (script_texts l fixed) vs"
  by (induction vs) (simp_all add: script_row_volunteer split: option.split)

subsection \<open>What the page shows\<close>

definition page_text :: string where
  "page_text = concat (map (\<lambda>x. x @ [NL]) PAGE)"

definition columns :: "string list \<Rightarrow> nat" where
  "columns ts = length (filter (\<lambda>t. prefix ''td'' t \<or> t = ''th'') ts)"

text \<open>No tag of the page goes over a line.\<close>

definition unbroken :: "string \<Rightarrow> bool" where
  "unbroken x \<longleftrightarrow> (\<forall>s. tags None (x @ s) = tags None x @ tags None s)"

lemma tags_lines: "list_all unbroken xs \<Longrightarrow> tags None (concat (map (\<lambda>x. x @ [NL]) xs)) = concat (map (tags None) xs)"
  by (induction xs) (auto simp: unbroken_def)

lemma page_columns: "columns (tags None page_text) = 8"
proof -
  have "list_all unbroken PAGE" by (simp add: PAGE_def unbroken_def)
  then have "tags None page_text = concat (map (tags None) PAGE)" unfolding page_text_def by (rule tags_lines)
  then show ?thesis by (simp add: PAGE_def columns_def)
qed

lemma placeholder_columns: "tags None ''<tr><td colspan=\"8\" class=\"none\">No volunteers enrolled</td></tr>'' =
    [''tr'', ''td colspan=\"8\" class=\"none\"'', ''/td'', ''/tr'']"
  by simp

lemma show_nat_plain: "plain (show_nat n)"
  using show_nat_digits [of n] by (auto simp: plain_def list_all_iff is_digit_def)

lemma script_texts_plain: "(\<And>q. plain (fixed q)) \<Longrightarrow> no_markup (script_texts l fixed)"
  by (auto simp: no_markup_def script_texts_def show_nat_plain split: f32.splits)

lemma row_columns:
  assumes "no_markup x" "table_row x v = Some r"
  shows "columns (tags None r) = 8"
  unfolding row_tags [OF assms] by (simp add: columns_def svc_tags_def)

lemma load_page_volunteers:
  assumes "\<forall>v \<in> set vs. table_row (script_texts l fixed) v \<noteq> None"
  shows "load_page fixed clock thrown (Inr (J_array (map (volunteer_json k l) vs))) =
    \<lparr>stamp = ''Last updated: '' @ clock @ '' '' @ dash @ '' '' @ show_nat (length vs) @ '' volunteer(s)'',
     rows = fst (load (script_texts l fixed) vs)\<rparr>"
  using append_rows_all [OF assms] by (simp add: load_page_def script_rows_volunteers load_def Let_def del: append.simps)

text \<open>What a row shows; the weight in it is that of the registrar or one more.\<close>

definition row_of :: "json_lib \<Rightarrow> (rat \<Rightarrow> string) \<Rightarrow> volunteer_state \<Rightarrow> string list \<Rightarrow> bool" where
  "row_of l fixed v cells \<longleftrightarrow> (\<exists>c d n. cpu_pct (metrics v) = Fin c \<and> mem_pct (metrics v) = Fin d \<and>
     (n = unat (weight (metrics v)) \<or> n = unat (weight (metrics v)) + 1) \<and>
     cells = [hostname (info v), ''alive'', fixed (double (decimal_of l c)), fixed (double (decimal_of l d)), show_nat n,
       shown_or_dash (map_option service_name (assigned_service v)), shown_or_dash (map_option image (assigned_service v)),
       run_label (service_running v)])"

lemma row_shown:
  assumes "no_markup (script_texts l fixed)" and "reads_back (decimal_of l)"
    and "\<exists>c d. cpu_pct (metrics v) = Fin c \<and> mem_pct (metrics v) = Fin d \<and>
      round_f32 c = Fin c \<and> round_f32 d = Fin d \<and> 0 \<le> c \<and> 0 \<le> d"
    and "table_row (script_texts l fixed) v = Some r"
  shows "row_of l fixed v (cell_texts r)"
proof -
  obtain c d where m: "cpu_pct (metrics v) = Fin c" "mem_pct (metrics v) = Fin d"
    "round_f32 c = Fin c" "round_f32 d = Fin d" "0 \<le> c" "0 \<le> d" using assms(3) by blast
  let ?n = "nat (script_weight (decimal_of l) (metrics v))"
  have n: "?n = unat (weight (metrics v)) \<or> ?n = unat (weight (metrics v)) + 1"
    using script_weight_close [OF assms(2) m(1,2,3,5,4,6)] by linarith
  have "weight_text (script_texts l fixed) (metrics v) = show_nat ?n"
    "\<And>q. to_fixed (script_texts l fixed) (Fin q) = Some (fixed (double (decimal_of l q)))" by (simp_all add: script_texts_def)
  with row_cells [OF assms(1,4)] m(1,2) n show ?thesis unfolding row_of_def by (intro exI [of _ c] exI [of _ d] exI [of _ ?n]) auto
qed

text \<open>C30 The page shows the live volunteers, and all of them, when all their loads are finite and not
  negative: asked for the list, the registrar answers with a document from which the script writes one
  row for each volunteer that is alive, best weight first as in the registrar, with the number of them
  above, or the one row that says that there is none. Each row has a cell for each of the eight headings
  of the table, and the browser shows in them the host name, the word alive, the two loads, the
  registrar's weight of the stored metrics or one more (double against single precision and rounding
  against truncation never make a greater difference; after a restart HAProxy may still have the weight
  it was started with), the name and the image of the service or dashes, and the running state. The
  decimals of the document are assumed to read back as the loads they were written for.\<close>

theorem page_lists_live_volunteers:
  assumes "hq_method q = ''GET''" and "hq_path q = ''/volunteers''"
    and "body_json k l (snd (fst (serve_http w oc q s))) = Some j"
    and "vs = active_volunteers (o_now oc) (volunteers s)"
    and "\<And>y. plain (fixed y)" and "reads_back (decimal_of l)"
    and "\<And>v. v \<in> set vs \<Longrightarrow> \<exists>c d. cpu_pct (metrics v) = Fin c \<and> mem_pct (metrics v) = Fin d \<and>
      round_f32 c = Fin c \<and> round_f32 d = Fin d \<and> 0 \<le> c \<and> 0 \<le> d"
    and "page = load_page fixed clock thrown (Inr j)"
  shows "stamp page = ''Last updated: '' @ clock @ '' '' @ dash @ '' '' @ show_nat (length vs) @ '' volunteer(s)'' \<and>
    (if vs = [] then rows page = [''<tr><td colspan=\"8\" class=\"none\">No volunteers enrolled</td></tr>'']
     else length (rows page) = length vs) \<and>
    (\<forall>i < length vs. \<exists>r. rows page ! i = ''<tr>'' @ r @ ''</tr>'' \<and>
      columns (tags None r) = columns (tags None page_text) \<and> row_of l fixed (vs ! i) (cell_texts r))"
proof -
  let ?x = "script_texts l fixed"
  have plain: "no_markup ?x" by (rule script_texts_plain [OF assms(5)])
  have row: "\<exists>r. table_row ?x v = Some r" if "v \<in> set vs" for v
    using assms(7) [OF that] by (auto simp: table_row_def script_texts_def Let_def)
  have j: "j = J_array (map (volunteer_json k l) vs)"
    using assms(3) by (simp add: serve_http_def assms(1,2,4) route_plain serves_meth list_volunteers_def split_beta)
  have page: "page = \<lparr>stamp = ''Last updated: '' @ clock @ '' '' @ dash @ '' '' @ show_nat (length vs) @ '' volunteer(s)'',
      rows = fst (load ?x vs)\<rparr>"
    unfolding assms(8) j by (rule load_page_volunteers) (use row in auto)
  have load: "vs \<noteq> [] \<Longrightarrow> fst (load ?x vs) = map (\<lambda>u. ''<tr>'' @ the (table_row ?x u) @ ''</tr>'') vs"
    using append_rows_all [of vs ?x] row by (auto simp: load_def)
  have one: "\<exists>r. rows page ! i = ''<tr>'' @ r @ ''</tr>'' \<and> columns (tags None r) = columns (tags None page_text) \<and>
      row_of l fixed (vs ! i) (cell_texts r)" if i: "i < length vs" for i
  proof -
    have v: "vs ! i \<in> set vs" using i by simp
    obtain r where r: "table_row ?x (vs ! i) = Some r" using row [OF v] by blast
    moreover have "rows page ! i = ''<tr>'' @ r @ ''</tr>''" using load i r by (cases "vs = []") (simp_all add: page)
    ultimately show ?thesis
      using row_columns [OF plain r] page_columns row_shown [OF plain assms(6) assms(7) [OF v] r] by metis
  qed
  have "if vs = [] then rows page = [''<tr><td colspan=\"8\" class=\"none\">No volunteers enrolled</td></tr>'']
      else length (rows page) = length vs"
    using load by (simp add: page load_def)
  with one page show ?thesis by simp
qed

theorem page_lists_live_volunteers_witness:
  "\<exists>r n. rows (load_page (\<lambda>_. ''0.0'') ''now'' [] (Inr (J_array [volunteer_json wit wit_lib wit_volunteer]))) ! 0 =
     ''<tr>'' @ r @ ''</tr>'' \<and> cell_texts r = [''a'', ''alive'', ''0.0'', ''0.0'', show_nat n, dash, dash, dash] \<and>
     n \<in> {unat (weight (metrics wit_volunteer)), unat (weight (metrics wit_volunteer)) + 1}"
proof -
  have a: "active_volunteers 0 (volunteers wit_node) = [wit_volunteer]"
    by (simp add: active_volunteers_def wit_node_map hm_values_def wit_volunteer_alive)
  have b: "body_json wit wit_lib (snd (fst (serve_http wit_web wit_occasion (wit_request ''GET'' ''/volunteers'') wit_node))) =
      Some (J_array [volunteer_json wit wit_lib wit_volunteer])"
    by (simp add: serve_http_def route_plain serves_meth list_volunteers_def wit_request_def wit_occasion_def a)
  have m: "\<exists>c d. cpu_pct (metrics wit_volunteer) = Fin c \<and> mem_pct (metrics wit_volunteer) = Fin d \<and>
      round_f32 c = Fin c \<and> round_f32 d = Fin d \<and> 0 \<le> c \<and> 0 \<le> d"
    by (simp add: wit_volunteer_def fresh_volunteer_def round_f32_def)
  have d: "reads_back (decimal_of wit_lib)" by (simp add: reads_back_def wit_lib_def)
  have v: "hostname (info wit_volunteer) = ''a''" "assigned_service wit_volunteer = None" "service_running wit_volunteer = None"
    by (simp_all add: wit_volunteer_def fresh_volunteer_def wit_req_def)
  let ?page = "load_page (\<lambda>_. ''0.0'') ''now'' [] (Inr (J_array [volunteer_json wit wit_lib wit_volunteer]))"
  have "\<forall>i < length [wit_volunteer]. \<exists>r. rows ?page ! i = ''<tr>'' @ r @ ''</tr>'' \<and>
      columns (tags None r) = columns (tags None page_text) \<and> row_of wit_lib (\<lambda>_. ''0.0'') ([wit_volunteer] ! i) (cell_texts r)"
    by (rule page_lists_live_volunteers [OF _ _ b _ _ d _ refl, THEN conjunct2, THEN conjunct2])
      (use m in \<open>auto simp: wit_request_def wit_occasion_def a plain_def\<close>)
  then obtain r where r: "rows ?page ! 0 = ''<tr>'' @ r @ ''</tr>''" "row_of wit_lib (\<lambda>_. ''0.0'') wit_volunteer (cell_texts r)"
    by auto
  then show ?thesis unfolding row_of_def by (auto simp: v shown_or_dash_def simp del: append.simps)
qed

end
