(* ===== verification/Registrar_Monitor.thy ===== *)
theory Registrar_Monitor
  imports Registrar_Properties
begin

text \<open>
  The churn monitor of \<^verbatim>\<open>registrar/src/churn.rs\<close> in time: \<^verbatim>\<open>run_churn_monitor\<close> ticks when it is spawned
  and every 15 seconds from then on, whatever requests come in between, and starts anew with the process.
  A handler takes no time here, and the clock is that of the heartbeats.
\<close>

subsection \<open>The loop\<close>

definition CHECK_INTERVAL_SECS :: int where "CHECK_INTERVAL_SECS = 15"

definition seconds :: "int \<Rightarrow> int" where
  "seconds n = n * 10 ^ 9"

text \<open>A request at a point in time.\<close>

inductive timed_request :: "'h host \<Rightarrow> crates \<Rightarrow> int \<Rightarrow> 'h reg \<Rightarrow> 'h reg \<Rightarrow> bool" for x k t where
  enroll: "fresh_id k new_id s \<Longrightarrow> timed_request x k t s (snd (enroll x k e t new_id req s))"
| heartbeat: "json_metrics hb \<Longrightarrow> timed_request x k t s (snd (heartbeat x k t hb s))"
| disconnect: "timed_request x k t s (snd (disconnect x k id_str s))"
| move: "timed_request x k t s (snd (update_tunnel_port x k e id_str port s))"
| register: "timed_request x k t s (snd (register_service x k t t rq s))"
| outside: "timed_request x k t s (s\<lparr>host_state := h\<rparr>)"

text \<open>The time, the time of the next tick, and the registrar; no tick is missed.\<close>

inductive monitored :: "'h host \<Rightarrow> crates \<Rightarrow> int \<Rightarrow> int \<Rightarrow> 'h reg \<Rightarrow> bool" for x k where
  spawn: "monitored x k t t (start x k t (new_app [] [] [] h))"
| tick: "monitored x k t due s \<Longrightarrow> monitored x k due (due + seconds CHECK_INTERVAL_SECS) (churn_tick x k due s)"
| request: "monitored x k t due s \<Longrightarrow> t \<le> t' \<Longrightarrow> t' \<le> due \<Longrightarrow> timed_request x k t' s s' \<Longrightarrow> monitored x k t' due s'"
| restart: "monitored x k t due s \<Longrightarrow> t \<le> t' \<Longrightarrow> monitored x k t' t' (crash_restart x k t' s)"

lemma timed_request_step: "timed_request x k t s s' \<Longrightarrow> request_step x k s s'"
  by (induction rule: timed_request.induct) (auto intro: request_step.intros)

lemma monitored_reachable: "monitored x k t due s \<Longrightarrow> reachable x k s"
  by (induction rule: monitored.induct) (auto intro: reachable.intros request_step.tick dest: timed_request_step)

subsection \<open>Heartbeats in time\<close>

text \<open>A request leaves the last heartbeat of every volunteer as it is or sets it to the time it runs.\<close>

lemma timed_request_heartbeat:
  assumes "timed_request x k t s s'" "map_inv (volunteers s)" "hm_get (volunteers s') i = Some v"
  shows "last_heartbeat v = t \<or> (\<exists>w. hm_get (volunteers s) i = Some w \<and> last_heartbeat w = last_heartbeat v)"
proof -
  note ok = map_inv_valid [OF assms(2)]
  show ?thesis
    using assms(1)
  proof (cases rule: timed_request.cases)
    case (enroll new_id e req)
    with assms(3) ok show ?thesis
      by (auto simp: enroll_eq frame store_simps enrolled_def fresh_volunteer_def split: if_splits)
  next
    case (heartbeat hb)
    with assms(3) ok show ?thesis
      by (cases "hm_get (volunteers s) (hb_volunteer_id hb)")
        (auto simp: heartbeat_def Let_def frame store_simps beat_def split: if_splits)
  next
    case (disconnect id_str)
    with assms(3) ok show ?thesis
      by (cases "uuid_parse k id_str"; cases "hm_get (volunteers s) (the (uuid_parse k id_str))")
        (auto simp: disconnect_def Let_def frame store_simps split: if_splits)
  next
    case (move e id_str port)
    with assms(3) ok show ?thesis
      by (cases "uuid_parse k id_str"; cases "hm_get (volunteers s) (the (uuid_parse k id_str))")
        (auto simp: update_tunnel_port_def Let_def frame store_simps split: if_splits)
  next
    case (register rq)
    show ?thesis
    proof (cases "register_pick t s")
      case None
      with register assms(3) show ?thesis by (simp add: register_service_def register_with_def)
    next
      case (Some u)
      with register assms(3) ok show ?thesis
        by (auto simp: register_service_def register_with_def register_commit_def on_host_eq Let_def frame store_simps
            set_assignment_def split: sum.splits option.splits if_splits)
    qed
  next
    case (outside h)
    with assms(3) show ?thesis by simp
  qed
qed

definition on_time :: "int \<Rightarrow> int \<Rightarrow> 'h reg \<Rightarrow> bool" where
  "on_time t due s \<longleftrightarrow> t \<le> due \<and> due \<le> t + seconds CHECK_INTERVAL_SECS \<and>
     (\<forall>i v. hm_get (volunteers s) i = Some v \<longrightarrow> last_heartbeat v \<le> t \<and> due - last_heartbeat v < seconds 60)"

lemma on_timeD:
  assumes "on_time t due s" "hm_get (volunteers s) i = Some v"
  shows "last_heartbeat v \<le> t" "due - last_heartbeat v < seconds 60" "t \<le> due"
  using assms unfolding on_time_def by blast+

lemma monitored_on_time: "monitored x k t due s \<Longrightarrow> crates_ok k \<Longrightarrow> on_time t due s"
proof (induction rule: monitored.induct)
  case (spawn t h)
  have "start x k t (new_app [] [] [] h) = new_app [] [] [] h" by (rule start_empty)
  then show ?case by (simp add: on_time_def new_app_def seconds_def CHECK_INTERVAL_SECS_def)
next
  case (tick t due s)
  note inv = reg_invD [OF reachable_inv [OF monitored_reachable [OF tick(1)] tick(3)]]
  have ih: "on_time t due s" using tick(2,3) by blast
  show ?case
    unfolding on_time_def
  proof (intro conjI allI impI)
    show "due \<le> due + seconds CHECK_INTERVAL_SECS" by (simp add: seconds_def CHECK_INTERVAL_SECS_def)
    show "due + seconds CHECK_INTERVAL_SECS \<le> due + seconds CHECK_INTERVAL_SECS" by simp
    fix i v assume "hm_get (volunteers (churn_tick x k due s)) i = Some v"
    then have v: "hm_get (volunteers s) i = Some v" "due - last_heartbeat v < 45 * 10 ^ 9"
      by (simp_all add: tick_get [OF inv(1)] split: option.splits if_splits)
    with on_timeD [OF ih v(1)] show "last_heartbeat v \<le> due"
      "due + seconds CHECK_INTERVAL_SECS - last_heartbeat v < seconds 60"
      by (simp_all add: seconds_def CHECK_INTERVAL_SECS_def)
  qed
next
  case (request t due s t' s')
  note inv = reg_invD [OF reachable_inv [OF monitored_reachable [OF request(1)] request(6)]]
  have ih: "on_time t due s" using request(5,6) by blast
  show ?case
    unfolding on_time_def
  proof (intro conjI allI impI)
    show "t' \<le> due" "due \<le> t' + seconds CHECK_INTERVAL_SECS" using request(2,3) ih by (auto simp: on_time_def)
    fix i v assume "hm_get (volunteers s') i = Some v"
    from timed_request_heartbeat [OF request(4) inv(1) this]
    have "last_heartbeat v = t' \<or> last_heartbeat v \<le> t \<and> due - last_heartbeat v < seconds 60"
      by (metis on_timeD(1,2) [OF ih])
    moreover have "due - t' < seconds 60"
      using request(2) ih by (simp add: on_time_def seconds_def CHECK_INTERVAL_SECS_def)
    ultimately show "last_heartbeat v \<le> t'" "due - last_heartbeat v < seconds 60"
      using request(2) by auto
  qed
next
  case (restart t due s t')
  from restart_outcome(1) [OF reachable_inv [OF monitored_reachable [OF restart(1)] restart(4)] restart(4)]
  show ?case by (auto simp: on_time_def survived_def seconds_def CHECK_INTERVAL_SECS_def)
qed

subsection \<open>Property\<close>

text \<open>C28 At every moment of every timed run in which the handlers and the ticks of the churn monitor, every 15
  seconds, take place one after the other, each in one piece: no volunteer is known to the registrar 60
  seconds after the last heartbeat recorded for it, where an enrollment and a restart record one too; and one
  whose last heartbeat is less than 45 seconds old at the next tick is kept by that tick as it is.\<close>

theorem silent_volunteers_evicted:
  assumes "monitored x k t due s" and "crates_ok k" and "hm_get (volunteers s) i = Some v"
  shows "last_heartbeat v \<le> t \<and> t - last_heartbeat v < seconds 60 \<and>
    (due - last_heartbeat v < seconds 45 \<longrightarrow> hm_get (volunteers (churn_tick x k due s)) i = Some v)"
  using on_timeD [OF monitored_on_time [OF assms(1,2)] assms(3)] assms(3)
    tick_get [OF reg_invD(1) [OF reachable_inv [OF monitored_reachable [OF assms(1)] assms(2)]], of x k due i]
  by (simp add: seconds_def)

theorem silent_volunteers_evicted_witness:
  "0 \<le> last_heartbeat wit_volunteer \<and>
     hm_get (volunteers (churn_tick sim_host wit (seconds 15) (churn_tick sim_host wit 0 wit_node))) 7 = Some wit_volunteer"
proof -
  have "monitored sim_host wit 0 0 wit_boot"
    using monitored.spawn [of sim_host wit 0] unfolding wit_boot_def start_empty by blast
  then have "monitored sim_host wit 0 0 wit_node"
    unfolding wit_node_def by (rule monitored.request) (simp_all add: timed_request.enroll wit_fresh)
  from monitored.tick [OF this] have m: "monitored sim_host wit 0 (seconds 15) (churn_tick sim_host wit 0 wit_node)"
    by (simp add: CHECK_INTERVAL_SECS_def)
  have v: "hm_get (volunteers wit_node) 7 = Some wit_volunteer" "last_heartbeat wit_volunteer = 0"
    by (simp_all add: wit_node_map hm_get_def wit_volunteer_def fresh_volunteer_def)
  have "hm_get (volunteers (churn_tick sim_host wit 0 wit_node)) 7 = Some wit_volunteer"
    by (simp add: tick_get [OF reg_invD(1) [OF reachable_inv [OF wit_node_reachable wit_ok]]] v)
  from silent_volunteers_evicted [OF m wit_ok this] show ?thesis by (simp add: v seconds_def)
qed

end
