(* ===== verification/Proxy_Calls.thy ===== *)
theory Proxy_Calls
  imports Haproxy_Manager
begin

text \<open>
  The calls of \<^verbatim>\<open>haproxy-manager/src/lib.rs\<close> that talk to the running HAProxy, command by command. The
  registrar makes them from any number of handlers at once and without a lock, so the commands of
  several calls reach HAProxy in any order. Calls about different servers do not notice one another:
  whether each succeeds and what they leave together is what they give one after the other, up to the
  deletions that HAProxy may cancel. Two calls about the same server can spoil each other's work.
\<close>

subsection \<open>A call, command by command\<close>

text \<open>
  A call is the command it sends next with what the rest of it needs; \<open>Up_addr\<close> starts
  \<^verbatim>\<open>upsert_server\<close>, \<open>Up_add\<close> starts \<^verbatim>\<open>add_volunteer\<close>, \<open>Rm_maint\<close> \<^verbatim>\<open>remove_volunteer\<close>, \<open>Mv_maint\<close> the
  part of \<^verbatim>\<open>update_volunteer_addr\<close> about one server, with the other server still to come, \<open>Wt\<close> \<^verbatim>\<open>set_weight\<close>.
\<close>

type_synonym call_result = "error + unit"

datatype call =
  Up_addr string string string u32
| Up_add string string string u32
| Up_weight string string u32
| Up_ready string string
| Rm_maint string string
| Rm_del string string
| Mv_maint string string string "(string \<times> string \<times> string) option"
| Mv_addr string string string "(string \<times> string \<times> string) option"
| Mv_ready string string "(string \<times> string \<times> string) option"
| Wt string string u32

definition sent_then :: "('h \<Rightarrow> (runtime_error + unit) \<times> 'h) \<Rightarrow> call + call_result \<Rightarrow> 'h \<Rightarrow> (call + call_result) \<times> 'h" where
  "sent_then m c h = (case m h of (Inl e, h') \<Rightarrow> (Inr (Inl (Runtime e)), h') | (Inr _, h') \<Rightarrow> (c, h'))"

fun call_advance :: "'h host \<Rightarrow> call \<Rightarrow> 'h \<Rightarrow> (call + call_result) \<times> 'h" where
  "call_advance x (Up_addr b s a w) h =
     (case set_addr x b s a h of
        (Inr _, h') \<Rightarrow> (Inl (Up_weight b s w), h')
      | (Inl e, h') \<Rightarrow>
          if contains ''No such server'' (runtime_error_text e) then (Inl (Up_add b s a w), h')
          else (Inr (Inl (Runtime e)), h'))"
| "call_advance x (Up_add b s a w) h = sent_then (add_server x b s a) (Inl (Up_weight b s w)) h"
| "call_advance x (Up_weight b s w) h = sent_then (set_weight x b s w) (Inl (Up_ready b s)) h"
| "call_advance x (Up_ready b s) h = sent_then (set_state x b s ''ready'') (Inr (Inr ())) h"
| "call_advance x (Rm_maint b s) h = sent_then (set_state x b s ''maint'') (Inl (Rm_del b s)) h"
| "call_advance x (Rm_del b s) h = sent_then (remove_server x b s) (Inr (Inr ())) h"
| "call_advance x (Mv_maint b s a nxt) h = sent_then (set_state x b s ''maint'') (Inl (Mv_addr b s a nxt)) h"
| "call_advance x (Mv_addr b s a nxt) h = sent_then (set_addr x b s a) (Inl (Mv_ready b s nxt)) h"
| "call_advance x (Mv_ready b s nxt) h =
     sent_then (set_state x b s ''ready'')
       (case nxt of None \<Rightarrow> Inr (Inr ()) | Some (b', s', a') \<Rightarrow> Inl (Mv_maint b' s' a' None)) h"
| "call_advance x (Wt b s w) h = sent_then (set_weight x b s w) (Inr (Inr ())) h"

definition more :: "'a option \<Rightarrow> nat" where
  "more nxt = (case nxt of None \<Rightarrow> 0 | Some _ \<Rightarrow> 3)"

fun call_rank :: "call \<Rightarrow> nat" where
  "call_rank (Up_addr b s a w) = 4"
| "call_rank (Up_add b s a w) = 3"
| "call_rank (Up_weight b s w) = 2"
| "call_rank (Up_ready b s) = 1"
| "call_rank (Rm_maint b s) = 2"
| "call_rank (Rm_del b s) = 1"
| "call_rank (Mv_maint b s a nxt) = 3 + more nxt"
| "call_rank (Mv_addr b s a nxt) = 2 + more nxt"
| "call_rank (Mv_ready b s nxt) = 1 + more nxt"
| "call_rank (Wt b s w) = 1"

lemma sent_then_Inl: "sent_then m c h = (Inl c', h') \<longleftrightarrow> c = Inl c' \<and> (\<exists>u. m h = (Inr u, h'))"
  by (auto simp: sent_then_def split: prod.splits sum.splits)

lemma call_advance_less: "call_advance x c h = (Inl c', h') \<Longrightarrow> call_rank c' < call_rank c"
  by (cases c) (auto simp: sent_then_Inl more_def split: prod.splits sum.splits if_splits option.splits)

function run_call :: "'h host \<Rightarrow> call \<Rightarrow> 'h \<Rightarrow> call_result \<times> 'h" where
  "run_call x c h = (case call_advance x c h of (Inl c', h') \<Rightarrow> run_call x c' h' | (Inr r, h') \<Rightarrow> (r, h'))"
  by pat_completeness auto
termination
  by (relation "measure (\<lambda>(x, c, h). call_rank c)") (auto dest: call_advance_less [OF sym])

declare run_call.simps [simp del]

text \<open>A call that is alone is the operation of the library.\<close>

lemma run_sent_then: "call_advance x c h = sent_then m d h \<Longrightarrow>
  run_call x c h = tryE (map_errE Runtime m) (\<lambda>_ h. case d of Inl c' \<Rightarrow> run_call x c' h | Inr r \<Rightarrow> (r, h)) h"
  by (simp add: run_call.simps [of x c] sent_then_def tryE_def map_errE_def split: prod.splits sum.splits)

lemmas run_call_simps =
  run_sent_then [of _ "Up_add b s a w" for b s a w, OF call_advance.simps(2)]
  run_sent_then [of _ "Up_weight b s w" for b s w, OF call_advance.simps(3)]
  run_sent_then [of _ "Up_ready b s" for b s, OF call_advance.simps(4)]
  run_sent_then [of _ "Rm_maint b s" for b s, OF call_advance.simps(5)]
  run_sent_then [of _ "Rm_del b s" for b s, OF call_advance.simps(6)]
  run_sent_then [of _ "Mv_maint b s a nxt" for b s a nxt, OF call_advance.simps(7)]
  run_sent_then [of _ "Mv_addr b s a nxt" for b s a nxt, OF call_advance.simps(8)]
  run_sent_then [of _ "Mv_ready b s nxt" for b s nxt, OF call_advance.simps(9)]
  run_sent_then [of _ "Wt b s w" for b s w, OF call_advance.simps(10)]

lemma run_upsert_server: "run_call x (Up_addr b s a w) h = upsert_server x b s a w h"
  by (simp add: run_call.simps [of x "Up_addr b s a w"] upsert_server_def tryE_def map_errE_def okE_def
      run_call_simps split: prod.splits sum.splits)

lemma run_add_volunteer: "run_call x (Up_add b (server_name_for k i) a w) h = add_volunteer x k b i a w h"
  by (simp add: add_volunteer_def Let_def tryE_def map_errE_def okE_def run_call_simps split: prod.splits sum.splits)

lemma run_remove_volunteer: "run_call x (Rm_maint b (server_name_for k i)) h = remove_volunteer x k b i h"
  by (simp add: remove_volunteer_def Let_def tryE_def map_errE_def okE_def run_call_simps split: prod.splits sum.splits)

lemma run_set_weight: "run_call x (Wt b (server_name_for k i) w) h = set_volunteer_weight x k b i w h"
  by (simp add: set_volunteer_weight_def tryE_def map_errE_def okE_def run_call_simps split: prod.splits sum.splits)

lemma run_move_server: "run_call x (Mv_maint b s a None) h = move_server x b s a h"
  by (simp add: move_server_def tryE_def map_errE_def okE_def run_call_simps split: prod.splits sum.splits)

lemma run_update_volunteer_addr:
  "run_call x (Mv_maint ''volunteers'' (server_name_for k i) a
     (map_option (\<lambda>(n, a'). (''svc_'' @ n, ''primary'', a')) sv)) h = update_volunteer_addr x k i a sv h"
  by (cases sv) (auto simp: update_volunteer_addr_def move_server_def tryE_def map_errE_def okE_def run_call_simps
      split: prod.splits sum.splits)

subsection \<open>What is left of a call\<close>

text \<open>Whether the rest of a call succeeds, and where it leaves HAProxy, when it is alone from here on
  and no deletion is cancelled.\<close>

definition with_srv :: "string \<Rightarrow> string \<Rightarrow> (srv \<Rightarrow> srv option) \<Rightarrow> proxy \<Rightarrow> bool \<times> proxy" where
  "with_srv b s f p =
     (if known_backend p b
      then case servers p (b, s) of Some v \<Rightarrow> (True, put_srv (b, s) (f v) p) | None \<Rightarrow> (False, p)
      else (False, p))"

definition then_move :: "(string \<times> string \<times> string) option \<Rightarrow> bool \<times> proxy \<Rightarrow> bool \<times> proxy" where
  "then_move nxt r =
     (if fst r then case nxt of
          Some (b, s, a) \<Rightarrow> with_srv b s (\<lambda>v. Some (v\<lparr>srv_addr := a, srv_state := ''ready''\<rparr>)) (snd r)
        | None \<Rightarrow> r
      else r)"

fun rest_of :: "call \<Rightarrow> proxy \<Rightarrow> bool \<times> proxy" where
  "rest_of (Up_addr b s a w) p =
     (if known_backend p b
      then (True, put_srv (b, s) (Some \<lparr>srv_addr = a, srv_weight = w, srv_state = ''ready''\<rparr>) p) else (False, p))"
| "rest_of (Up_add b s a w) p =
     (if known_backend p b
      then (True, put_srv (b, s) (Some \<lparr>srv_addr = a, srv_weight = w, srv_state = ''ready''\<rparr>) p) else (False, p))"
| "rest_of (Up_weight b s w) p = with_srv b s (\<lambda>v. Some (v\<lparr>srv_weight := w, srv_state := ''ready''\<rparr>)) p"
| "rest_of (Up_ready b s) p = with_srv b s (\<lambda>v. Some (v\<lparr>srv_state := ''ready''\<rparr>)) p"
| "rest_of (Rm_maint b s) p = with_srv b s (\<lambda>v. None) p"
| "rest_of (Rm_del b s) p = with_srv b s (\<lambda>v. None) p"
| "rest_of (Mv_maint b s a nxt) p =
     then_move nxt (with_srv b s (\<lambda>v. Some (v\<lparr>srv_addr := a, srv_state := ''ready''\<rparr>)) p)"
| "rest_of (Mv_addr b s a nxt) p =
     then_move nxt (with_srv b s (\<lambda>v. Some (v\<lparr>srv_addr := a, srv_state := ''ready''\<rparr>)) p)"
| "rest_of (Mv_ready b s nxt) p = then_move nxt (with_srv b s (\<lambda>v. Some (v\<lparr>srv_state := ''ready''\<rparr>)) p)"
| "rest_of (Wt b s w) p = with_srv b s (\<lambda>v. Some (v\<lparr>srv_weight := w\<rparr>)) p"

text \<open>A deletion may be cancelled: then the server stays in maintenance and the answer is any.\<close>

fun removal :: "call \<Rightarrow> bool" where
  "removal (Rm_maint b s) = True"
| "removal (Rm_del b s) = True"
| "removal c = False"

definition kept_in_maint :: "string \<Rightarrow> string \<Rightarrow> proxy \<Rightarrow> (bool \<times> proxy) set" where
  "kept_in_maint b s p =
     (if known_backend p b
      then case servers p (b, s) of
             Some v \<Rightarrow> {(ok, put_srv (b, s) (Some (v\<lparr>srv_state := ''maint''\<rparr>)) p) | ok. True}
           | None \<Rightarrow> {}
      else {})"

definition outcomes :: "call \<Rightarrow> proxy \<Rightarrow> (bool \<times> proxy) set" where
  "outcomes c p = insert (rest_of c p)
     (case c of Rm_maint b s \<Rightarrow> kept_in_maint b s p | Rm_del b s \<Rightarrow> kept_in_maint b s p | _ \<Rightarrow> {})"

lemma outcomes_plain: "\<not> removal c \<Longrightarrow> outcomes c p = {rest_of c p}"
  by (cases c) (simp_all add: outcomes_def)

text \<open>What a call has reached: the server is missing where it is added, and in maintenance where it is deleted.\<close>

fun in_order :: "call \<Rightarrow> proxy \<Rightarrow> bool" where
  "in_order (Up_add b s a w) p \<longleftrightarrow> known_backend p b \<and> servers p (b, s) = None"
| "in_order (Rm_del b s) p \<longleftrightarrow> known_backend p b \<and> (\<exists>v. servers p (b, s) = Some v \<and> srv_state v = ''maint'')"
| "in_order c p \<longleftrightarrow> True"

fun call_targets :: "call \<Rightarrow> (string \<times> string) set" where
  "call_targets (Up_addr b s a w) = {(b, s)}"
| "call_targets (Up_add b s a w) = {(b, s)}"
| "call_targets (Up_weight b s w) = {(b, s)}"
| "call_targets (Up_ready b s) = {(b, s)}"
| "call_targets (Rm_maint b s) = {(b, s)}"
| "call_targets (Rm_del b s) = {(b, s)}"
| "call_targets (Mv_maint b s a nxt) = insert (b, s) ((\<lambda>(b, s, a). (b, s)) ` set_option nxt)"
| "call_targets (Mv_addr b s a nxt) = insert (b, s) ((\<lambda>(b, s, a). (b, s)) ` set_option nxt)"
| "call_targets (Mv_ready b s nxt) = insert (b, s) ((\<lambda>(b, s, a). (b, s)) ` set_option nxt)"
| "call_targets (Wt b s w) = {(b, s)}"

text \<open>The words and addresses HAProxy takes.\<close>

definition addr_ok :: "(string \<Rightarrow> bool) \<Rightarrow> string \<Rightarrow> bool" where
  "addr_ok is_ip a \<longleftrightarrow> (\<exists>ip port. a = ip @ '':'' @ port \<and> api_addr is_ip ip port)"

definition srv_ok :: "string \<Rightarrow> string \<Rightarrow> bool" where
  "srv_ok b s \<longleftrightarrow> api_word b \<and> api_word s"

definition next_ok :: "(string \<Rightarrow> bool) \<Rightarrow> (string \<times> string \<times> string) option \<Rightarrow> bool" where
  "next_ok is_ip nxt \<longleftrightarrow> (case nxt of None \<Rightarrow> True | Some (b, s, a) \<Rightarrow> srv_ok b s \<and> addr_ok is_ip a)"

fun call_ok :: "(string \<Rightarrow> bool) \<Rightarrow> call \<Rightarrow> bool" where
  "call_ok is_ip (Up_addr b s a w) \<longleftrightarrow> srv_ok b s \<and> addr_ok is_ip a \<and> unat w \<le> 256"
| "call_ok is_ip (Up_add b s a w) \<longleftrightarrow> srv_ok b s \<and> addr_ok is_ip a \<and> unat w \<le> 256"
| "call_ok is_ip (Up_weight b s w) \<longleftrightarrow> srv_ok b s \<and> unat w \<le> 256"
| "call_ok is_ip (Up_ready b s) \<longleftrightarrow> srv_ok b s"
| "call_ok is_ip (Rm_maint b s) \<longleftrightarrow> srv_ok b s"
| "call_ok is_ip (Rm_del b s) \<longleftrightarrow> srv_ok b s"
| "call_ok is_ip (Mv_maint b s a nxt) \<longleftrightarrow> srv_ok b s \<and> addr_ok is_ip a \<and> next_ok is_ip nxt"
| "call_ok is_ip (Mv_addr b s a nxt) \<longleftrightarrow> srv_ok b s \<and> addr_ok is_ip a \<and> next_ok is_ip nxt"
| "call_ok is_ip (Mv_ready b s nxt) \<longleftrightarrow> srv_ok b s \<and> next_ok is_ip nxt"
| "call_ok is_ip (Wt b s w) \<longleftrightarrow> srv_ok b s \<and> unat w \<le> 256"

subsection \<open>One command\<close>

lemma cmd_outcome:
  assumes "haproxy_admin is_ip x view" "cmd_ok is_ip c"
    and "tryE (send_command x (api_text c)) (\<lambda>_. okE ()) h = (r, h')"
  shows "\<exists>resp. api_outcome c (view h) resp (view h') \<and>
    r = (if error_answer resp then Inl (Response (trim resp)) else Inr ())"
proof -
  obtain resp h1 where "api_outcome c (view h) resp (view h1)"
    "send_command x (api_text c) h = (if error_answer resp then Inl (Response (trim resp)) else Inr (trim resp), h1)"
    by (rule send_command_api [OF assms(1,2)])
  with assms(3) show ?thesis by (cases "error_answer resp") (auto simp: tryE_def okE_def)
qed

definition acts_on :: "string \<Rightarrow> string \<Rightarrow> (srv \<Rightarrow> srv) \<Rightarrow> proxy \<Rightarrow> runtime_error + unit \<Rightarrow> proxy \<Rightarrow> bool" where
  "acts_on b s upd p r p' \<longleftrightarrow>
     (if known_backend p b
      then case servers p (b, s) of
             Some v \<Rightarrow> r = Inr () \<and> p' = put_srv (b, s) (Some (upd v)) p
           | None \<Rightarrow> (\<exists>t. r = Inl (Response t) \<and> contains ''No such server'' t) \<and> p' = p
      else (\<exists>t. r = Inl (Response t) \<and> \<not> contains ''No such server'' t) \<and> p' = p)"

lemma on_server_acts:
  assumes "on_server b s upd p resp p'" "r = (if error_answer resp then Inl (Response (trim resp)) else Inr ())"
  shows "acts_on b s upd p r p'"
  using assms missing_is_error [of resp] missing_contains [of resp]
  by (auto simp: on_server_def acts_on_def put_srv_def split: option.splits simp del: contains.simps)

lemma set_acts:
  assumes adm: "haproxy_admin is_ip x view" and ok: "srv_ok b s"
  shows "set_weight x b s w h = (r, h') \<Longrightarrow> unat w \<le> 256 \<Longrightarrow> acts_on b s (srv_weight_update (\<lambda>_. w)) (view h) r (view h')"
    and "set_state x b s st h = (r, h') \<Longrightarrow> st \<in> {''ready'', ''maint''} \<Longrightarrow>
      acts_on b s (srv_state_update (\<lambda>_. st)) (view h) r (view h')"
    and "set_addr x b s a h = (r, h') \<Longrightarrow> addr_ok is_ip a \<Longrightarrow> acts_on b s (srv_addr_update (\<lambda>_. a)) (view h) r (view h')"
  subgoal
    using cmd_outcome [OF adm, of "Set_weight b s w" h r h'] ok
    by (auto simp: run_cmds srv_ok_def simp del: api_text.simps intro: on_server_acts)
  subgoal
    using cmd_outcome [OF adm, of "Set_state b s st" h r h'] ok
    by (auto simp: run_cmds srv_ok_def simp del: api_text.simps intro: on_server_acts)
  subgoal
  proof -
    assume run: "set_addr x b s a h = (r, h')" and "addr_ok is_ip a"
    then obtain ip port where a: "a = ip @ '':'' @ port" "api_addr is_ip ip port" by (auto simp: addr_ok_def)
    have "tryE (send_command x (api_text (Set_addr b s ip port))) (\<lambda>_. okE ()) h = (r, h')"
      using run a run_cmds(5) [OF a(2), of x b s] by simp
    from cmd_outcome [OF adm _ this] ok a(2) obtain resp where
      "on_server b s (srv_addr_update (\<lambda>_. a)) (view h) resp (view h')"
      "r = (if error_answer resp then Inl (Response (trim resp)) else Inr ())"
      by (auto simp: a(1) srv_ok_def)
    then show ?thesis by (rule on_server_acts)
  qed
  done

lemma add_acts:
  assumes adm: "haproxy_admin is_ip x view" and ok: "srv_ok b s" "addr_ok is_ip a"
    and run: "add_server x b s a h = (r, h')" and free: "known_backend (view h) b" "servers (view h) (b, s) = None"
  shows "r = Inr () \<and> (\<exists>w. view h' = put_srv (b, s) (Some \<lparr>srv_addr = a, srv_weight = w, srv_state = ''maint''\<rparr>) (view h))"
proof -
  obtain ip port where a: "a = ip @ '':'' @ port" "api_addr is_ip ip port" using ok(2) by (auto simp: addr_ok_def)
  from add_new [OF adm _ _ free a(2) refl] ok(1) run show ?thesis by (auto simp: a(1) srv_ok_def)
qed

lemma del_acts:
  assumes adm: "haproxy_admin is_ip x view" and ok: "srv_ok b s"
    and run: "remove_server x b s h = (r, h')" and v: "servers (view h) (b, s) = Some v" "srv_state v = ''maint''"
  shows "r = Inr () \<and> view h' = put_srv (b, s) None (view h) \<or> view h' = view h"
  using cmd_outcome [OF adm, of "Del_server b s" h r h'] ok run v
  by (auto simp: run_cmds srv_ok_def put_srv_def simp del: api_text.simps)

subsection \<open>A step changes its own servers only, and keeps what is left\<close>

lemma with_srv_simps [simp]:
  "known_backend (snd (with_srv b s f p)) = known_backend p"
  "t \<noteq> (b, s) \<Longrightarrow> servers (snd (with_srv b s f p)) t = servers p t"
  by (auto simp: with_srv_def split: option.splits)

lemma then_move_simps [simp]:
  "known_backend (snd (then_move nxt r)) = known_backend (snd r)"
  "t \<notin> (\<lambda>(b, s, a). (b, s)) ` set_option nxt \<Longrightarrow> servers (snd (then_move nxt r)) t = servers (snd r) t"
  by (auto simp: then_move_def split: option.splits)

lemma rest_of_other:
  "known_backend (snd (rest_of c p)) = known_backend p"
  "t \<notin> call_targets c \<Longrightarrow> servers (snd (rest_of c p)) t = servers p t"
  by (cases c; auto)+

text \<open>Two views that agree on some servers.\<close>

definition same_at :: "(string \<times> string) set \<Rightarrow> proxy \<Rightarrow> proxy \<Rightarrow> bool" where
  "same_at T p q \<longleftrightarrow> known_backend p = known_backend q \<and> (\<forall>t \<in> T. servers p t = servers q t)"

definition agree :: "(string \<times> string) set \<Rightarrow> bool \<times> proxy \<Rightarrow> bool \<times> proxy \<Rightarrow> bool" where
  "agree T r r' \<longleftrightarrow> fst r = fst r' \<and> same_at T (snd r) (snd r')"

text \<open>Each outcome of the one is an outcome of the other, as far as these servers go.\<close>

definition among :: "(string \<times> string) set \<Rightarrow> (bool \<times> proxy) set \<Rightarrow> (bool \<times> proxy) set \<Rightarrow> bool" where
  "among T R R' \<longleftrightarrow> (\<forall>r \<in> R. \<exists>r' \<in> R'. agree T r r')"

lemma agree_with_srv: "(b, s) \<in> T \<Longrightarrow> same_at T p q \<Longrightarrow> agree T (with_srv b s f p) (with_srv b s f q)"
  by (auto simp: agree_def same_at_def with_srv_def split: option.splits)

lemma agree_put: "same_at T p q \<Longrightarrow>
  agree T (if known_backend p b then (True, put_srv (b, s) v p) else (False, p))
    (if known_backend q b then (True, put_srv (b, s) v q) else (False, q))"
  by (auto simp: agree_def same_at_def)

lemma agree_then_move:
  "(\<lambda>(b, s, a). (b, s)) ` set_option nxt \<subseteq> T \<Longrightarrow> agree T r r' \<Longrightarrow> agree T (then_move nxt r) (then_move nxt r')"
  using agree_with_srv [of _ _ T "snd r" "snd r'"]
  by (auto simp: then_move_def agree_def split: option.splits)

lemma rest_of_same: "call_targets c \<subseteq> T \<Longrightarrow> same_at T p q \<Longrightarrow> agree T (rest_of c p) (rest_of c q)"
  by (cases c) (simp_all add: agree_put agree_with_srv agree_then_move split del: if_split del: put_srv_simps)

lemma outcomes_same:
  assumes "call_targets c \<subseteq> T" "same_at T p q"
  shows "among T (outcomes c p) (outcomes c q)"
proof (cases "removal c")
  case False
  with rest_of_same [OF assms] show ?thesis by (simp add: outcomes_plain among_def)
next
  case True
  then obtain b s where c: "c = Rm_maint b s \<or> c = Rm_del b s" by (cases c) auto
  then have "known_backend p = known_backend q" "servers p (b, s) = servers q (b, s)"
    using assms by (auto simp: same_at_def)
  moreover from c have kept: "outcomes c = (\<lambda>p. insert (rest_of c p) (kept_in_maint b s p))"
    by (auto simp: outcomes_def)
  ultimately have "among T (kept_in_maint b s p) (kept_in_maint b s q)"
    using assms(2) by (auto simp: among_def kept_in_maint_def agree_def same_at_def split: option.splits)
  with rest_of_same [OF assms] kept show ?thesis by (auto simp: among_def)
qed

lemma put_same [simp]: "put_srv t (servers p t) p = p"
  by (simp add: put_srv_def)

lemma sent_then_cases:
  assumes "sent_then m d h = (r, h')"
  obtains e where "m h = (Inl e, h')" "r = Inr (Inl (Runtime e))" | "m h = (Inr (), h')" "r = d"
  using assms by (auto simp: sent_then_def split: prod.splits sum.splits)

definition step_ok :: "(string \<Rightarrow> bool) \<Rightarrow> call \<Rightarrow> proxy \<Rightarrow> call + call_result \<Rightarrow> proxy \<Rightarrow> bool" where
  "step_ok is_ip c p r p' \<longleftrightarrow>
     known_backend p' = known_backend p \<and> (\<forall>t. t \<notin> call_targets c \<longrightarrow> servers p' t = servers p t) \<and>
     (case r of
        Inl c' \<Rightarrow> call_ok is_ip c' \<and> in_order c' p' \<and> call_targets c' \<subseteq> call_targets c \<and> outcomes c' p' \<subseteq> outcomes c p
      | Inr res \<Rightarrow> (\<not> isl res, p') \<in> outcomes c p)"

lemma step_okD:
  "step_ok is_ip c p r p' \<Longrightarrow> known_backend p' = known_backend p"
  "step_ok is_ip c p r p' \<Longrightarrow> t \<notin> call_targets c \<Longrightarrow> servers p' t = servers p t"
  unfolding step_ok_def by blast+

lemma acts_step:
  assumes "acts_on b s upd p r0 p'" "sent_then m d h = (r, h')" "m h = (r0, h')"
    and "(b, s) \<in> call_targets c" and "\<not> removal c" and "case d of Inl c' \<Rightarrow> \<not> removal c' | Inr _ \<Rightarrow> True"
    and "\<not> (known_backend p b \<and> servers p (b, s) \<noteq> None) \<Longrightarrow> rest_of c p = (False, p)"
    and "\<And>v. known_backend p b \<Longrightarrow> servers p (b, s) = Some v \<Longrightarrow>
      case d of
        Inl c' \<Rightarrow> call_ok is_ip c' \<and> in_order c' (put_srv (b, s) (Some (upd v)) p) \<and> call_targets c' \<subseteq> call_targets c \<and>
          rest_of c' (put_srv (b, s) (Some (upd v)) p) = rest_of c p
      | Inr res \<Rightarrow> rest_of c p = (\<not> isl res, put_srv (b, s) (Some (upd v)) p)"
  shows "step_ok is_ip c p r p'"
  using assms
  by (auto simp: acts_on_def step_ok_def sent_then_def outcomes_plain split: if_splits option.splits sum.splits)

lemma with_srv_missing: "\<not> (known_backend p b \<and> servers p (b, s) \<noteq> None) \<Longrightarrow> with_srv b s f p = (False, p)"
  by (auto simp: with_srv_def split: option.splits)

lemma with_srv_present: "known_backend p b \<Longrightarrow> servers p (b, s) = Some v \<Longrightarrow> with_srv b s f p = (True, put_srv (b, s) (f v) p)"
  by (simp add: with_srv_def)

lemma missing_text: "contains ''No such server'' (runtime_error_text (Response t)) = contains ''No such server'' t"
  by simp

lemma srv_all: "v\<lparr>srv_addr := a, srv_weight := w, srv_state := st\<rparr> = \<lparr>srv_addr = a, srv_weight = w, srv_state = st\<rparr>"
  by (cases v) simp

lemma call_advance_ok:
  assumes adm: "haproxy_admin is_ip x view" and ok: "call_ok is_ip c" "in_order c (view h)"
    and run: "call_advance x c h = (r, h')"
  shows "step_ok is_ip c (view h) r (view h')"
proof (cases c)
  case (Up_addr b s a w)
  obtain r0 h1 where m: "set_addr x b s a h = (r0, h1)" by (cases "set_addr x b s a h")
  with run Up_addr have "h1 = h'" by (auto split: sum.splits if_splits)
  with set_acts(3) [OF adm _ m] ok Up_addr have "acts_on b s (srv_addr_update (\<lambda>_. a)) (view h) r0 (view h')" by simp
  then show ?thesis
    using run Up_addr m ok
    by (auto simp: acts_on_def step_ok_def with_srv_def missing_text srv_all outcomes_plain split: if_splits option.splits
        simp del: contains.simps runtime_error_text.simps)
next
  case (Up_add b s a w)
  with ok have fr: "srv_ok b s" "addr_ok is_ip a" "known_backend (view h) b" "servers (view h) (b, s) = None" by auto
  from run Up_add have "sent_then (add_server x b s a) (Inl (Up_weight b s w)) h = (r, h')" by simp
  then show ?thesis
    using add_acts [OF adm fr(1,2) _ fr(3,4)] Up_add ok
    by (cases rule: sent_then_cases) (fastforce simp: step_ok_def with_srv_def outcomes_plain)+
next
  case (Rm_del b s)
  with ok obtain v where v: "srv_ok b s" "known_backend (view h) b" "servers (view h) (b, s) = Some v" "srv_state v = ''maint''" by auto
  obtain r0 where m: "remove_server x b s h = (r0, h')" using run Rm_del by (auto elim: sent_then_cases)
  with run Rm_del have r: "r = Inr (case r0 of Inl e \<Rightarrow> Inl (Runtime e) | Inr _ \<Rightarrow> Inr ())"
    by (cases r0) (simp_all add: sent_then_def)
  have "v\<lparr>srv_state := ''maint''\<rparr> = v" using v(4) by (cases v) simp
  then have kept: "put_srv (b, s) (Some (v\<lparr>srv_state := ''maint''\<rparr>)) (view h) = view h"
    using put_same [of "(b, s)" "view h"] v(3) by simp
  from del_acts [OF adm v(1) m v(3,4)] show ?thesis
  proof
    assume "r0 = Inr () \<and> view h' = put_srv (b, s) None (view h)"
    with r Rm_del v show ?thesis by (simp add: step_ok_def outcomes_def with_srv_present)
  next
    assume "view h' = view h"
    with r Rm_del v(2,3) kept show ?thesis
      by (auto simp: step_ok_def outcomes_def kept_in_maint_def)
  qed
next
  case (Up_weight b s w)
  obtain r0 where m: "set_weight x b s w h = (r0, h')" using run Up_weight by (auto elim: sent_then_cases)
  from acts_step [where c = c and is_ip = is_ip, OF set_acts(1) [OF adm _ m] run [unfolded Up_weight call_advance.simps] m] show ?thesis
    using ok Up_weight by (simp add: with_srv_missing with_srv_present)
next
  case (Up_ready b s)
  obtain r0 where m: "set_state x b s ''ready'' h = (r0, h')" using run Up_ready by (auto elim: sent_then_cases)
  from acts_step [where c = c and is_ip = is_ip, OF set_acts(2) [OF adm _ m] run [unfolded Up_ready call_advance.simps] m] show ?thesis
    using ok Up_ready by (simp add: with_srv_missing with_srv_present)
next
  case (Rm_maint b s)
  obtain r0 where m: "set_state x b s ''maint'' h = (r0, h')" using run Rm_maint by (auto elim: sent_then_cases)
  with set_acts(2) [OF adm _ m] ok Rm_maint have a: "acts_on b s (srv_state_update (\<lambda>_. ''maint'')) (view h) r0 (view h')" by simp
  show ?thesis
  proof (cases "known_backend (view h) b \<and> servers (view h) (b, s) \<noteq> None")
    case False
    with a have "isl r0" "view h' = view h" by (auto simp: acts_on_def split: if_splits)
    moreover from this run Rm_maint m have "\<exists>e. r = Inr (Inl e)" by (cases r0) (auto simp: sent_then_def)
    ultimately show ?thesis using with_srv_missing [OF False] Rm_maint by (auto simp: step_ok_def outcomes_def)
  next
    case True
    then obtain v where v: "known_backend (view h) b" "servers (view h) (b, s) = Some v" by auto
    with a have m': "r0 = Inr ()" "view h' = put_srv (b, s) (Some (v\<lparr>srv_state := ''maint''\<rparr>)) (view h)"
      by (auto simp: acts_on_def)
    with run Rm_maint m have "r = Inl (Rm_del b s)" by (simp add: sent_then_def)
    with v m' Rm_maint ok show ?thesis
      by (auto simp: step_ok_def outcomes_def kept_in_maint_def with_srv_present)
  qed
next
  case (Mv_maint b s a nxt)
  obtain r0 where m: "set_state x b s ''maint'' h = (r0, h')" using run Mv_maint by (auto elim: sent_then_cases)
  from acts_step [where c = c and is_ip = is_ip, OF set_acts(2) [OF adm _ m] run [unfolded Mv_maint call_advance.simps] m] show ?thesis
    using ok Mv_maint by (auto simp: with_srv_missing with_srv_present then_move_def)
next
  case (Mv_addr b s a nxt)
  obtain r0 where m: "set_addr x b s a h = (r0, h')" using run Mv_addr by (auto elim: sent_then_cases)
  from acts_step [where c = c and is_ip = is_ip, OF set_acts(3) [OF adm _ m] run [unfolded Mv_addr call_advance.simps] m] show ?thesis
    using ok Mv_addr by (auto simp: with_srv_missing with_srv_present then_move_def)
next
  case (Mv_ready b s nxt)
  obtain r0 where m: "set_state x b s ''ready'' h = (r0, h')" using run Mv_ready by (auto elim: sent_then_cases)
  from acts_step [where c = c and is_ip = is_ip, OF set_acts(2) [OF adm _ m] run [unfolded Mv_ready call_advance.simps] m] show ?thesis
    using ok Mv_ready by (cases nxt) (auto simp: with_srv_def then_move_def next_ok_def split: option.splits)
next
  case (Wt b s w)
  obtain r0 where m: "set_weight x b s w h = (r0, h')" using run Wt by (auto elim: sent_then_cases)
  from acts_step [where c = c and is_ip = is_ip, OF set_acts(1) [OF adm _ m] run [unfolded Wt call_advance.simps] m] show ?thesis
    using ok Wt by (simp add: with_srv_missing with_srv_present)
qed

lemma in_order_same: "call_targets c \<subseteq> T \<Longrightarrow> same_at T p q \<Longrightarrow> in_order c p \<Longrightarrow> in_order c q"
  by (cases c) (auto simp: same_at_def)

subsection \<open>Calls at once\<close>

text \<open>Where each of the calls is, or what it answered; a step is one command of one of them.\<close>

inductive calls_step ::
  "'h host \<Rightarrow> 'h \<times> (call + call_result) list \<Rightarrow> 'h \<times> (call + call_result) list \<Rightarrow> bool" for x where
  "n < length cs \<Longrightarrow> cs ! n = Inl c \<Longrightarrow> call_advance x c h = (r, h') \<Longrightarrow> calls_step x (h, cs) (h', cs[n := r])"

text \<open>The calls one after the other.\<close>

fun run_calls :: "'h host \<Rightarrow> call list \<Rightarrow> 'h \<Rightarrow> call_result list \<times> 'h" where
  "run_calls x [] h = ([], h)"
| "run_calls x (c # cs) h = (case run_call x c h of (r, h') \<Rightarrow> case run_calls x cs h' of (rs, h'') \<Rightarrow> (r # rs, h''))"

lemma run_call_steps:
  "n < length cs \<Longrightarrow> cs ! n = Inl c \<Longrightarrow>
     (calls_step x)\<^sup>*\<^sup>* (h, cs) (snd (run_call x c h), cs[n := Inr (fst (run_call x c h))])"
proof (induction x c h arbitrary: cs rule: run_call.induct)
  case (1 x c h)
  obtain r h' where a: "call_advance x c h = (r, h')" by fastforce
  from calls_step.intros [OF 1(2,3) a] have step: "calls_step x (h, cs) (h', cs[n := r])" .
  show ?case
  proof (cases r)
    case (Inl c')
    have "(calls_step x)\<^sup>*\<^sup>* (h', cs[n := r]) (snd (run_call x c' h'), cs[n := r, n := Inr (fst (run_call x c' h'))])"
      by (rule 1(1) [OF a [symmetric] Inl]) (use 1(2) Inl in simp_all)
    with step show ?thesis by (simp add: run_call.simps [of x c] a Inl converse_rtranclp_into_rtranclp)
  next
    case (Inr b)
    with step show ?thesis by (simp add: run_call.simps [of x c] a r_into_rtranclp)
  qed
qed

lemma run_calls_steps:
  "(calls_step x)\<^sup>*\<^sup>* (h, map Inr ds @ map Inl cs) (snd (run_calls x cs h), map Inr (ds @ fst (run_calls x cs h)))"
proof (induction cs arbitrary: ds h)
  case (Cons c cs)
  obtain r h' where r: "run_call x c h = (r, h')" by fastforce
  have "(calls_step x)\<^sup>*\<^sup>* (h, map Inr ds @ map Inl (c # cs)) (h', map Inr (ds @ [r]) @ map Inl cs)"
    using run_call_steps [of "length ds" "map Inr ds @ map Inl (c # cs)" c x h] r
    by (simp add: nth_append list_update_append)
  with Cons [of h' "ds @ [r]"] r show ?case by (auto split: prod.split)
qed simp

definition apart :: "call list \<Rightarrow> bool" where
  "apart cs \<longleftrightarrow> (\<forall>t. length (filter (\<lambda>c. t \<in> call_targets c) cs) \<le> 1)"

lemma apart_nth:
  assumes "apart cs" "i < length cs" "j < length cs" "t \<in> call_targets (cs ! i)" "t \<in> call_targets (cs ! j)"
  shows "i = j"
proof -
  have "card {i. i < length cs \<and> t \<in> call_targets (cs ! i)} \<le> Suc 0"
    using assms(1) by (cases t) (simp add: apart_def length_filter_conv_card)
  then show ?thesis using assms(2-5) by (subst (asm) card_le_Suc0_iff_eq) auto
qed

lemma apart_mset: "mset cs = mset ds \<Longrightarrow> apart cs = apart ds"
  unfolding apart_def by (metis mset_filter size_mset)

definition calls_inv ::
  "(string \<Rightarrow> bool) \<Rightarrow> call list \<Rightarrow> proxy \<Rightarrow> proxy \<Rightarrow> (call + call_result) list \<Rightarrow> bool" where
  "calls_inv is_ip cs p0 p rs \<longleftrightarrow> length rs = length cs \<and> known_backend p = known_backend p0 \<and>
     (\<forall>t. (\<forall>c \<in> set cs. t \<notin> call_targets c) \<longrightarrow> servers p t = servers p0 t) \<and>
     (\<forall>i < length cs. case rs ! i of
        Inl c \<Rightarrow> call_ok is_ip c \<and> in_order c p \<and> call_targets c \<subseteq> call_targets (cs ! i) \<and>
          among (call_targets (cs ! i)) (outcomes c p) (outcomes (cs ! i) p0)
      | Inr r \<Rightarrow> among (call_targets (cs ! i)) {(\<not> isl r, p)} (outcomes (cs ! i) p0))"

lemma calls_invD:
  assumes "calls_inv is_ip cs p0 p rs" "i < length cs"
  shows "rs ! i = Inl c \<Longrightarrow> call_ok is_ip c" "rs ! i = Inl c \<Longrightarrow> in_order c p"
    "rs ! i = Inl c \<Longrightarrow> call_targets c \<subseteq> call_targets (cs ! i)"
    "rs ! i = Inl c \<Longrightarrow> among (call_targets (cs ! i)) (outcomes c p) (outcomes (cs ! i) p0)"
    "rs ! i = Inr r \<Longrightarrow> among (call_targets (cs ! i)) {(\<not> isl r, p)} (outcomes (cs ! i) p0)"
  using assms by (auto simp: calls_inv_def dest!: spec [of _ i])

lemma calls_inv_other:
  "calls_inv is_ip cs p0 p rs \<Longrightarrow> \<forall>c \<in> set cs. t \<notin> call_targets c \<Longrightarrow> servers p t = servers p0 t"
  unfolding calls_inv_def by blast

lemma agree_trans: "agree T a b \<Longrightarrow> agree T b c \<Longrightarrow> agree T a c"
  by (simp add: agree_def same_at_def)

lemma among_trans: "among T R S \<Longrightarrow> among T S U \<Longrightarrow> among T R U"
  unfolding among_def by (meson agree_trans)

lemma among_subset: "R \<subseteq> S \<Longrightarrow> among T S U \<Longrightarrow> among T R U"
  by (auto simp: among_def)

lemma same_at_sym: "same_at T p q \<Longrightarrow> same_at T q p"
  by (simp add: same_at_def)

lemma calls_inv_step:
  assumes inv: "calls_inv is_ip cs p0 (view h) rs" and adm: "haproxy_admin is_ip x view" and ap: "apart cs"
    and n: "n < length rs" "rs ! n = Inl c" and run: "call_advance x c h = (r, h')"
  shows "calls_inv is_ip cs p0 (view h') (rs[n := r])"
proof -
  let ?p = "view h" and ?p' = "view h'"
  have len: "length rs = length cs" "n < length cs" using inv n by (auto simp: calls_inv_def)
  have c: "call_ok is_ip c" "in_order c ?p" "call_targets c \<subseteq> call_targets (cs ! n)"
    "among (call_targets (cs ! n)) (outcomes c ?p) (outcomes (cs ! n) p0)"
    using calls_invD(1-4) [OF inv len(2) n(2)] by blast+
  from call_advance_ok [OF adm c(1,2) run] have st: "step_ok is_ip c ?p r ?p'" .
  have other: "same_at (call_targets (cs ! i)) ?p ?p'" if "i < length cs" "i \<noteq> n" for i
    unfolding same_at_def
  proof (intro conjI ballI)
    fix t assume "t \<in> call_targets (cs ! i)"
    with apart_nth [OF ap that(1) len(2) this] that(2) c(3) have "t \<notin> call_targets c" by blast
    then show "servers ?p t = servers ?p' t" using step_okD(2) [OF st] by simp
  qed (simp add: step_okD(1) [OF st])
  have mine: "case r of
        Inl c \<Rightarrow> call_ok is_ip c \<and> in_order c ?p' \<and> call_targets c \<subseteq> call_targets (cs ! n) \<and>
          among (call_targets (cs ! n)) (outcomes c ?p') (outcomes (cs ! n) p0)
      | Inr r \<Rightarrow> among (call_targets (cs ! n)) {(\<not> isl r, ?p')} (outcomes (cs ! n) p0)"
    using st c(3) among_subset [OF _ c(4)] by (auto simp: step_ok_def split: sum.splits)
  have "case (rs[n := r]) ! i of
        Inl c \<Rightarrow> call_ok is_ip c \<and> in_order c ?p' \<and> call_targets c \<subseteq> call_targets (cs ! i) \<and>
          among (call_targets (cs ! i)) (outcomes c ?p') (outcomes (cs ! i) p0)
      | Inr r \<Rightarrow> among (call_targets (cs ! i)) {(\<not> isl r, ?p')} (outcomes (cs ! i) p0)" if "i < length cs" for i
  proof (cases "i = n")
    case True
    then show ?thesis unfolding True using mine len by simp
  next
    case False
    show ?thesis
    proof (cases "rs ! i")
      case (Inl d)
      have d: "call_ok is_ip d" "in_order d ?p" "call_targets d \<subseteq> call_targets (cs ! i)"
        "among (call_targets (cs ! i)) (outcomes d ?p) (outcomes (cs ! i) p0)"
        using calls_invD(1-4) [OF inv that Inl] by blast+
      with Inl False other [OF that False] show ?thesis
        using outcomes_same [OF d(3) same_at_sym] in_order_same [OF d(3)] by (auto intro: among_trans)
    next
      case (Inr q)
      have "among (call_targets (cs ! i)) {(\<not> isl q, ?p)} (outcomes (cs ! i) p0)"
        by (rule calls_invD(5) [OF inv that Inr])
      with Inr False other [OF that False] show ?thesis by (simp add: among_def agree_def same_at_def)
    qed
  qed
  moreover have "servers ?p' t = servers p0 t" if "\<forall>c \<in> set cs. t \<notin> call_targets c" for t
  proof -
    have "t \<notin> call_targets c" using that c(3) nth_mem [OF len(2)] by blast
    then show ?thesis using step_okD(2) [OF st] calls_inv_other [OF inv that] by simp
  qed
  ultimately show ?thesis using inv st by (simp add: calls_inv_def step_ok_def)
qed

lemma calls_inv_start:
  assumes "\<forall>c \<in> set cs. call_ok is_ip c \<and> in_order c p"
  shows "calls_inv is_ip cs p p (map Inl cs)"
  using assms by (auto simp: calls_inv_def among_def agree_def same_at_def)

lemma calls_inv_steps:
  assumes "(calls_step x)\<^sup>*\<^sup>* (h, rs) z'" "calls_inv is_ip cs p0 (view h) rs"
    and "haproxy_admin is_ip x view" "apart cs"
  shows "calls_inv is_ip cs p0 (view (fst z')) (snd z')"
  using assms(1,2)
proof (induction rule: rtranclp_induct)
  case (step y z)
  from step(2) show ?case
  proof (cases rule: calls_step.cases)
    case (1 n rs c h r h')
    with step(3,4) calls_inv_step [OF _ assms(3,4), of p0 h rs n c r h'] show ?thesis by simp
  qed
qed simp

text \<open>Where the calls have all ended, each server is what the one call about it makes of it.\<close>

lemma calls_done:
  assumes "(calls_step x)\<^sup>*\<^sup>* (h, map Inl cs) (h', map Inr rs)"
    and "haproxy_admin is_ip x view" "apart cs" "\<forall>c \<in> set cs. call_ok is_ip c \<and> in_order c (view h)"
  shows "length rs = length cs" "known_backend (view h') = known_backend (view h)"
    and "\<forall>c \<in> set cs. t \<notin> call_targets c \<Longrightarrow> servers (view h') t = servers (view h) t"
    and "i < length cs \<Longrightarrow> among (call_targets (cs ! i)) {(\<not> isl (rs ! i), view h')} (outcomes (cs ! i) (view h))"
proof -
  have inv: "calls_inv is_ip cs (view h) (view h') (map Inr rs)"
    using calls_inv_steps [OF assms(1) calls_inv_start [OF assms(4)] assms(2,3)] by simp
  then show len: "length rs = length cs" and "known_backend (view h') = known_backend (view h)"
    by (simp_all add: calls_inv_def)
  show "\<forall>c \<in> set cs. t \<notin> call_targets c \<Longrightarrow> servers (view h') t = servers (view h) t"
    by (rule calls_inv_other [OF inv])
  show "among (call_targets (cs ! i)) {(\<not> isl (rs ! i), view h')} (outcomes (cs ! i) (view h))" if "i < length cs"
    using calls_invD(5) [OF inv that, of "rs ! i"] that len by simp
qed

lemma run_call_rest:
  assumes "haproxy_admin is_ip x view" "call_ok is_ip c" "in_order c (view h)"
  shows "(\<not> isl (fst (run_call x c h)), view (snd (run_call x c h))) \<in> outcomes c (view h)"
  using assms
proof (induction x c h rule: run_call.induct)
  case (1 x c h)
  obtain r h' where a: "call_advance x c h = (r, h')" by fastforce
  have st: "step_ok is_ip c (view h) r (view h')" by (rule call_advance_ok [OF 1(2-4) a])
  show ?case
  proof (cases r)
    case (Inl c')
    with st have "outcomes c' (view h') \<subseteq> outcomes c (view h)" "call_ok is_ip c'" "in_order c' (view h')"
      by (simp_all add: step_ok_def)
    with 1(1) [OF a [symmetric] Inl 1(2)] show ?thesis by (auto simp: run_call.simps [of x c] a Inl)
  next
    case (Inr q)
    with st show ?thesis by (simp add: run_call.simps [of x c] a step_ok_def)
  qed
qed

subsection \<open>Properties\<close>

text \<open>A removal that has ended: the server is gone and the answer is Ok, or the deletion was cancelled and
  the server is in maintenance; where there was no server, an error and no change.\<close>

definition removal_ended :: "bool \<Rightarrow> srv option \<Rightarrow> bool \<Rightarrow> srv option \<Rightarrow> bool" where
  "removal_ended known u ok u' \<longleftrightarrow>
     (if known \<and> u \<noteq> None then u' = None \<and> ok \<or> u' = map_option (srv_state_update (\<lambda>_. ''maint'')) u
      else u' = u \<and> \<not> ok)"

lemma removal_outcome:
  assumes "removal c" "(b, s) \<in> call_targets c" "(ok, q) \<in> outcomes c p"
  shows "removal_ended (known_backend p b) (servers p (b, s)) ok (servers q (b, s))"
  using assms
  by (cases c) (auto simp: outcomes_def kept_in_maint_def removal_ended_def with_srv_def split: if_splits option.splits)

text \<open>C27 Upserts, additions, moves, weights and removals about different servers, at once and with their
  commands in any order, while the admin socket answers and HAProxy is not reloaded. Each call that is
  not a removal succeeds if and only if it would alone, and leaves its servers as it would alone; each
  removal leaves its server gone or, where HAProxy cancelled the deletion, in maintenance. All of them
  together leave HAProxy as the calls one after the other do, in whatever order, except that a server
  that was removed may be gone in one and in maintenance in the other.\<close>

theorem overlapping_calls_as_sequential:
  assumes "haproxy_admin is_ip x view" and "\<forall>c \<in> set cs. call_ok is_ip c \<and> in_order c (view h)" and "apart cs"
    and "(calls_step x)\<^sup>*\<^sup>* (h, map Inl cs) (h', map Inr rs)" and "mset ds = mset cs"
  shows "(\<forall>i < length cs. \<forall>t \<in> call_targets (cs ! i).
      if removal (cs ! i)
      then removal_ended (known_backend (view h) (fst t)) (servers (view h) t) (\<not> isl (rs ! i)) (servers (view h') t)
      else isl (rs ! i) = isl (fst (run_call x (cs ! i) h)) \<and>
        servers (view h') t = servers (view (snd (run_call x (cs ! i) h))) t) \<and>
    known_backend (view (snd (run_calls x ds h))) = known_backend (view h') \<and>
    (\<forall>t. (\<forall>c \<in> set cs. removal c \<longrightarrow> t \<notin> call_targets c) \<longrightarrow>
       servers (view (snd (run_calls x ds h))) t = servers (view h') t)"
proof (intro conjI allI impI)
  note ended = calls_done [OF assms(4,1,3,2)]
  have one: "\<exists>q. (\<not> isl (rs ! i), q) \<in> outcomes (cs ! i) (view h) \<and> same_at (call_targets (cs ! i)) (view h') q"
    if "i < length cs" for i
    using ended(4) [OF that] by (auto simp: among_def agree_def)
  show "\<forall>t \<in> call_targets (cs ! i).
      if removal (cs ! i)
      then removal_ended (known_backend (view h) (fst t)) (servers (view h) t) (\<not> isl (rs ! i)) (servers (view h') t)
      else isl (rs ! i) = isl (fst (run_call x (cs ! i) h)) \<and>
        servers (view h') t = servers (view (snd (run_call x (cs ! i) h))) t" if i: "i < length cs" for i
  proof
    fix t assume t: "t \<in> call_targets (cs ! i)"
    obtain b s where bs: "t = (b, s)" by (cases t)
    from one [OF i] obtain q where q: "(\<not> isl (rs ! i), q) \<in> outcomes (cs ! i) (view h)"
      "servers (view h') t = servers q t" using t by (auto simp: same_at_def)
    show "if removal (cs ! i)
      then removal_ended (known_backend (view h) (fst t)) (servers (view h) t) (\<not> isl (rs ! i)) (servers (view h') t)
      else isl (rs ! i) = isl (fst (run_call x (cs ! i) h)) \<and>
        servers (view h') t = servers (view (snd (run_call x (cs ! i) h))) t"
    proof (cases "removal (cs ! i)")
      case True
      from removal_outcome [OF True _ q(1)] t q(2) show ?thesis by (simp add: bs True)
    next
      case False
      have "rest_of (cs ! i) (view h) = (\<not> isl (fst (run_call x (cs ! i) h)), view (snd (run_call x (cs ! i) h)))"
        using run_call_rest [OF assms(1), of "cs ! i" h] assms(2) i False by (simp add: outcomes_plain)
      moreover have "rest_of (cs ! i) (view h) = (\<not> isl (rs ! i), q)" using q(1) False by (simp add: outcomes_plain)
      ultimately show ?thesis using q(2) False by simp
    qed
  qed
  have ds: "apart ds" "\<forall>c \<in> set ds. call_ok is_ip c \<and> in_order c (view h)" "set ds = set cs"
    using assms(2,3,5) apart_mset mset_eq_setD by metis+
  note seq = calls_done [OF run_calls_steps [of x h "[]", simplified] assms(1) ds(1,2)]
  show "known_backend (view (snd (run_calls x ds h))) = known_backend (view h')" using ended(2) seq(2) by simp
  fix t assume plain: "\<forall>c \<in> set cs. removal c \<longrightarrow> t \<notin> call_targets c"
  show "servers (view (snd (run_calls x ds h))) t = servers (view h') t"
  proof (cases "\<exists>c \<in> set cs. t \<in> call_targets c")
    case False
    then show ?thesis using ended(3) seq(3) ds(3) by simp
  next
    case True
    then obtain i j where i: "i < length cs" "t \<in> call_targets (cs ! i)" and j: "j < length ds" "ds ! j = cs ! i"
      using ds(3) by (metis in_set_conv_nth)
    with plain have "\<not> removal (cs ! i)" by auto
    with ended(4) [OF i(1)] seq(4) [OF j(1)] i(2) j(2) show ?thesis
      by (auto simp: outcomes_plain among_def agree_def same_at_def)
  qed
qed

lemma wit_calls_ok:
  "call_ok (\<lambda>_. True) (Up_addr ''volunteers'' ''n1'' ''10.0.0.1:30000'' 100)" "srv_ok ''volunteers'' ''n1''"
  "srv_ok ''volunteers'' ''n2''"
proof -
  have a: "addr_ok (\<lambda>_. True) ''10.0.0.1:30000''"
    unfolding addr_ok_def using sim_words(2) by (intro exI [of _ "''10.0.0.1''"] exI [of _ "''30000''"]) simp
  show b: "srv_ok ''volunteers'' ''n1''" "srv_ok ''volunteers'' ''n2''"
    using primary_word(2) by (simp_all add: srv_ok_def api_word_def word_def is_ws_def)
  with a show "call_ok (\<lambda>_. True) (Up_addr ''volunteers'' ''n1'' ''10.0.0.1:30000'' 100)" by simp
qed

theorem overlapping_calls_as_sequential_witness:
  "servers (snd (snd (run_calls sim_host [Up_addr ''volunteers'' ''n1'' ''10.0.0.1:30000'' 100, Rm_maint ''volunteers'' ''n2'']
       ([], volunteers_only)))) (''volunteers'', ''n1'') =
   servers (snd (snd (run_calls sim_host [Rm_maint ''volunteers'' ''n2'', Up_addr ''volunteers'' ''n1'' ''10.0.0.1:30000'' 100]
       ([], volunteers_only)))) (''volunteers'', ''n1'')"
proof -
  let ?cs = "[Rm_maint ''volunteers'' ''n2'', Up_addr ''volunteers'' ''n1'' ''10.0.0.1:30000'' 100]"
    and ?h = "([], volunteers_only)"
  have ok: "\<forall>c \<in> set ?cs. call_ok (\<lambda>_. True) c \<and> in_order c (snd ?h)" using wit_calls_ok by simp
  have ap: "apart ?cs" by (auto simp: apart_def)
  have steps: "(calls_step sim_host)\<^sup>*\<^sup>* (?h, map Inl ?cs) (snd (run_calls sim_host ?cs ?h), map Inr (fst (run_calls sim_host ?cs ?h)))"
    using run_calls_steps [of sim_host ?h "[]" ?cs] by simp
  have "mset (rev ?cs) = mset ?cs" by simp
  note spec = overlapping_calls_as_sequential [OF sim_admin ok ap steps this]
  have "\<forall>c \<in> set ?cs. removal c \<longrightarrow> (''volunteers'', ''n1'') \<notin> call_targets c" by simp
  from conjunct2 [OF conjunct2 [OF spec], rule_format, OF this [rule_format]]
  show ?thesis by (simp del: run_calls.simps)
qed

text \<open>Two calls about one server: a removal that has put it into maintenance and a move of the same volunteer
  that brings it back to ready before the removal deletes it. HAProxy deletes no server that is ready, so
  it stays, at the new address and receiving visitors, although the volunteer was removed.\<close>

theorem refused_removal_leaves_server:
  assumes "haproxy_admin is_ip x view" "srv_ok b s" "addr_ok is_ip a" "known_backend (view h) b"
    "servers (view h) (b, s) = Some v"
  shows "\<exists>h' r. (calls_step x)\<^sup>*\<^sup>* (h, [Inl (Rm_maint b s), Inl (Mv_maint b s a None)]) (h', [Inr r, Inr (Inr ())]) \<and>
    servers (view h') (b, s) = Some (v\<lparr>srv_addr := a, srv_state := ''ready''\<rparr>)"
proof -
  obtain r1 h1 where 1: "set_state x b s ''maint'' h = (r1, h1)" by fastforce
  with set_acts(2) [OF assms(1,2) 1] assms(4,5) have v1: "r1 = Inr ()" "view h1 = put_srv (b, s) (Some (v\<lparr>srv_state := ''maint''\<rparr>)) (view h)"
    by (simp_all add: acts_on_def)
  have s1: "calls_step x (h, [Inl (Rm_maint b s), Inl (Mv_maint b s a None)]) (h1, [Inl (Rm_del b s), Inl (Mv_maint b s a None)])"
    using calls_step.intros [of 0 "[Inl (Rm_maint b s), Inl (Mv_maint b s a None)]" "Rm_maint b s" x h "Inl (Rm_del b s)" h1] 1 v1
    by (simp add: sent_then_def)
  let ?c = "Mv_maint b s a None"
  obtain r h2 where 2: "run_call x ?c h1 = (r, h2)" by fastforce
  have "rest_of ?c (view h1) = (\<not> isl r, view h2)"
    using run_call_rest [OF assms(1), of ?c h1] assms(2,3) 2 by (simp add: next_ok_def outcomes_plain)
  moreover have "rest_of ?c (view h1) = (True, put_srv (b, s) (Some (v\<lparr>srv_addr := a, srv_state := ''ready''\<rparr>)) (view h))"
    unfolding v1(2) using assms(4) by (simp add: with_srv_present then_move_def)
  ultimately have "\<not> isl r" "view h2 = put_srv (b, s) (Some (v\<lparr>srv_addr := a, srv_state := ''ready''\<rparr>)) (view h)"
    by (metis prod.inject)+
  then have v2: "r = Inr ()" "servers (view h2) (b, s) = Some (v\<lparr>srv_addr := a, srv_state := ''ready''\<rparr>)"
    by (cases r, simp_all)+
  have s2: "(calls_step x)\<^sup>*\<^sup>* (h1, [Inl (Rm_del b s), Inl ?c]) (h2, [Inl (Rm_del b s), Inr (Inr ())])"
    using run_call_steps [of 1 "[Inl (Rm_del b s), Inl ?c]" ?c x h1] 2 v2 by simp
  obtain r3 h3 where 3: "remove_server x b s h2 = (r3, h3)" by fastforce
  have "view h3 = view h2"
    using cmd_outcome [OF assms(1), of "Del_server b s" h2 r3 h3] 3 assms(2) v2
    by (auto simp: run_cmds srv_ok_def simp del: api_text.simps)
  moreover have "\<exists>r'. call_advance x (Rm_del b s) h2 = (Inr r', h3)"
    using 3 by (cases r3) (auto simp: sent_then_def)
  then obtain r' where "call_advance x (Rm_del b s) h2 = (Inr r', h3)" ..
  then have "calls_step x (h2, [Inl (Rm_del b s), Inr (Inr ())]) (h3, [Inr r', Inr (Inr ())])"
    using calls_step.intros [of 0 "[Inl (Rm_del b s), Inr (Inr ())]" "Rm_del b s" x h2 "Inr r'" h3] by simp
  ultimately show ?thesis
    using v2(2) s1 s2 by (intro exI [of _ h3] exI [of _ r']) (auto intro: rtranclp.rtrancl_into_rtrancl converse_rtranclp_into_rtranclp)
qed

theorem refused_removal_leaves_server_witness:
  "\<exists>h' r. (calls_step sim_host)\<^sup>*\<^sup>* (([], put_srv (''volunteers'', ''n1'')
        (Some \<lparr>srv_addr = ''a'', srv_weight = 1, srv_state = ''ready''\<rparr>) volunteers_only),
      [Inl (Rm_maint ''volunteers'' ''n1''), Inl (Mv_maint ''volunteers'' ''n1'' ''10.0.0.1:30000'' None)])
      (h', [Inr r, Inr (Inr ())]) \<and>
    servers (snd h') (''volunteers'', ''n1'') =
      Some \<lparr>srv_addr = ''10.0.0.1:30000'', srv_weight = 1, srv_state = ''ready''\<rparr>"
  using refused_removal_leaves_server [OF sim_admin, of "''volunteers''" "''n1''" "\<lambda>_. True" "''10.0.0.1:30000''"
      "([], put_srv (''volunteers'', ''n1'') (Some \<lparr>srv_addr = ''a'', srv_weight = 1, srv_state = ''ready''\<rparr>) volunteers_only)"]
    wit_calls_ok
  by (simp add: volunteers_only_def)

end
