(* ===== verification/Dns_Provider.thy ===== *)
theory Dns_Provider
  imports Json "HOL-Library.Sublist"
begin

text \<open>
  \<^verbatim>\<open>haproxy-manager/src/subdomain.rs\<close>: the DNS providers. The Cloudflare API is reached
  through an HTTP client, a parameter: one operation that sends a request and parses the answer, so
  that a transport failure and an answer that is not JSON are both errors of it.
\<close>

subsection \<open>JSON values\<close>

text \<open>\<^verbatim>\<open>value["key"]\<close>: null when there is no such member. \<^verbatim>\<open>as_bool\<close>, \<^verbatim>\<open>as_str\<close>, \<^verbatim>\<open>as_array\<close>.\<close>

fun member_of :: "json \<Rightarrow> string \<Rightarrow> json" where
  "member_of (J_object ms) key = (case map_of ms key of Some v \<Rightarrow> v | None \<Rightarrow> J_null)"
| "member_of _ key = J_null"

fun as_bool :: "json \<Rightarrow> bool option" where
  "as_bool (J_bool b) = Some b"
| "as_bool _ = None"

fun as_str :: "json \<Rightarrow> string option" where
  "as_str (J_string s) = Some s"
| "as_str _ = None"

fun as_array :: "json \<Rightarrow> json list option" where
  "as_array (J_array vs) = Some vs"
| "as_array _ = None"

subsection \<open>The providers\<close>

datatype dns_error = Http io_error | Api string

datatype verb = Get | Post json | Delete

record 'h web =
  web_send :: "verb \<Rightarrow> string \<Rightarrow> string \<Rightarrow> 'h \<Rightarrow> (io_error + json) \<times> 'h"
  json_text :: "json \<Rightarrow> string"

text \<open>\<^verbatim>\<open>NoopProvider\<close>.\<close>

definition noop_create :: "string \<Rightarrow> 'h \<Rightarrow> (dns_error + unit) \<times> 'h" where
  "noop_create subdomain = okE ()"

definition noop_delete :: "string \<Rightarrow> 'h \<Rightarrow> (dns_error + unit) \<times> 'h" where
  "noop_delete subdomain = okE ()"

record cloudflare =
  token :: string
  zone_id :: string
  base_domain :: string

definition from_env :: "(string \<Rightarrow> string option) \<Rightarrow> cloudflare option" where
  "from_env var =
     Option.bind (var ''CLOUDFLARE_TOKEN'') (\<lambda>t.
     Option.bind (var ''CLOUDFLARE_ZONE_ID'') (\<lambda>z.
     Option.bind (var ''BASE_DOMAIN'') (\<lambda>b.
       Some \<lparr>token = t, zone_id = z, base_domain = b\<rparr>)))"

definition api_url :: "string \<Rightarrow> string" where
  "api_url path = ''https://api.cloudflare.com/client/v4'' @ path"

definition fqdn :: "cloudflare \<Rightarrow> string \<Rightarrow> string" where
  "fqdn c subdomain = subdomain @ ''.'' @ base_domain c"

definition records_url :: "cloudflare \<Rightarrow> string" where
  "records_url c = api_url (''/zones/'' @ zone_id c @ ''/dns_records'')"

definition dns_create ::
  "'h web \<Rightarrow> cloudflare \<Rightarrow> string option \<Rightarrow> string \<Rightarrow> 'h \<Rightarrow> (dns_error + unit) \<times> 'h" where
  "dns_create w c server_ip subdomain =
     (let ip = (case server_ip of Some a \<Rightarrow> a | None \<Rightarrow> ''127.0.0.1'');
          body = J_object [(''type'', J_string ''A''), (''name'', J_string (fqdn c subdomain)), (''content'', J_string ip),
                      (''ttl'', J_int 1), (''proxied'', J_bool False)]
      in tryE (map_errE Http (web_send w (Post body) (records_url c) (token c))) (\<lambda>resp.
           if as_bool (member_of resp ''success'') \<noteq> Some True
           then errE (Api (json_text w (member_of resp ''errors'')))
           else okE ()))"

definition first_record :: "json \<Rightarrow> string option" where
  "first_record resp =
     Option.bind (as_array (member_of resp ''result'')) (\<lambda>arr.
       case arr of [] \<Rightarrow> None | r # _ \<Rightarrow> as_str (member_of r ''id''))"

definition dns_delete :: "'h web \<Rightarrow> cloudflare \<Rightarrow> string \<Rightarrow> 'h \<Rightarrow> (dns_error + unit) \<times> 'h" where
  "dns_delete w c subdomain =
     tryE (map_errE Http (web_send w Get (records_url c @ ''?type=A&name='' @ fqdn c subdomain) (token c))) (\<lambda>resp.
       case first_record resp of
         None \<Rightarrow> okE ()
       | Some record_id \<Rightarrow>
           tryE (map_errE Http (web_send w Delete (records_url c @ ''/'' @ record_id) (token c))) (\<lambda>resp.
             if as_bool (member_of resp ''success'') \<noteq> Some True
             then errE (Api (json_text w (member_of resp ''errors'')))
             else okE ()))"

subsection \<open>The zone\<close>

text \<open>
  The part of the API's contract the code uses, over a view of the zone as its A records, each an
  identifier, a name and an address. Every request may fail on its way, and every request may be refused,
  for its token, its content or a record in conflict. Listing changes nothing; when it succeeds it gives
  records of the name asked for, at least one if there is one; a refusal carries no record. A post for a
  name of the zone that succeeds has added one record with an identifier of its own; a deletion that
  succeeds has removed the record of the identifier; a refused one has changed nothing. When the answer
  is lost, the request may have taken effect or not. Nothing is said of names outside the zone, which the
  API completes, or in upper case, which it changes.
\<close>

type_synonym zone = "(string \<times> string \<times> string) list"

definition record_json :: "string \<times> string \<times> string \<Rightarrow> json" where
  "record_json r = J_object [(''id'', J_string (fst r)), (''name'', J_string (fst (snd r))), (''content'', J_string (snd (snd r)))]"

definition host_name :: "string \<Rightarrow> bool" where
  "host_name n \<longleftrightarrow> list_all (\<lambda>ch. ch \<in> set ''abcdefghijklmnopqrstuvwxyz0123456789-.'') n"

definition names_of :: "zone \<Rightarrow> string set" where
  "names_of z = (\<lambda>r. fst (snd r)) ` set z"

definition records_named :: "string \<Rightarrow> zone \<Rightarrow> zone" where
  "records_named name z = filter (\<lambda>r. fst (snd r) = name) z"

definition accepted_by_api :: "json \<Rightarrow> bool" where
  "accepted_by_api resp \<longleftrightarrow> as_bool (member_of resp ''success'') = Some True"

definition list_answer :: "string \<Rightarrow> zone \<Rightarrow> json \<Rightarrow> bool" where
  "list_answer name z resp \<longleftrightarrow>
     (if accepted_by_api resp
      then \<exists>rs. member_of resp ''result'' = J_array (map record_json rs) \<and> set rs \<subseteq> set (records_named name z) \<and>
        (rs = [] \<longrightarrow> records_named name z = [])
      else first_record resp = None)"

definition added :: "string \<Rightarrow> string \<Rightarrow> zone \<Rightarrow> zone \<Rightarrow> bool" where
  "added name addr z z' \<longleftrightarrow> (\<exists>i. i \<notin> fst ` set z \<and> z' = z @ [(i, name, addr)])"

definition without :: "string \<Rightarrow> zone \<Rightarrow> zone" where
  "without i z = filter (\<lambda>r. fst r \<noteq> i) z"

definition effect_on :: "(io_error + json) \<Rightarrow> (zone \<Rightarrow> zone \<Rightarrow> bool) \<Rightarrow> zone \<Rightarrow> zone \<Rightarrow> bool" where
  "effect_on r change z z' \<longleftrightarrow>
     (case r of
        Inl _ \<Rightarrow> z' = z \<or> change z z'
      | Inr resp \<Rightarrow> if accepted_by_api resp then change z z' else z' = z)"

definition cloudflare_api :: "'h web \<Rightarrow> cloudflare \<Rightarrow> string \<Rightarrow> ('h \<Rightarrow> zone) \<Rightarrow> bool" where
  "cloudflare_api w c zone_name zone_of \<longleftrightarrow>
     (\<forall>name h r h'. host_name name \<longrightarrow>
        web_send w Get (records_url c @ ''?type=A&name='' @ name) (token c) h = (r, h') \<longrightarrow>
        zone_of h' = zone_of h \<and> (\<forall>resp. r = Inr resp \<longrightarrow> list_answer name (zone_of h) resp)) \<and>
     (\<forall>body name addr h r h'. host_name name \<longrightarrow> suffix (CHR ''.'' # zone_name) name \<longrightarrow>
        member_of body ''type'' = J_string ''A'' \<longrightarrow> member_of body ''name'' = J_string name \<longrightarrow>
        member_of body ''content'' = J_string addr \<longrightarrow>
        web_send w (Post body) (records_url c) (token c) h = (r, h') \<longrightarrow>
        effect_on r (added name addr) (zone_of h) (zone_of h')) \<and>
     (\<forall>i h r h'. web_send w Delete (records_url c @ ''/'' @ i) (token c) h = (r, h') \<longrightarrow>
        effect_on r (\<lambda>z z'. z' = without i z) (zone_of h) (zone_of h'))"

lemma cloudflare_list:
  assumes "cloudflare_api w c zn zone_of" "host_name name"
    "web_send w Get (records_url c @ ''?type=A&name='' @ name) (token c) h = (r, h')"
  shows "zone_of h' = zone_of h" "r = Inr resp \<Longrightarrow> list_answer name (zone_of h) resp"
  using assms unfolding cloudflare_api_def by blast+

lemma cloudflare_post:
  assumes "cloudflare_api w c zn zone_of" "host_name name" "suffix (CHR ''.'' # zn) name"
    and "member_of body ''type'' = J_string ''A''" "member_of body ''name'' = J_string name"
      "member_of body ''content'' = J_string addr" "web_send w (Post body) (records_url c) (token c) h = (r, h')"
  shows "effect_on r (added name addr) (zone_of h) (zone_of h')"
  using assms(1) unfolding cloudflare_api_def by (elim conjE) (use assms(2-) in meson)

lemma cloudflare_delete:
  assumes "cloudflare_api w c zn zone_of" "web_send w Delete (records_url c @ ''/'' @ i) (token c) h = (r, h')"
  shows "effect_on r (\<lambda>z z'. z' = without i z) (zone_of h) (zone_of h')"
  using assms unfolding cloudflare_api_def by meson

text \<open>The address of a new record, and what each answer of the two operations says of the zone.\<close>

definition address_for :: "string option \<Rightarrow> string" where
  "address_for server_ip = (case server_ip of Some a \<Rightarrow> a | None \<Rightarrow> ''127.0.0.1'')"

lemma create_zone:
  assumes "cloudflare_api w c zn zone_of" "host_name (fqdn c sub)" "suffix (CHR ''.'' # zn) (fqdn c sub)"
    and "dns_create w c ip sub h = (res, h')"
  shows "case res of
      Inr _ \<Rightarrow> added (fqdn c sub) (address_for ip) (zone_of h) (zone_of h')
    | Inl (Api _) \<Rightarrow> zone_of h' = zone_of h
    | Inl (Http _) \<Rightarrow> zone_of h' = zone_of h \<or> added (fqdn c sub) (address_for ip) (zone_of h) (zone_of h')"
proof -
  let ?body = "J_object [(''type'', J_string ''A''), (''name'', J_string (fqdn c sub)),
      (''content'', J_string (address_for ip)), (''ttl'', J_int 1), (''proxied'', J_bool False)]"
  obtain r h1 where s: "web_send w (Post ?body) (records_url c) (token c) h = (r, h1)" by fastforce
  have e: "effect_on r (added (fqdn c sub) (address_for ip)) (zone_of h) (zone_of h1)"
    by (rule cloudflare_post [OF assms(1-3) _ _ _ s]) simp_all
  show ?thesis
  proof (cases r)
    case (Inl x)
    then show ?thesis using assms(4) e s
      by (auto simp: dns_create_def effect_on_def address_for_def Let_def)
  next
    case (Inr resp)
    then show ?thesis using assms(4) e s
      by (auto simp: dns_create_def effect_on_def accepted_by_api_def okE_def errE_def address_for_def Let_def split: if_splits)
  qed
qed

definition listing :: "'h web \<Rightarrow> cloudflare \<Rightarrow> string \<Rightarrow> 'h \<Rightarrow> io_error + json" where
  "listing w c sub h = fst (web_send w Get (records_url c @ ''?type=A&name='' @ fqdn c sub) (token c) h)"

lemma delete_zone:
  assumes "cloudflare_api w c zn zone_of" "host_name (fqdn c sub)" and "dns_delete w c sub h = (res, h')"
  shows "zone_of h' = zone_of h \<or> (\<exists>r \<in> set (records_named (fqdn c sub) (zone_of h)). zone_of h' = without (fst r) (zone_of h))"
    and "res = Inl (Api e) \<Longrightarrow> zone_of h' = zone_of h"
    and "res = Inr () \<Longrightarrow> listing w c sub h = Inr resp \<Longrightarrow> accepted_by_api resp \<Longrightarrow>
      (if records_named (fqdn c sub) (zone_of h) = [] then zone_of h' = zone_of h
       else \<exists>r \<in> set (records_named (fqdn c sub) (zone_of h)). zone_of h' = without (fst r) (zone_of h))"
proof -
  let ?named = "records_named (fqdn c sub) (zone_of h)"
  obtain r h1 where s: "web_send w Get (records_url c @ ''?type=A&name='' @ fqdn c sub) (token c) h = (r, h1)" by fastforce
  note z1 = cloudflare_list [OF assms(1,2) s]
  have all: "(zone_of h' = zone_of h \<or> (\<exists>r \<in> set ?named. zone_of h' = without (fst r) (zone_of h))) \<and>
    (res = Inl (Api e) \<longrightarrow> zone_of h' = zone_of h) \<and>
    (res = Inr () \<longrightarrow> listing w c sub h = Inr resp \<longrightarrow> accepted_by_api resp \<longrightarrow>
      (if ?named = [] then zone_of h' = zone_of h
       else \<exists>r \<in> set ?named. zone_of h' = without (fst r) (zone_of h)))"
  proof (cases "\<exists>a. r = Inr a \<and> first_record a \<noteq> None")
    case True
    then obtain a i where a: "r = Inr a" "first_record a = Some i" by blast
    with z1(2) have "accepted_by_api a" by (auto simp: list_answer_def split: if_splits)
    with a z1(2) obtain rs where rs: "member_of a ''result'' = J_array (map record_json rs)" "set rs \<subseteq> set ?named"
      by (auto simp: list_answer_def)
    with a(2) obtain q where q: "q \<in> set ?named" "fst q = i"
      by (cases rs) (auto simp: first_record_def record_json_def)
    then have ne: "?named \<noteq> []" by auto
    obtain r2 h2 where s2: "web_send w Delete (records_url c @ ''/'' @ i) (token c) h1 = (r2, h2)" by fastforce
    note e = cloudflare_delete [OF assms(1) s2]
    show ?thesis
    proof (cases r2)
      case (Inl x)
      then show ?thesis using assms(3) s s2 a e z1(1) q
        by (auto simp: dns_delete_def effect_on_def)
    next
      case (Inr b)
      then have "h' = h2" "res = (if accepted_by_api b then Inr () else Inl (Api (json_text w (member_of b ''errors''))))"
        using assms(3) s s2 a by (auto simp: dns_delete_def accepted_by_api_def okE_def errE_def split: if_splits)
      with Inr e z1(1) q ne show ?thesis by (cases "accepted_by_api b") (auto simp: effect_on_def)
    qed
  next
    case False
    then have "h' = h1" "\<And>e. res \<noteq> Inl (Api e)" using assms(3) s
      by (cases r; auto simp: dns_delete_def okE_def)+
    moreover have "?named = []" if "listing w c sub h = Inr resp" "accepted_by_api resp"
    proof -
      from that(1) s have r: "r = Inr resp" by (simp add: listing_def)
      with z1(2) that(2) obtain rs where rs: "member_of resp ''result'' = J_array (map record_json rs)"
        "rs = [] \<longrightarrow> ?named = []" by (auto simp: list_answer_def)
      with False r show ?thesis by (cases rs) (auto simp: first_record_def record_json_def)
    qed
    ultimately show ?thesis using z1(1) by simp
  qed
  then show "zone_of h' = zone_of h \<or> (\<exists>r \<in> set ?named. zone_of h' = without (fst r) (zone_of h))"
    "res = Inl (Api e) \<Longrightarrow> zone_of h' = zone_of h"
    "res = Inr () \<Longrightarrow> listing w c sub h = Inr resp \<Longrightarrow> accepted_by_api resp \<Longrightarrow>
      (if ?named = [] then zone_of h' = zone_of h
       else \<exists>r \<in> set ?named. zone_of h' = without (fst r) (zone_of h))" by blast+
qed

text \<open>
  A simulated API, for the witness: the zone, and identifiers longer than every identifier in it. It
  refuses a record whose name exists.
\<close>

definition sim_zone :: "cloudflare \<Rightarrow> zone web" where
  "sim_zone c = \<lparr>
     web_send = (\<lambda>v url tok z. case v of
        Get \<Rightarrow> (Inr (J_object [(''success'', J_bool True), (''result'', J_array (map record_json
                  (records_named (drop (length (records_url c @ ''?type=A&name='')) url) z)))]), z)
      | Post body \<Rightarrow>
          (case (as_str (member_of body ''name''), as_str (member_of body ''content'')) of
             (Some n, Some a) \<Rightarrow>
               if n \<in> names_of z then (Inr (J_object [(''success'', J_bool False)]), z)
               else (Inr (J_object [(''success'', J_bool True)]), z @ [(concat (map fst z) @ ''r'', n, a)])
           | _ \<Rightarrow> (Inr (J_object [(''success'', J_bool False)]), z))
      | Delete \<Rightarrow> (Inr (J_object [(''success'', J_bool True)]),
           without (drop (length (records_url c @ ''/'')) url) z)),
     json_text = (\<lambda>_. [])\<rparr>"

lemma concat_longer: "i \<in> fst ` set (z :: zone) \<Longrightarrow> length i \<le> length (concat (map fst z))"
proof (induction z)
  case (Cons r z)
  then show ?case by (cases "i = fst r") (force intro: trans_le_add2)+
qed simp

lemma sim_zone_ok: "cloudflare_api (sim_zone c) c zn (\<lambda>z. z)"
proof -
  have "concat (map fst z) @ ''r'' \<notin> fst ` set z" for z :: zone
    using concat_longer [of "concat (map fst z) @ ''r''" z] by auto
  then show ?thesis
    by (auto simp: cloudflare_api_def sim_zone_def list_answer_def accepted_by_api_def effect_on_def added_def)
qed

text \<open>C40 A subdomain (in lower case, under the zone's domain) whose creation is answered Ok has got one new A
  record of its name and address, with an identifier of its own; when the name was free and the deletion
  is answered Ok too, its listing not refused, the zone is as it was before. In general a creation that
  the API refuses changes nothing, and one that fails on the way changes nothing or has added the record;
  a deletion removes one record of its name or nothing: one, if it answers Ok and its listing was not
  refused and there is one; nothing, if the API refuses it.\<close>

theorem dns_create_delete:
  assumes "cloudflare_api w c zn zone_of" "host_name (fqdn c sub)" "suffix (CHR ''.'' # zn) (fqdn c sub)"
    and "dns_create w c ip sub h = (res, h1)" "dns_delete w c sub h1 = (res', h2)"
  shows "(case res of
      Inr _ \<Rightarrow> added (fqdn c sub) (address_for ip) (zone_of h) (zone_of h1)
    | Inl (Api _) \<Rightarrow> zone_of h1 = zone_of h
    | Inl (Http _) \<Rightarrow> zone_of h1 = zone_of h \<or> added (fqdn c sub) (address_for ip) (zone_of h) (zone_of h1)) \<and>
    (zone_of h2 = zone_of h1 \<or>
      (\<exists>r \<in> set (records_named (fqdn c sub) (zone_of h1)). zone_of h2 = without (fst r) (zone_of h1))) \<and>
    (\<forall>e. res' = Inl (Api e) \<longrightarrow> zone_of h2 = zone_of h1) \<and>
    (res' = Inr () \<and> (\<exists>resp. listing w c sub h1 = Inr resp \<and> accepted_by_api resp) \<longrightarrow>
      (records_named (fqdn c sub) (zone_of h1) \<noteq> [] \<longrightarrow>
        (\<exists>r \<in> set (records_named (fqdn c sub) (zone_of h1)). zone_of h2 = without (fst r) (zone_of h1))) \<and>
      (res = Inr () \<and> fqdn c sub \<notin> names_of (zone_of h) \<longrightarrow> zone_of h2 = zone_of h))"
proof (intro conjI impI allI)
  note create = create_zone [OF assms(1-4)] and delete = delete_zone [OF assms(1,2,5)]
  show "case res of
      Inr _ \<Rightarrow> added (fqdn c sub) (address_for ip) (zone_of h) (zone_of h1)
    | Inl (Api _) \<Rightarrow> zone_of h1 = zone_of h
    | Inl (Http _) \<Rightarrow> zone_of h1 = zone_of h \<or> added (fqdn c sub) (address_for ip) (zone_of h) (zone_of h1)"
    by (rule create)
  show "zone_of h2 = zone_of h1 \<or>
      (\<exists>r \<in> set (records_named (fqdn c sub) (zone_of h1)). zone_of h2 = without (fst r) (zone_of h1))"
    by (rule delete(1))
  show "zone_of h2 = zone_of h1" if "res' = Inl (Api e)" for e using delete(2) [OF that] .
  assume ok: "res' = Inr () \<and> (\<exists>resp. listing w c sub h1 = Inr resp \<and> accepted_by_api resp)"
  with delete(3) show one: "\<exists>r \<in> set (records_named (fqdn c sub) (zone_of h1)). zone_of h2 = without (fst r) (zone_of h1)"
    if "records_named (fqdn c sub) (zone_of h1) \<noteq> []"
    using that by (auto split: if_splits)
  assume new: "res = Inr () \<and> fqdn c sub \<notin> names_of (zone_of h)"
  with create obtain i where i: "i \<notin> fst ` set (zone_of h)" "zone_of h1 = zone_of h @ [(i, fqdn c sub, address_for ip)]"
    by (auto simp: added_def)
  have "records_named (fqdn c sub) (zone_of h) = []"
    using new by (auto simp: records_named_def names_of_def filter_empty_conv image_iff)
  with i(2) have own: "records_named (fqdn c sub) (zone_of h1) = [(i, fqdn c sub, address_for ip)]"
    by (simp add: records_named_def)
  have "without i (zone_of h) = zone_of h" using i(1) by (auto simp: without_def filter_id_conv image_iff)
  with one own i(2) show "zone_of h2 = zone_of h" by (simp add: without_def)
qed

theorem dns_create_delete_witness:
  "snd (dns_delete (sim_zone \<lparr>token = ''t'', zone_id = ''z'', base_domain = ''org''\<rparr>) \<lparr>token = ''t'', zone_id = ''z'', base_domain = ''org''\<rparr> ''a''
     (snd (dns_create (sim_zone \<lparr>token = ''t'', zone_id = ''z'', base_domain = ''org''\<rparr>) \<lparr>token = ''t'', zone_id = ''z'', base_domain = ''org''\<rparr>
        None ''a'' [(''1'', ''b.org'', ''10.0.0.1'')]))) = [(''1'', ''b.org'', ''10.0.0.1'')]"
proof -
  let ?c = "\<lparr>token = ''t'', zone_id = ''z'', base_domain = ''org''\<rparr>" and ?z = "[(''1'', ''b.org'', ''10.0.0.1'')]"
  let ?w = "sim_zone ?c"
  have n: "host_name (fqdn ?c ''a'')" "suffix (CHR ''.'' # ''org'') (fqdn ?c ''a'')" "fqdn ?c ''a'' \<notin> names_of ?z"
    by (simp_all add: fqdn_def host_name_def names_of_def suffix_def)
  have 1: "dns_create ?w ?c None ''a'' ?z = (Inr (), ?z @ [(''1r'', fqdn ?c ''a'', ''127.0.0.1'')])"
    using n(3) by (simp add: dns_create_def sim_zone_def okE_def)
  have 2: "fst (dns_delete ?w ?c ''a'' z) = Inr ()" for z
    by (simp add: dns_delete_def sim_zone_def okE_def split: option.split)
  have l: "\<exists>resp. listing ?w ?c ''a'' z = Inr resp \<and> accepted_by_api resp" for z
    by (simp add: listing_def sim_zone_def accepted_by_api_def)
  let ?z1 = "?z @ [(''1r'', fqdn ?c ''a'', ''127.0.0.1'')]"
  have 3: "dns_delete ?w ?c ''a'' ?z1 = (Inr (), snd (dns_delete ?w ?c ''a'' ?z1))" using 2 [of ?z1] by (simp add: prod_eq_iff)
  from dns_create_delete [OF sim_zone_ok n(1,2) 1 3, THEN conjunct2, THEN conjunct2, THEN conjunct2] l n(3)
  have "snd (dns_delete ?w ?c ''a'' ?z1) = ?z" by blast
  then show ?thesis using 1 by simp
qed

text \<open>A refusal of the API reaches the caller when it answers the creation or the deletion of a record,
  but not when it answers the listing that precedes a deletion: the listing's success is not looked at, so
  an answer without a first record with an identifier, such as the refusal of a bad token, is taken for
  "no such record" and the deletion reports success with no record deleted.\<close>

theorem dns_delete_hides_refusal:
  "(\<forall>resp h'. as_bool (member_of resp ''success'') \<noteq> Some True \<longrightarrow>
      (\<forall>body. web_send w (Post body) (records_url c) (token c) h = (Inr resp, h')) \<longrightarrow>
        dns_create w c ip sub h = (Inl (Api (json_text w (member_of resp ''errors''))), h')) \<and>
   (\<forall>resp h'. web_send w Get (records_url c @ ''?type=A&name='' @ fqdn c sub) (token c) h = (Inr resp, h') \<longrightarrow>
      first_record resp = None \<longrightarrow> dns_delete w c sub h = (Inr (), h')) \<and>
   first_record (J_object [(''success'', J_bool False), (''errors'', J_array es), (''result'', J_null)]) = None"
  by (simp add: dns_create_def dns_delete_def first_record_def okE_def errE_def Let_def)

theorem dns_delete_hides_refusal_witness:
  "dns_delete \<lparr>web_send = (\<lambda>v url tok h. (Inr (J_object [(''success'', J_bool False), (''errors'', J_array []), (''result'', J_null)]), h)),
      json_text = (\<lambda>_. ''e'')\<rparr> \<lparr>token = ''t'', zone_id = ''z'', base_domain = ''org''\<rparr> ''a'' () = (Inr (), ())"
  using dns_delete_hides_refusal
    [of "\<lparr>web_send = (\<lambda>v url tok h. (Inr (J_object [(''success'', J_bool False), (''errors'', J_array []), (''result'', J_null)]), h)),
      json_text = (\<lambda>_. ''e'')\<rparr>" "\<lparr>token = ''t'', zone_id = ''z'', base_domain = ''org''\<rparr>" "()" None "''a''" "[]"]
  by simp

end
