(* ===== verification/Spec2Isabelle.thy ===== *)
theory Spec2Isabelle
  imports Tunnel_Relay Config_Lock Registrar_Progress Registrar_Overlaps Registry Registrar_Routing Registrar_Boot Registrar_Json Dashboard_Page Registrar_Monitor Proxy_Calls Config_Samples Dns_Provider
begin

text \<open>
  OpenShard lets volunteers behind NAT serve web sites. A volunteer runs an agent and a tunnel client
  (\<^verbatim>\<open>src/shard-node/container\<close>); the core server runs a tunnel server
  (\<^verbatim>\<open>src/core-server/tunnel\<close>), HAProxy, and the registrar (\<^verbatim>\<open>src/core-server/registrar\<close>), which
  drives HAProxy through the library \<^verbatim>\<open>src/core-server/haproxy-manager\<close>. A visitor reaches
  HAProxy, which connects to the volunteer's public port on the tunnel server; the tunnel server
  announces the visitor to the tunnel client, which opens a data connection and joins it with the local
  web service. This development models the Rust code of these parts, each operation as a function over
  an explicit state, and states what makes it correct.

  \<^bold>\<open>Shared theories.\<close> \<open>Prelude\<close>: machine words, the functions of Rust's \<^verbatim>\<open>str\<close>, the combinator
  \<open>tryE\<close> for the operator \<^verbatim>\<open>?\<close> over a state. \<open>Stores\<close>: \<^verbatim>\<open>HashMap\<close> as an association list in an
  arbitrary order and \<^verbatim>\<open>VecDeque\<close> as a list, each behind an interface (\<open>keyed_store\<close>,
  \<open>work_queue\<close>). \<open>F32\<close>: single-precision arithmetic with rounding to nearest, and its error. \<open>Json\<close>: the
  values of JSON documents.

  \<^bold>\<open>The tunnel.\<close> \<open>Proto\<close> (\<^verbatim>\<open>tunnel/proto.rs\<close>): frames, handshake and stream identifiers as bytes,
  three instances of the interface \<open>fixed_codec\<close>. \<open>Port_Pool\<close> (\<^verbatim>\<open>tunnel/server.rs\<close>, \<^verbatim>\<open>main\<close>,
  \<^verbatim>\<open>allocate_port\<close>, \<^verbatim>\<open>release_port\<close>, \<^verbatim>\<open>run_session\<close>): the state \<open>net\<close> is the set of used ports, the
  listeners the process holds and the ports the system refuses; \<open>server_step\<close> interleaves the session
  threads. No two sessions share a port; but the listener of a data port is never dropped, so each
  session uses up a port and the 1001 ports of the range serve 1000 sessions. \<open>Tunnel_Session\<close>
  (\<^verbatim>\<open>control_reader\<close>, \<^verbatim>\<open>data_acceptor\<close>, \<^verbatim>\<open>public_acceptor\<close>, \<^verbatim>\<open>splice\<close>, \<^verbatim>\<open>copy_half\<close>): the state
  \<open>session\<close> holds the pending map, the frames sent and, as ghosts, the visitors accepted and closed;
  \<open>session_step\<close> interleaves the three threads. Every visitor is pending, spliced exactly once, or
  closed, and is spliced with the connection that named its stream. \<open>Tunnel_Client\<close>
  (\<^verbatim>\<open>shard-node/container/client.rs\<close>): one round of the reconnection loop with the outcome of every
  system call as an argument, and the two ends of the tunnel together. \<open>Tunnel_Relay\<close>: the client's byte pump,
  and the bytes of a visitor through both ends.

  \<^bold>\<open>HAProxy.\<close> \<open>Haproxy_Config\<close> (\<^verbatim>\<open>haproxy-manager/src/config.rs\<close>): the edits of \<^verbatim>\<open>haproxy.cfg\<close> as
  functions on its text, and the operations with their file accesses, validation and reload. The world
  outside the program is a record \<open>host\<close> of operations on an abstract state, each of which may fail. \<open>Config_Lock\<close>: any
  number of edits at once, each cut at its awaits, under the lock of the file, with commands for the running
  HAProxy in between; they take effect on the file one after the other, unless a caller is dropped in the
  middle of its edit.
  \<open>Haproxy_Runtime\<close> (\<^verbatim>\<open>runtime.rs\<close>): the commands of the admin socket; the contract of the HAProxy
  process (\<open>haproxy_admin\<close>, \<open>haproxy_host\<close>) over a view of its servers; a simulated HAProxy that
  satisfies it, used by the witnesses. \<open>Haproxy_Manager\<close> (\<^verbatim>\<open>lib.rs\<close>): the operations the registrar
  calls and what they leave in HAProxy. \<open>Proxy_Calls\<close>: those on the running HAProxy command by command, any
  number at once; calls about different servers do as one after the other, up to cancelled deletions, and of
  two about one server the removal can be refused. \<open>Config_Samples\<close>: the files of the unit tests. \<open>Dns_Provider\<close> (\<^verbatim>\<open>subdomain.rs\<close>): the DNS providers over an
  HTTP client, with a zone as the contract of the API.

  \<^bold>\<open>The registrar.\<close> \<open>Registrar_State\<close> (\<^verbatim>\<open>registrar/src/state.rs\<close>): what is known of a volunteer,
  whether it is alive, its weight. \<open>Registrar_Db\<close> (\<^verbatim>\<open>db.rs\<close>): the two tables, their statements (each may
  fail, as the list \<open>db_faults\<close> says) and the registrar's state \<open>reg\<close>. \<open>Registrar\<close>
  (\<^verbatim>\<open>enrollment.rs\<close>, \<^verbatim>\<open>services.rs\<close>, \<^verbatim>\<open>churn.rs\<close>, \<^verbatim>\<open>dispatch.rs\<close>, \<^verbatim>\<open>main.rs\<close>): one function for each
  handler, the churn tick, and the start with crash recovery. \<open>Registrar_Invariant\<close>,
  \<open>Registrar_Reachable\<close>, \<open>Registrar_Services\<close>: the states reachable by one request after the other with
  restarts between them and no failing statement; the map and the database agree in all of them, and no
  service is lost except by a disconnection or a restart. \<open>Registrar_Properties\<close>: what each handler does.
  \<open>Registrar_Races\<close>: two requests that overlap between two locks. \<open>Registrar_Proxy\<close>: the registrar and
  HAProxy together, after a restart and after a heartbeat. \<open>Registrar_Routing\<close>: the same when volunteers come
  and go; the server of a service outlives the volunteer it points to. \<open>Registrar_Boot\<close> (\<^verbatim>\<open>db.rs\<close>, \<^verbatim>\<open>main.rs\<close>): the
  schema, what the statements store under it, opening the database and starting the process.
  \<open>Registrar_Api\<close> (\<^verbatim>\<open>main.rs\<close> and the annotations of the handlers): the router, the extractors as
  parameters, the documented interface; and what is done for every method and path.
  \<open>Registrar_Json\<close>: the types of requests and answers as JSON documents and as schemas, as \<^verbatim>\<open>serde\<close> and
  \<^verbatim>\<open>utoipa\<close> derive them; what clients write is what the handlers get, and what they answer is as documented.
  \<open>Registrar_Monitor\<close> (\<^verbatim>\<open>churn.rs\<close>): the loop of the churn monitor in time, every 15 seconds, with requests
  and restarts between the ticks; no volunteer is known 60 seconds after the last heartbeat recorded for it.

  \<^bold>\<open>The web page\<close> (\<^verbatim>\<open>dashboard.rs\<close>). \<open>Dashboard\<close>: the rows the script writes, as a function of the volunteers,
  and their escaping. \<open>Dashboard_Weight\<close>: the weight as the script computes it, in double precision, against
  the registrar's. \<open>Dashboard_Page\<close>: the static page and the script on the JSON document; from the registrar's
  state through the interface to the rows of the table.

  \<^bold>\<open>Concurrency.\<close> \<open>Registrar_Tasks\<close>: each handler that changes the state is cut into tasks at the points
  where it gives up a lock or awaits; \<open>advance\<close> is one step (a call of the HAProxy library is one step),
  and a task run without interruption is its handler. \<open>Registrar_Concurrent\<close>: \<open>sys_step\<close> interleaves any
  number of tasks, with failing statements, abandoned requests, crashes and a HAProxy that changes on its
  own; at most one churn tick is under way, as in the code. \<open>Registrar_Overlaps\<close>: runs of this system in
  which the code loses or duplicates a service or brings a volunteer back. \<open>Registrar_Progress\<close>: however
  the steps interleave, all handlers in flight come to an end and every request is answered once, when
  each await ends. The handlers that only read
  are not tasks: they take the state once.

  \<^bold>\<open>Specification.\<close> \<open>Registry\<close>: nodes with a name, an address and at most one job, a queue of jobs, and
  eight guarded events; \<open>registry_of\<close> maps the registrar's state to it, and each handler is shown to
  perform the events its purpose asks for.

  \<^bold>\<open>Bounds.\<close> Loops over data are structural recursions. A request ends after ten steps of its own
  task, a churn tick after five for each dead volunteer and two. The search for the unit in the last place of a
  single takes 253 steps, the number of binary exponents, and 2045 for a double; a schema is followed through two references; waiting for HAProxy's socket is the 30 looks
  of the code; the port range has 1001 ports. Loops that run for ever in the code (accepting
  connections, reconnecting, ticking) are modelled by their bodies, as steps.

  \<^bold>\<open>Hypotheses about code that is not in the repository.\<close> \<open>crates_ok\<close>: UUIDs and times print and parse
  back. \<open>fresh_id\<close>: a new random UUID is in use nowhere. \<open>json_metrics\<close>: a JSON number is not NaN.
  \<open>reads_back\<close>, \<open>loads_read\<close>: the decimal written for a single reads back as the same single.
  \<open>config_files\<close>: a read of the configuration that succeeds gives its content, a write that succeeds
  replaces it, nothing else writes it; reads and writes may fail, and a write that fails may leave anything.
  \<open>haproxy_admin\<close>: the admin socket answers, and HAProxy does what its commands say; a deletion it may
  cancel, with any answer. \<open>haproxy_host\<close>: the two together, and a signal that arrives starts a worker on
  the file; the check may reject it and the signal may fail. \<open>cloudflare_api\<close>: of an answer that reports
  success, what it did; a request may be refused or lost. Each has a concrete instance, used by the witnesses.

  \<^bold>\<open>Not modelled.\<close> Waiting: the locks of the registrar are held within one step, so no step waits for one,
  and a command to the admin socket, which the code reads without a timeout, ends. A file write that goes on
  after its caller was dropped. The clock is read once for a list of volunteers. Log lines; the panics on a
  failing \<^verbatim>\<open>set_nonblocking\<close>; the text of a rejected request's body; the URL syntax of the database path; the text of the metrics (a library); the parsing of HTTP and of JSON text
  (libraries: a request comes with its JSON value); the text \<^verbatim>\<open>toFixed\<close> makes of a number and the messages of a
  browser's exceptions (parameters); binding the registrar's own port; the Python agent, Docker files, scripts
  and experiments. A \<open>char\<close> stands for a code point below 256.
\<close>

end
